(* ===== verification/Prelude.thy ===== *)
theory Prelude
  imports Main "HOL-Library.Word"
begin

text \<open>
  Shared vocabulary of the development: the machine integers of the C code, the
  computations every kernel function is written in (state passing with faults and with
  non-termination as values), and the theory of null-terminated pointer chains on which
  the run queue, the wait queue and the blocked lists rest.
\<close>

type_synonym u8 = "8 word"
type_synonym u16 = "16 word"
type_synonym u32 = "32 word"

named_theorems exec "symbolic execution of computations"

section \<open>Computations\<close>

text \<open>
  A fault ends the computation: a failed \<open>OS_ASSERT\<close> (on the devices \<open>osi_assert\<close> reports and
  resets the system), a reset requested by \<open>osi_panic\<close>, a read or write through \<open>NULL\<close>,
  an index outside an array, an argument of another type than the one \<open>va_arg\<close> asks for, a division
  by zero.  \<open>None\<close>
  is a loop that never ends.
\<close>

datatype fault =
    Assertion string
  | System_reset
  | Null_pointer
  | Out_of_bounds
  | Bad_read
  | Wrong_argument
  | Division_by_zero

type_synonym ('s, 'a) comp = "'s \<Rightarrow> (fault + 'a \<times> 's) option"

definition ret :: "'a \<Rightarrow> ('s, 'a) comp" where
  "ret a s = Some (Inr (a, s))"

definition fail :: "fault \<Rightarrow> ('s, 'a) comp" where
  "fail e s = Some (Inl e)"

definition bind :: "('s, 'a) comp \<Rightarrow> ('a \<Rightarrow> ('s, 'b) comp) \<Rightarrow> ('s, 'b) comp" where
  "bind m f s =
     (case m s of
        None \<Rightarrow> None
      | Some (Inl e) \<Rightarrow> Some (Inl e)
      | Some (Inr (a, s')) \<Rightarrow> f a s')"

text \<open>\<open>block\<close> runs statements one after the other and returns nothing.\<close>

fun block :: "('s, unit) comp list \<Rightarrow> ('s, unit) comp" where
  "block [] = ret ()"
| "block (m # ms) = bind m (\<lambda>_. block ms)"

definition seq :: "('s, unit) comp list \<Rightarrow> ('s, 'a) comp \<Rightarrow> ('s, 'a) comp" where
  "seq ms k = bind (block ms) (\<lambda>_. k)"

definition gets :: "('s \<Rightarrow> 'a) \<Rightarrow> ('s, 'a) comp" where
  "gets f s = Some (Inr (f s, s))"

definition modify :: "('s \<Rightarrow> 's) \<Rightarrow> ('s, unit) comp" where
  "modify f s = Some (Inr ((), f s))"

definition guarded :: "bool \<Rightarrow> ('s, unit) comp \<Rightarrow> ('s, unit) comp" where
  "guarded b m = (if b then m else ret ())"

text \<open>\<open>OS_ASSERT(expression)\<close>, with the text of the expression as the fault's label.\<close>

definition os_assert :: "string \<Rightarrow> bool \<Rightarrow> ('s, unit) comp" where
  "os_assert e b = (if b then ret () else fail (Assertion e))"

text \<open>Following a pointer that may be \<open>NULL\<close>.\<close>

definition deref :: "'p option \<Rightarrow> ('s, 'p) comp" where
  "deref p = (case p of None \<Rightarrow> fail Null_pointer | Some a \<Rightarrow> ret a)"

text \<open>A call whose result is not used.\<close>

definition ignore :: "('s, 'a) comp \<Rightarrow> ('s, unit) comp" where
  "ignore m = bind m (\<lambda>_. ret ())"

text \<open>A loop that reads the state without changing it.\<close>

definition reader :: "('s \<Rightarrow> 'a option) \<Rightarrow> ('s, 'a) comp" where
  "reader f s = (case f s of None \<Rightarrow> None | Some a \<Rightarrow> Some (Inr (a, s)))"

lemma ret_apply [exec]: "ret a s = Some (Inr (a, s))"
  by (simp add: ret_def)

lemma fail_apply [exec]: "fail e s = Some (Inl e)"
  by (simp add: fail_def)

lemma gets_apply [exec]: "gets f s = Some (Inr (f s, s))"
  by (simp add: gets_def)

lemma modify_apply [exec]: "modify f s = Some (Inr ((), f s))"
  by (simp add: modify_def)

lemma guarded_apply [exec]: "guarded b m s = (if b then m s else Some (Inr ((), s)))"
  by (simp add: guarded_def ret_def)

lemma os_assert_apply [exec]:
  "os_assert e b s = (if b then Some (Inr ((), s)) else Some (Inl (Assertion e)))"
  by (simp add: os_assert_def ret_def fail_def)

lemma deref_apply [exec]:
  "deref (Some a) s = Some (Inr (a, s))"
  "deref None s = Some (Inl Null_pointer)"
  by (simp_all add: deref_def ret_def fail_def)

lemma seq_apply [exec]: "seq ms k s = bind (block ms) (\<lambda>_. k) s"
  by (simp add: seq_def)

lemma ignore_apply [exec]: "ignore m s = bind m (\<lambda>_. ret ()) s"
  by (simp add: ignore_def)

lemma block_single: "block [m] s = m s"
  by (simp add: bind_def ret_def split: option.split sum.split prod.split)

lemma block_apply [exec]:
  "block [] s = Some (Inr ((), s))"
  "block [m] s = m s"
  "block (m # m' # ms) s = bind m (\<lambda>_. block (m' # ms)) s"
  by (simp add: ret_def) (rule block_single, simp)

lemmas bind_apply [exec] = bind_def

lemma reader_apply [exec]:
  "reader f s = (case f s of None \<Rightarrow> None | Some a \<Rightarrow> Some (Inr (a, s)))"
  by (simp add: reader_def)

lemma if_comp_apply [exec]: "(if b then m else k) s = (if b then m s else k s)"
  by simp

declare block.simps [simp del]

lemma bind_ret: "bind (ret a) f = f a"
  by (simp add: bind_def ret_def fun_eq_iff)

lemma bind_ret_right: "bind m ret = m"
  by (simp add: bind_def ret_def fun_eq_iff split: option.split sum.split)

lemma bind_assoc: "bind (bind m f) g = bind m (\<lambda>a. bind (f a) g)"
  by (simp add: bind_def fun_eq_iff split: option.split sum.split prod.split)

lemma bind_if: "bind (if b then m else k) f = (if b then bind m f else bind k f)"
  by simp

lemmas bind_laws = bind_ret bind_ret_right bind_assoc

text \<open>
  The loops are defined with \<open>partial_function (option)\<close>; this rule lets a recursive call
  stand after other statements.
\<close>

lemma bind_option_mono [partial_function_mono]:
  fixes B :: "('x \<Rightarrow> 'y option) \<Rightarrow> ('s, 'a) comp"
    and C :: "'a \<Rightarrow> ('x \<Rightarrow> 'y option) \<Rightarrow> ('s, 'b) comp"
  assumes "\<And>s. mono_option (\<lambda>f. B f s)"
    and "\<And>y s. mono_option (\<lambda>f. C y f s)"
  shows "mono_option (\<lambda>f. bind (B f) (\<lambda>y. C y f) s)"
proof (rule monotoneI)
  fix f g :: "'x \<Rightarrow> 'y option"
  assume fg: "fun_ord option_ord f g"
  have B: "option_ord (B f s) (B g s)"
    using assms(1) [of s] fg by (auto simp: monotone_def)
  have C: "option_ord (C y f s') (C y g s')" for y s'
    using assms(2) [of y s'] fg by (auto simp: monotone_def)
  show "option_ord (bind (B f) (\<lambda>y. C y f) s) (bind (B g) (\<lambda>y. C y g) s)"
  proof (cases "B f s")
    case None
    then show ?thesis by (simp add: bind_def flat_ord_def)
  next
    case (Some r)
    with B have "B g s = Some r" by (simp add: flat_ord_def)
    with Some C show ?thesis
      by (auto simp: bind_def flat_ord_def split: sum.split prod.split)
  qed
qed

text \<open>The outcomes of a computation, as predicates.\<close>

definition returns :: "('s, 'a) comp \<Rightarrow> 's \<Rightarrow> 'a \<Rightarrow> 's \<Rightarrow> bool" where
  "returns m s a s' \<longleftrightarrow> m s = Some (Inr (a, s'))"

definition faults :: "('s, 'a) comp \<Rightarrow> 's \<Rightarrow> fault \<Rightarrow> bool" where
  "faults m s e \<longleftrightarrow> m s = Some (Inl e)"

definition diverges :: "('s, 'a) comp \<Rightarrow> 's \<Rightarrow> bool" where
  "diverges m s \<longleftrightarrow> m s = None"

definition stops :: "('s, 'a) comp \<Rightarrow> 's \<Rightarrow> bool" where
  "stops m s \<longleftrightarrow> m s \<noteq> None"

lemmas outcome_defs = returns_def faults_def diverges_def stops_def

lemma returns_unique: "returns m s a s' \<Longrightarrow> returns m s b t \<Longrightarrow> a = b \<and> s' = t"
  by (simp add: returns_def)

lemma returns_bind:
  "returns (bind m f) s b t \<longleftrightarrow> (\<exists>a s'. returns m s a s' \<and> returns (f a) s' b t)"
  by (auto simp: returns_def bind_def split: option.splits sum.splits)

section \<open>Pointer chains\<close>

text \<open>
  \<open>chain n p xs\<close>: following the link function \<open>n\<close> from the pointer \<open>p\<close> visits exactly the
  objects \<open>xs\<close> and then meets \<open>NULL\<close>.
\<close>

fun chain :: "('p \<Rightarrow> 'p option) \<Rightarrow> 'p option \<Rightarrow> 'p list \<Rightarrow> bool" where
  "chain n p [] \<longleftrightarrow> p = None"
| "chain n p (x # xs) \<longleftrightarrow> p = Some x \<and> chain n (n x) xs"

fun first :: "'p list \<Rightarrow> 'p option" where
  "first [] = None"
| "first (x # xs) = Some x"

text \<open>The link an object of the list \<open>xs\<close> must hold.\<close>

fun next_in :: "'p list \<Rightarrow> 'p \<Rightarrow> 'p option" where
  "next_in [] p = None"
| "next_in (x # xs) p = (if p = x then first xs else next_in xs p)"

lemma first_eq_None [simp]: "first xs = None \<longleftrightarrow> xs = []" "None = first xs \<longleftrightarrow> xs = []"
  by (cases xs; simp)+

lemma first_Some: "first xs = Some x \<longleftrightarrow> (\<exists>ys. xs = x # ys)"
  by (cases xs) auto

lemma first_append: "first (xs @ ys) = (if xs = [] then first ys else first xs)"
  by (cases xs) auto

lemma chain_first: "chain n p xs \<Longrightarrow> p = first xs"
  by (cases xs) auto

lemma chain_None [simp]: "chain n None xs \<longleftrightarrow> xs = []"
  by (cases xs) auto

lemma chain_unique: "chain n p xs \<Longrightarrow> chain n p ys \<Longrightarrow> xs = ys"
proof (induction xs arbitrary: p ys)
  case (Cons x xs)
  then show ?case by (cases ys) auto
qed auto

lemma chain_cong:
  "(\<And>x. x \<in> set xs \<Longrightarrow> n x = m x) \<Longrightarrow> chain n p xs = chain m p xs"
  by (induction xs arbitrary: p) auto

lemma chain_split: "chain n p (xs @ y # ys) \<Longrightarrow> chain n (Some y) (y # ys)"
  by (induction xs arbitrary: p) auto

lemma chain_distinct: "chain n p xs \<Longrightarrow> distinct xs"
proof (induction xs arbitrary: p)
  case (Cons x xs)
  have "x \<notin> set xs"
  proof
    assume "x \<in> set xs"
    then obtain as bs where xs: "xs = as @ x # bs" by (auto simp: in_set_conv_decomp)
    with Cons.prems have "chain n (Some x) (x # bs)" by (auto dest: chain_split)
    then have "chain n (n x) bs" by simp
    moreover have "chain n (n x) xs" using Cons.prems by simp
    ultimately have "bs = xs" by (rule chain_unique)
    moreover from xs have "length xs = length as + Suc (length bs)" by simp
    ultimately show False by simp
  qed
  moreover have "distinct xs" using Cons by auto
  ultimately show ?case by simp
qed auto

lemma next_in_notin [simp]: "p \<notin> set xs \<Longrightarrow> next_in xs p = None"
  by (induction xs) auto

lemma next_in_append:
  "p \<notin> set xs \<Longrightarrow> next_in (xs @ ys) p = next_in ys p"
  by (induction xs) auto

lemma next_in_append1:
  "p \<in> set xs \<Longrightarrow> distinct xs \<Longrightarrow>
   next_in (xs @ ys) p = (if p = last xs then first ys else next_in xs p)"
  by (induction xs) (auto simp: first_append)

lemma next_in_mid: "distinct (as @ b # bs) \<Longrightarrow> next_in (as @ b # bs) b = first bs"
  by (simp add: next_in_append)

lemma next_in_mem: "next_in xs p = Some q \<Longrightarrow> q \<in> set xs"
  by (induction xs) (auto simp: first_Some split: if_splits)

lemma chain_next_in_cong:
  assumes "distinct xs" and "\<And>x. x \<in> set xs \<Longrightarrow> n x = next_in xs x"
  shows "chain n (first xs) xs"
  using assms
proof (induction xs)
  case (Cons x xs)
  have "chain n (first xs) xs"
  proof (rule Cons.IH)
    show "distinct xs" using Cons.prems by simp
    fix y assume "y \<in> set xs"
    with Cons.prems(1) have "y \<noteq> x" by auto
    with Cons.prems(2)[of y] \<open>y \<in> set xs\<close> show "n y = next_in xs y" by simp
  qed
  moreover have "n x = first xs" using Cons.prems(2)[of x] by simp
  ultimately show ?case by simp
qed simp

lemma chain_next_in: "chain n p xs \<Longrightarrow> x \<in> set xs \<Longrightarrow> n x = next_in xs x"
proof (induction xs arbitrary: p)
  case (Cons y ys)
  have "distinct (y # ys)" using Cons.prems(1) by (rule chain_distinct)
  with Cons show ?case by (auto dest: chain_first)
qed simp

lemma chain_iff:
  "chain n p xs \<longleftrightarrow> p = first xs \<and> distinct xs \<and> (\<forall>x\<in>set xs. n x = next_in xs x)"
  by (auto intro: chain_next_in_cong dest: chain_next_in chain_first chain_distinct)

text \<open>Insertion before the first element that the new one precedes.\<close>

fun insert_before :: "('p \<Rightarrow> 'p \<Rightarrow> bool) \<Rightarrow> 'p \<Rightarrow> 'p list \<Rightarrow> 'p list" where
  "insert_before lt t [] = [t]"
| "insert_before lt t (x # xs) = (if lt t x then t # x # xs else x # insert_before lt t xs)"

lemma set_insert_before [simp]: "set (insert_before lt t xs) = insert t (set xs)"
  by (induction xs) auto

lemma length_insert_before [simp]: "length (insert_before lt t xs) = Suc (length xs)"
  by (induction xs) auto

lemma distinct_insert_before [simp]:
  "distinct (insert_before lt t xs) \<longleftrightarrow> t \<notin> set xs \<and> distinct xs"
  by (induction xs) auto

lemma insert_before_not_Nil [simp]: "insert_before lt t xs \<noteq> []"
  by (cases xs) auto

lemma insert_before_cong:
  "(\<And>x. x \<in> set xs \<Longrightarrow> lt t x = lt' t x) \<Longrightarrow> insert_before lt t xs = insert_before lt' t xs"
  by (induction xs) auto

lemma insert_before_append:
  "(\<And>x. x \<in> set xs \<Longrightarrow> \<not> lt t x) \<Longrightarrow> insert_before lt t (xs @ ys) = xs @ insert_before lt t ys"
  by (induction xs) auto

text \<open>
  A queue ordered by a strict weak order: the insertion keeps the order and puts a new
  element behind the elements it is equivalent to.
\<close>

locale ordered_queue =
  fixes before :: "'p \<Rightarrow> 'p \<Rightarrow> bool"
  assumes before_irrefl: "\<not> before x x"
    and before_trans: "before x y \<Longrightarrow> before y z \<Longrightarrow> before x z"
    and before_weak: "before x z \<Longrightarrow> before x y \<or> before y z"
begin

lemma sorted_insert_before:
  "sorted_wrt (\<lambda>x y. \<not> before y x) xs \<Longrightarrow>
   sorted_wrt (\<lambda>x y. \<not> before y x) (insert_before before t xs)"
proof (induction xs)
  case (Cons x xs)
  show ?case
  proof (cases "before t x")
    case True
    then have "\<not> before y t" if "y \<in> set (x # xs)" for y
      using that Cons.prems before_irrefl before_trans by (metis set_ConsD sorted_wrt.simps(2))
    with True Cons.prems show ?thesis by auto
  next
    case False
    with Cons show ?thesis by auto
  qed
qed simp

lemma sorted_remove1:
  "sorted_wrt (\<lambda>x y. \<not> before y x) xs \<Longrightarrow> sorted_wrt (\<lambda>x y. \<not> before y x) (remove1 t xs)"
  by (induction xs) (auto dest: in_set_remove1 [THEN iffD1, rotated] notin_set_remove1 elim: set_mp
      [OF set_remove1_subset])

lemma insert_before_split:
  assumes "sorted_wrt (\<lambda>x y. \<not> before y x) xs"
  shows "insert_before before t xs =
    filter (\<lambda>x. \<not> before t x) xs @ t # filter (\<lambda>x. before t x) xs"
  using assms
proof (induction xs)
  case (Cons x xs)
  show ?case
  proof (cases "before t x")
    case True
    have "before t y" if "y \<in> set xs" for y
      using that True Cons.prems before_weak [of t x y] by auto
    with True have "filter (\<lambda>y. \<not> before t y) (x # xs) = []" "filter (before t) (x # xs) = x # xs"
      by (auto simp: filter_empty_conv filter_id_conv)
    with True show ?thesis by simp
  qed (use Cons in auto)
qed simp

end

section \<open>Link fields of objects in a store\<close>

text \<open>
  A list threaded through a field of the objects of a store: \<open>relink st xs h\<close> is the store
  \<open>h\<close> with the link fields of the objects \<open>xs\<close> set so that they form the list \<open>xs\<close>.
\<close>

definition relink ::
  "('p option \<Rightarrow> 'o \<Rightarrow> 'o) \<Rightarrow> 'p list \<Rightarrow> ('p \<Rightarrow> 'o) \<Rightarrow> ('p \<Rightarrow> 'o)" where
  "relink st xs h = (\<lambda>p. if p \<in> set xs then st (next_in xs p) (h p) else h p)"

locale link_field =
  fixes gt :: "'o \<Rightarrow> 'p option"
    and st :: "'p option \<Rightarrow> 'o \<Rightarrow> 'o"
  assumes gt_st: "gt (st v x) = v"
    and st_gt: "st (gt x) x = x"
    and st_st: "st v (st w x) = st v x"
begin

lemma st_same: "gt x = v \<Longrightarrow> st v x = x"
  using st_gt by blast

lemma relink_id: "chain (\<lambda>p. gt (h p)) (first xs) xs \<Longrightarrow> relink st xs h = h"
  by (auto simp: relink_def fun_eq_iff chain_iff intro: st_same)

lemma relink_other [simp]: "p \<notin> set xs \<Longrightarrow> relink st xs h p = h p"
  by (simp add: relink_def)

lemma gt_relink: "gt (relink st xs h p) = (if p \<in> set xs then next_in xs p else gt (h p))"
  by (simp add: relink_def gt_st)

lemma chain_relink: "distinct xs \<Longrightarrow> chain (\<lambda>p. gt (relink st xs h p)) (first xs) xs"
  by (simp add: chain_iff gt_relink)

lemma chain_relink_disjoint:
  "set xs \<inter> set ys = {} \<Longrightarrow>
   chain (\<lambda>p. gt (relink st xs h p)) q ys = chain (\<lambda>p. gt (h p)) q ys"
  by (rule chain_cong) (auto simp: gt_relink)

lemma relink_insert:
  assumes ch: "chain (\<lambda>p. gt (h p)) (first (as @ bs)) (as @ bs)"
    and t: "t \<notin> set (as @ bs)"
  shows "relink st (as @ t # bs) h =
    (let h1 = h(t := st (first bs) (h t))
     in if as = [] then h1 else h1(last as := st (Some t) (h1 (last as))))"
proof
  fix p
  have d: "distinct (as @ bs)" using ch by (rule chain_distinct)
  have nx: "gt (h x) = next_in (as @ bs) x" if "x \<in> set (as @ bs)" for x
    using chain_next_in [OF ch that] .
  consider "p = t" | "p \<in> set as" "p \<noteq> t" | "p \<in> set bs" "p \<notin> set as" "p \<noteq> t"
    | "p \<notin> set (as @ t # bs)" by auto
  then show "relink st (as @ t # bs) h p = (let h1 = h(t := st (first bs) (h t))
     in if as = [] then h1 else h1(last as := st (Some t) (h1 (last as)))) p"
  proof cases
    case 1
    with t show ?thesis
      by (auto simp: relink_def Let_def next_in_append dest: last_in_set)
  next
    case 2
    have ne: "as \<noteq> []" using 2 by auto
    then have "last as \<in> set as" by simp
    with t have la: "last as \<noteq> t" by auto
    have "next_in (as @ t # bs) p = (if p = last as then Some t else gt (h p))"
      using 2 d nx [of p] by (simp add: next_in_append1)
    with 2 ne la show ?thesis by (simp add: relink_def Let_def st_gt)
  next
    case 3
    then have "as = [] \<or> p \<noteq> last as" by auto
    moreover have "next_in (as @ t # bs) p = gt (h p)"
      using 3 nx [of p] by (simp add: next_in_append)
    ultimately show ?thesis using 3 by (auto simp: relink_def Let_def st_same)
  next
    case 4
    then show ?thesis by (auto simp: relink_def Let_def)
  qed
qed

lemma relink_remove:
  assumes ch: "chain (\<lambda>p. gt (h p)) (first (as @ t # bs)) (as @ t # bs)"
  shows "(relink st (as @ bs) h)(t := st None (h t)) =
    (let h1 = (if as = [] then h else h(last as := st (first bs) (h (last as))))
     in h1(t := st None (h1 t)))"
proof
  fix p
  have d: "distinct (as @ t # bs)" using ch by (rule chain_distinct)
  have nx: "gt (h x) = next_in (as @ t # bs) x" if "x \<in> set (as @ t # bs)" for x
    using chain_next_in [OF ch that] .
  consider "p = t" | "p \<in> set as" "p \<noteq> t" | "p \<in> set bs" "p \<notin> set as" "p \<noteq> t"
    | "p \<notin> set (as @ t # bs)" by auto
  then show "((relink st (as @ bs) h)(t := st None (h t))) p =
    (let h1 = (if as = [] then h else h(last as := st (first bs) (h (last as))))
     in h1(t := st None (h1 t))) p"
  proof cases
    case 1
    with d show ?thesis by (auto simp: Let_def dest: last_in_set)
  next
    case 2
    have ne: "as \<noteq> []" using 2 by auto
    have "next_in (as @ bs) p = (if p = last as then first bs else gt (h p))"
      using 2 d nx [of p] by (simp add: next_in_append1)
    with 2 ne show ?thesis by (simp add: relink_def Let_def st_gt)
  next
    case 3
    then have "as = [] \<or> p \<noteq> last as" by auto
    moreover have "next_in (as @ bs) p = gt (h p)"
      using 3 nx [of p] by (simp add: next_in_append)
    ultimately show ?thesis using 3 by (auto simp: relink_def Let_def st_same)
  next
    case 4
    then show ?thesis by (auto simp: relink_def Let_def dest: last_in_set)
  qed
qed

end

end
