(* ===== verification/OshTypes.thy ===== *)
theory OshTypes
  imports Prelude
begin

text \<open>
  The data of \<open>src/src/types.h\<close>: the enumerations, the task control block, the four kinds
  of synchronisation objects, the globals \<open>osg\<close>, and the machine they live in.  A pointer
  to an object of a kind is a number (its address among the objects of that kind) and a
  pointer that may be \<open>NULL\<close> is an \<open>option\<close>; stacks live in a byte-addressed
  memory of 32-bit words, function pointers and messages are 32-bit words.
\<close>

section \<open>Enumerations\<close>

datatype os_start_status = OS_TASK_START_RUNNING | OS_TASK_START_SUSPENDED

datatype os_task_status =
    OS_TASK_STATUS_IDLE
  | OS_TASK_STATUS_ACTIVE
  | OS_TASK_STATUS_WAIT
  | OS_TASK_STATUS_SUSPENDED
  | OS_TASK_STATUS_FINISHED
  | OS_TASK_STATUS_PANIC
  | OS_TASK_STATUS_ABORTED

definition os_task_status_is_running :: "os_task_status \<Rightarrow> bool" where
  "os_task_status_is_running status \<longleftrightarrow>
     status = OS_TASK_STATUS_ACTIVE \<or> status = OS_TASK_STATUS_IDLE"

definition os_task_status_is_alive :: "os_task_status \<Rightarrow> bool" where
  "os_task_status_is_alive status \<longleftrightarrow>
     status = OS_TASK_STATUS_ACTIVE \<or> status = OS_TASK_STATUS_IDLE \<or>
     status = OS_TASK_STATUS_WAIT"

text \<open>The numeric value of a status, which \<open>osi_task_status_set\<close> returns.\<close>

fun os_task_status_num :: "os_task_status \<Rightarrow> u32" where
  "os_task_status_num OS_TASK_STATUS_IDLE = 1"
| "os_task_status_num OS_TASK_STATUS_ACTIVE = 2"
| "os_task_status_num OS_TASK_STATUS_WAIT = 3"
| "os_task_status_num OS_TASK_STATUS_SUSPENDED = 4"
| "os_task_status_num OS_TASK_STATUS_FINISHED = 5"
| "os_task_status_num OS_TASK_STATUS_PANIC = 6"
| "os_task_status_num OS_TASK_STATUS_ABORTED = 7"

datatype os_queue_status_t =
    OS_QUEUE_FINE
  | OS_QUEUE_BLOCKED_SEND
  | OS_QUEUE_BLOCKED_RECEIVE

datatype os_state_t =
    OS_STATE_DEFAULT
  | OS_STATE_INITIALIZED
  | OS_STATE_TASKS_INITIALIZED
  | OS_STATE_STARTED

datatype os_panic_kind_t =
    OS_PANIC_NONE
  | OS_PANIC_ASSERTION
  | OS_PANIC_STACK_OVERFLOW
  | OS_PANIC_APP
  | OS_PANIC_UNKNOWN

text \<open>The numeric values of \<open>os_state_t\<close>, in the order of the start-up sequence.\<close>

fun os_state_num :: "os_state_t \<Rightarrow> nat" where
  "os_state_num OS_STATE_DEFAULT = 1"
| "os_state_num OS_STATE_INITIALIZED = 2"
| "os_state_num OS_STATE_TASKS_INITIALIZED = 3"
| "os_state_num OS_STATE_STARTED = 4"

lemma os_state_num_inject: "os_state_num x = os_state_num y \<longleftrightarrow> x = y"
  by (cases x; cases y) auto

instantiation os_state_t :: linorder
begin

definition less_eq_os_state_t :: "os_state_t \<Rightarrow> os_state_t \<Rightarrow> bool" where
  "x \<le> y \<longleftrightarrow> os_state_num x \<le> os_state_num y"

definition less_os_state_t :: "os_state_t \<Rightarrow> os_state_t \<Rightarrow> bool" where
  "x < y \<longleftrightarrow> os_state_num x < os_state_num y"

instance
  by standard (auto simp: less_eq_os_state_t_def less_os_state_t_def os_state_num_inject)

end

section \<open>Status codes and flags\<close>

type_synonym os_status_t = u32
type_synonym os_priority_t = u32

abbreviation (input) OSS_SUCCESS :: os_status_t where "OSS_SUCCESS \<equiv> 0"
abbreviation (input) OSS_ERROR :: os_status_t where "OSS_ERROR \<equiv> 1"
abbreviation (input) OSS_ERROR_TO :: os_status_t where "OSS_ERROR_TO \<equiv> 2"
abbreviation (input) OSS_ERROR_MEM :: os_status_t where "OSS_ERROR_MEM \<equiv> 3"
abbreviation (input) OSS_ERROR_INT :: os_status_t where "OSS_ERROR_INT \<equiv> 4"
abbreviation (input) OSS_ERROR_INVALID :: os_status_t where "OSS_ERROR_INVALID \<equiv> 5"
abbreviation (input) OSS_ERROR_NOP :: os_status_t where "OSS_ERROR_NOP \<equiv> 6"

abbreviation (input) OS_TASK_FLAG_NONE :: u32 where "OS_TASK_FLAG_NONE \<equiv> 0"
abbreviation (input) OS_TASK_FLAG_MUTEX :: u32 where "OS_TASK_FLAG_MUTEX \<equiv> 1"
abbreviation (input) OS_TASK_FLAG_QUEUE :: u32 where "OS_TASK_FLAG_QUEUE \<equiv> 2"
abbreviation (input) OS_TASK_FLAG_SEMAPHORE :: u32 where "OS_TASK_FLAG_SEMAPHORE \<equiv> 3"
abbreviation (input) OS_TASK_FLAG_RWLOCK :: u32 where "OS_TASK_FLAG_RWLOCK \<equiv> 4"

abbreviation (input) OS_PRIORITY_IDLE :: os_priority_t where "OS_PRIORITY_IDLE \<equiv> 0x00"
abbreviation (input) OS_PRIORITY_NORMAL :: os_priority_t where "OS_PRIORITY_NORMAL \<equiv> 0x10"
abbreviation (input) OS_PRIORITY_HIGHEST :: os_priority_t where "OS_PRIORITY_HIGHEST \<equiv> 0xff"

abbreviation (input) OS_QUEUE_FLAGS_QUEUE_ONLY :: u16 where "OS_QUEUE_FLAGS_QUEUE_ONLY \<equiv> 1"
abbreviation (input) OS_MUTEX_FLAG_ABORT_ON_TIMEOUT :: u32 where
  "OS_MUTEX_FLAG_ABORT_ON_TIMEOUT \<equiv> 1"

abbreviation (input) OS_RWLOCK_DESIRED_NONE :: u32 where "OS_RWLOCK_DESIRED_NONE \<equiv> 0"
abbreviation (input) OS_RWLOCK_DESIRED_READ :: u32 where "OS_RWLOCK_DESIRED_READ \<equiv> 1"
abbreviation (input) OS_RWLOCK_DESIRED_WRITE :: u32 where "OS_RWLOCK_DESIRED_WRITE \<equiv> 2"

abbreviation (input) UINT32_MAX :: u32 where "UINT32_MAX \<equiv> 0xFFFFFFFF"

abbreviation (input) OSH_STACK_MAGIC_WORD :: u32 where "OSH_STACK_MAGIC_WORD \<equiv> 0xE25A2EA5"

text \<open>
  \<open>OS_STACK_MINIMUM_SIZE\<close> in bytes: an extended frame of 32 words and 8 words more.
\<close>

abbreviation (input) OS_STACK_BASIC_FRAME_SIZE :: u32 where "OS_STACK_BASIC_FRAME_SIZE \<equiv> 16"
abbreviation (input) OS_STACK_MINIMUM_SIZE :: u32 where "OS_STACK_MINIMUM_SIZE \<equiv> 160"

section \<open>Objects\<close>

type_synonym task_ptr = nat
type_synonym queue_ptr = nat
type_synonym mutex_ptr = nat
type_synonym semaphore_ptr = nat
type_synonym rwlock_ptr = nat

text \<open>
  The union \<open>c\<close> of the task holds either a message pointer or the desired rwlock mode in
  the same 32 bits.
\<close>

record os_task_t =
  t_sp :: u32
  t_stack :: u32
  t_stack_size :: u32
  t_stack_kind :: u8
  t_status :: os_task_status
  t_name :: string
  t_handler :: u32
  t_params :: u32
  t_np :: "task_ptr option"
  t_nrp :: "task_ptr option"
  t_nblocked :: "task_ptr option"
  t_queue :: "queue_ptr option"
  t_mutex :: "mutex_ptr option"
  t_semaphore :: "semaphore_ptr option"
  t_rwlock :: "rwlock_ptr option"
  t_priority :: os_priority_t
  t_c :: u32
  t_started :: u32
  t_slice :: u32
  t_runtime :: u32
  t_scheduled :: u32
  t_delay :: u32
  t_flags :: u32
  t_signal :: u32
  t_highwater :: u32
  t_user_data :: u32

record os_task_options_t =
  o_name :: string
  o_status :: os_start_status
  o_handler :: u32
  o_params :: u32
  o_stack :: u32
  o_stack_size :: u32
  o_priority :: os_priority_t

record os_blocked_t =
  b_type :: u32
  b_tasks :: "task_ptr option"

record os_queue_definition_t =
  qd_name :: string
  qd_size :: u16
  qd_flags :: u16

text \<open>
  The messages of a queue follow its header in the storage \<open>os_queue_define\<close> reserves; the
  list is that storage.
\<close>

record os_queue_t =
  q_def :: os_queue_definition_t
  q_blocked :: os_blocked_t
  q_size :: u16
  q_number :: u16
  q_first :: u16
  q_last :: u16
  q_status :: os_queue_status_t
  q_messages :: "u32 list"

record os_mutex_definition_t =
  md_name :: string
  md_flags :: u32

record os_mutex_t =
  m_def :: os_mutex_definition_t
  m_blocked :: os_blocked_t
  m_owner :: "task_ptr option"
  m_level :: u16
  m_flags :: u32

record os_semaphore_definition_t =
  sd_name :: string
  sd_tokens :: u32
  sd_flags :: u32

record os_semaphore_t =
  s_def :: os_semaphore_definition_t
  s_blocked :: os_blocked_t
  s_tokens :: u32
  s_flags :: u32

record os_rwlock_definition_t =
  rd_name :: string
  rd_flags :: u32

record os_rwlock_t =
  r_def :: os_rwlock_definition_t
  r_blocked :: os_blocked_t
  r_readers :: u16
  r_writers :: u16
  r_flags :: u32
  r_writer :: "task_ptr option"

text \<open>\<open>os_tuple_t\<close>: a status and a 32-bit value (the union of \<open>u32\<close> and \<open>ptr\<close>).\<close>

record os_tuple_t =
  tu_status :: os_status_t
  tu_value :: u32

section \<open>The kernel's state\<close>

record os_globals_t =
  running :: "task_ptr option"
  scheduled :: "task_ptr option"
  os_state :: os_state_t
  ntasks :: u8
  idle :: "task_ptr option"
  tasks :: "task_ptr option"
  runqueue :: "task_ptr option"
  waitqueue :: "task_ptr option"
  status_hook :: u32
  logging_hook :: u32

text \<open>
  What the code makes visible outside its own state: the messages it prints, the status hook
  it calls, the delays it asks of the platform and the task handler it enters.  Hooks are the
  application's code: the kernel relies on them leaving its state alone, so the model records
  the call.
\<close>

datatype event =
    Warn_runqueue_add
  | Warn_schedule_idle
  | Warn_schedule_unnecessary
  | Scheduler_panic task_ptr task_ptr
  | Scheduler_error_status task_ptr
  | Scheduler_error_priority task_ptr
  | Status_hook task_ptr os_task_status
  | Task_panicked task_ptr
  | Panic_kind os_panic_kind_t
  | Panic_running task_ptr
  | Panic_waiting task_ptr
  | Printed string
  | Assertion_printed string string u32
  | Platform_delay u32
  | Platform_usleep u32
  | Handler_entered u32 u32

text \<open>The three builds the sources distinguish with \<open>__SAMD21__\<close> and \<open>__SAMD51__\<close>.\<close>

datatype target = SAMD21 | SAMD51 | HOSTED

fun is_device :: "target \<Rightarrow> bool" where
  "is_device HOSTED = False"
| "is_device SAMD21 = True"
| "is_device SAMD51 = True"

text \<open>
  The globals extended with the objects the pointers lead to, the stack memory, the values
  the platform reports (\<open>osi_platform_uptime\<close>, \<open>osi_platform_micros\<close>, the CPU's \<open>IPSR\<close> and
  \<open>CONTROL\<close> registers), the pending bit of the PendSV interrupt, the build target, the
  address of \<open>task_finished\<close>, and the trace of visible effects.
\<close>

record kernel = os_globals_t +
  task :: "task_ptr \<Rightarrow> os_task_t"
  queue_at :: "queue_ptr \<Rightarrow> os_queue_t"
  mutex_at :: "mutex_ptr \<Rightarrow> os_mutex_t"
  semaphore_at :: "semaphore_ptr \<Rightarrow> os_semaphore_t"
  rwlock_at :: "rwlock_ptr \<Rightarrow> os_rwlock_t"
  mem :: "u32 \<Rightarrow> u32"
  uptime :: u32
  micros :: u32
  ipsr :: u32
  control :: u32
  pendsv :: bool
  target :: target
  task_finished_addr :: u32
  trace :: "event list"

type_synonym 'a os = "(kernel, 'a) comp"

section \<open>Elementary statements\<close>

definition emit :: "event \<Rightarrow> unit os" where
  "emit e = modify (\<lambda>s. s\<lparr>trace := trace s @ [e]\<rparr>)"

text \<open>An assignment to fields of one object.\<close>

definition upd_task :: "task_ptr \<Rightarrow> (os_task_t \<Rightarrow> os_task_t) \<Rightarrow> unit os" where
  "upd_task t f = modify (\<lambda>s. s\<lparr>task := (task s)(t := f (task s t))\<rparr>)"

definition upd_queue :: "queue_ptr \<Rightarrow> (os_queue_t \<Rightarrow> os_queue_t) \<Rightarrow> unit os" where
  "upd_queue q f = modify (\<lambda>s. s\<lparr>queue_at := (queue_at s)(q := f (queue_at s q))\<rparr>)"

definition upd_mutex :: "mutex_ptr \<Rightarrow> (os_mutex_t \<Rightarrow> os_mutex_t) \<Rightarrow> unit os" where
  "upd_mutex m f = modify (\<lambda>s. s\<lparr>mutex_at := (mutex_at s)(m := f (mutex_at s m))\<rparr>)"

definition upd_semaphore :: "semaphore_ptr \<Rightarrow> (os_semaphore_t \<Rightarrow> os_semaphore_t) \<Rightarrow> unit os"
  where
  "upd_semaphore p f =
     modify (\<lambda>s. s\<lparr>semaphore_at := (semaphore_at s)(p := f (semaphore_at s p))\<rparr>)"

definition upd_rwlock :: "rwlock_ptr \<Rightarrow> (os_rwlock_t \<Rightarrow> os_rwlock_t) \<Rightarrow> unit os" where
  "upd_rwlock p f = modify (\<lambda>s. s\<lparr>rwlock_at := (rwlock_at s)(p := f (rwlock_at s p))\<rparr>)"

lemma statement_apply [exec]:
  "emit e s = Some (Inr ((), s\<lparr>trace := trace s @ [e]\<rparr>))"
  "upd_task t f s = Some (Inr ((), s\<lparr>task := (task s)(t := f (task s t))\<rparr>))"
  "upd_queue q g s = Some (Inr ((), s\<lparr>queue_at := (queue_at s)(q := g (queue_at s q))\<rparr>))"
  "upd_mutex m h s = Some (Inr ((), s\<lparr>mutex_at := (mutex_at s)(m := h (mutex_at s m))\<rparr>))"
  "upd_semaphore p i s =
     Some (Inr ((), s\<lparr>semaphore_at := (semaphore_at s)(p := i (semaphore_at s p))\<rparr>))"
  "upd_rwlock r j s =
     Some (Inr ((), s\<lparr>rwlock_at := (rwlock_at s)(r := j (rwlock_at s r))\<rparr>))"
  by (simp_all add: emit_def upd_task_def upd_queue_def upd_mutex_def upd_semaphore_def
      upd_rwlock_def modify_def)

text \<open>The fields the lists and the scheduler read, by task.\<close>

abbreviation status_of :: "kernel \<Rightarrow> task_ptr \<Rightarrow> os_task_status" where
  "status_of s t \<equiv> t_status (task s t)"

abbreviation prio_of :: "kernel \<Rightarrow> task_ptr \<Rightarrow> os_priority_t" where
  "prio_of s t \<equiv> t_priority (task s t)"

abbreviation nrp_of :: "kernel \<Rightarrow> task_ptr \<Rightarrow> task_ptr option" where
  "nrp_of s t \<equiv> t_nrp (task s t)"

abbreviation nblocked_of :: "kernel \<Rightarrow> task_ptr \<Rightarrow> task_ptr option" where
  "nblocked_of s t \<equiv> t_nblocked (task s t)"

lemma status_is_running_simps [simp]:
  "os_task_status_is_running OS_TASK_STATUS_IDLE"
  "os_task_status_is_running OS_TASK_STATUS_ACTIVE"
  "\<not> os_task_status_is_running OS_TASK_STATUS_WAIT"
  "\<not> os_task_status_is_running OS_TASK_STATUS_SUSPENDED"
  "\<not> os_task_status_is_running OS_TASK_STATUS_FINISHED"
  "\<not> os_task_status_is_running OS_TASK_STATUS_PANIC"
  "\<not> os_task_status_is_running OS_TASK_STATUS_ABORTED"
  by (simp_all add: os_task_status_is_running_def)

section \<open>Example objects\<close>

text \<open>A task and a kernel with nothing in them, from which concrete states are built.\<close>

definition blank_task :: os_task_t where
  "blank_task =
     \<lparr>t_sp = 0, t_stack = 0, t_stack_size = 0, t_stack_kind = 0,
      t_status = OS_TASK_STATUS_SUSPENDED, t_name = '''', t_handler = 0, t_params = 0,
      t_np = None, t_nrp = None, t_nblocked = None, t_queue = None, t_mutex = None,
      t_semaphore = None, t_rwlock = None, t_priority = OS_PRIORITY_NORMAL, t_c = 0,
      t_started = 0, t_slice = 0, t_runtime = 0, t_scheduled = 0, t_delay = 0, t_flags = 0,
      t_signal = 0, t_highwater = 0, t_user_data = 0\<rparr>"

definition blank_blocked :: os_blocked_t where
  "blank_blocked = \<lparr>b_type = 0, b_tasks = None\<rparr>"

definition blank_queue :: os_queue_t where
  "blank_queue =
     \<lparr>q_def = \<lparr>qd_name = '''', qd_size = 0, qd_flags = 0\<rparr>, q_blocked = blank_blocked, q_size = 0,
      q_number = 0, q_first = 0, q_last = 0, q_status = OS_QUEUE_FINE, q_messages = []\<rparr>"

definition blank_mutex :: os_mutex_t where
  "blank_mutex = \<lparr>m_def = \<lparr>md_name = '''', md_flags = 0\<rparr>, m_blocked = blank_blocked,
     m_owner = None, m_level = 0, m_flags = 0\<rparr>"

definition blank_semaphore :: os_semaphore_t where
  "blank_semaphore = \<lparr>s_def = \<lparr>sd_name = '''', sd_tokens = 0, sd_flags = 0\<rparr>,
     s_blocked = blank_blocked, s_tokens = 0, s_flags = 0\<rparr>"

definition blank_rwlock :: os_rwlock_t where
  "blank_rwlock = \<lparr>r_def = \<lparr>rd_name = '''', rd_flags = 0\<rparr>, r_blocked = blank_blocked,
     r_readers = 0, r_writers = 0, r_flags = 0, r_writer = None\<rparr>"

definition blank_kernel :: kernel where
  "blank_kernel =
     \<lparr>running = None, scheduled = None, os_state = OS_STATE_DEFAULT, ntasks = 0, idle = None,
      tasks = None, runqueue = None, waitqueue = None, status_hook = 0, logging_hook = 0,
      task = (\<lambda>_. blank_task), queue_at = (\<lambda>_. blank_queue), mutex_at = (\<lambda>_. blank_mutex),
      semaphore_at = (\<lambda>_. blank_semaphore), rwlock_at = (\<lambda>_. blank_rwlock),
      mem = (\<lambda>_. 0), uptime = 0, micros = 0, ipsr = 0, control = 0, pendsv = False,
      target = SAMD51, task_finished_addr = 0, trace = []\<rparr>"

lemmas blank_defs = blank_task_def blank_blocked_def blank_queue_def blank_mutex_def
  blank_semaphore_def blank_rwlock_def blank_kernel_def

text \<open>A task of a given status and priority, linked to the next one in its queue.\<close>

definition example_task :: "os_task_status \<Rightarrow> os_priority_t \<Rightarrow> task_ptr option \<Rightarrow> os_task_t" where
  "example_task st p n = blank_task\<lparr>t_status := st, t_priority := p, t_nrp := n\<rparr>"

lemma example_task_simps [simp]:
  "t_status (example_task st p n) = st" "t_priority (example_task st p n) = p"
  "t_nrp (example_task st p n) = n" "t_nblocked (example_task st p n) = None"
  "t_flags (example_task st p n) = 0" "t_mutex (example_task st p n) = None"
  "t_queue (example_task st p n) = None" "t_semaphore (example_task st p n) = None"
  "t_rwlock (example_task st p n) = None" "t_delay (example_task st p n) = 0"
  "t_stack (example_task st p n) = 0" "t_sp (example_task st p n) = 0"
  by (simp_all add: example_task_def blank_task_def)

lemma blank_task_simps [simp]:
  "t_nrp blank_task = None" "t_nblocked blank_task = None" "t_flags blank_task = 0"
  "t_status blank_task = OS_TASK_STATUS_SUSPENDED" "t_mutex blank_task = None"
  "t_queue blank_task = None" "t_semaphore blank_task = None" "t_rwlock blank_task = None"
  "t_delay blank_task = 0" "t_priority blank_task = 0x10" "t_signal blank_task = 0"
  by (simp_all add: blank_task_def)

end
