(* ===== verification/RunQueue.thy ===== *)
theory RunQueue
  imports OshTypes
begin

text \<open>
  The run queue and the wait queue of \<open>src/src/os.c\<close>: two lists of tasks threaded through
  the field \<open>nrp\<close>, the first ordered by priority, the second by wake-up time.  The loops
  are the C loops, following the pointers; the lemmas show that on a well-formed list they
  are insertion into, and removal from, an abstract list.
\<close>

section \<open>The operations\<close>

text \<open>\<open>os_task_t **head\<close>: which of the two heads an operation works on.\<close>

datatype queue_head = Runqueue | Waitqueue

fun get_head :: "queue_head \<Rightarrow> kernel \<Rightarrow> task_ptr option" where
  "get_head Runqueue s = runqueue s"
| "get_head Waitqueue s = waitqueue s"

fun put_head :: "queue_head \<Rightarrow> task_ptr option \<Rightarrow> kernel \<Rightarrow> kernel" where
  "put_head Runqueue p s = s\<lparr>runqueue := p\<rparr>"
| "put_head Waitqueue p s = s\<lparr>waitqueue := p\<rparr>"

definition task_is_running :: "kernel \<Rightarrow> task_ptr \<Rightarrow> bool" where
  "task_is_running s t = os_task_status_is_running (status_of s t)"

definition is_higher_priority :: "os_priority_t \<Rightarrow> os_priority_t \<Rightarrow> bool" where
  "is_higher_priority a b \<longleftrightarrow> a > b"

definition is_equal_priority :: "os_priority_t \<Rightarrow> os_priority_t \<Rightarrow> bool" where
  "is_equal_priority a b \<longleftrightarrow> a = b"

text \<open>
  \<open>osi_priority_check\<close>: its two loops over the run queue.  The priorities it remembers are
  \<open>uint8_t\<close>, so they are truncated to 8 bits and compared after promotion.
  \<open>osi_debug_dump\<close> is empty in the default hooks.
\<close>

partial_function (option) priority_check_scheduled ::
  "task_ptr \<Rightarrow> u8 \<Rightarrow> task_ptr option \<Rightarrow> kernel \<Rightarrow> (fault + unit \<times> kernel) option" where
  "priority_check_scheduled sched sp iter s =
     (case iter of
        None \<Rightarrow> ret () s
      | Some i \<Rightarrow>
          bind (guarded (status_of s i = OS_TASK_STATUS_ACTIVE \<or>
                         status_of s i = OS_TASK_STATUS_IDLE)
                 (guarded (ucast sp < prio_of s i) (emit (Scheduler_panic sched i))))
            (\<lambda>_. priority_check_scheduled sched sp (nrp_of s i)) s)"

partial_function (option) priority_check_order ::
  "u8 \<Rightarrow> task_ptr option \<Rightarrow> kernel \<Rightarrow> (fault + unit \<times> kernel) option" where
  "priority_check_order priority iter s =
     (case iter of
        None \<Rightarrow> ret () s
      | Some i \<Rightarrow>
          bind (guarded (\<not> (status_of s i = OS_TASK_STATUS_ACTIVE \<or>
                            status_of s i = OS_TASK_STATUS_IDLE))
                 (emit (Scheduler_error_status i)))
            (\<lambda>_. bind (guarded (\<not> (ucast priority \<ge> prio_of s i))
                        (emit (Scheduler_error_priority i)))
            (\<lambda>_. priority_check_order (ucast (prio_of s i)) (nrp_of s i))) s)"

definition osi_priority_check :: "task_ptr option \<Rightarrow> unit os" where
  "osi_priority_check sched s =
     block
       [(case sched of
           None \<Rightarrow> ret ()
         | Some t \<Rightarrow> (\<lambda>s. priority_check_scheduled t (ucast (prio_of s t)) (runqueue s) s)),
        (\<lambda>s. priority_check_order 0xff (runqueue s) s)] s"

partial_function (option) runqueue_length_loop ::
  "task_ptr option \<Rightarrow> u32 \<Rightarrow> kernel \<Rightarrow> u32 option" where
  "runqueue_length_loop head l s =
     (case head of
        None \<Rightarrow> Some l
      | Some h \<Rightarrow> runqueue_length_loop (nrp_of s h) (l + 1) s)"

definition runqueue_length :: "task_ptr option \<Rightarrow> u32 os" where
  "runqueue_length head = reader (runqueue_length_loop head 0)"

partial_function (option) runqueue_add_loop ::
  "queue_head \<Rightarrow> task_ptr \<Rightarrow> task_ptr option \<Rightarrow> task_ptr option \<Rightarrow> kernel \<Rightarrow>
     (fault + unit \<times> kernel) option" where
  "runqueue_add_loop head t previous iter s =
     (case iter of
        None \<Rightarrow> os_assert ''0'' False s
      | Some i \<Rightarrow>
          if i = t then emit Warn_runqueue_add s
          else if prio_of s t > prio_of s i then
            block
              [upd_task t (\<lambda>x. x\<lparr>t_nrp := Some i\<rparr>),
               (case previous of
                  None \<Rightarrow> modify (put_head head (Some t))
                | Some p \<Rightarrow> upd_task p (\<lambda>x. x\<lparr>t_nrp := Some t\<rparr>)),
               osi_priority_check None] s
          else if nrp_of s i = None then
            block
              [upd_task i (\<lambda>x. x\<lparr>t_nrp := Some t\<rparr>),
               osi_priority_check None] s
          else runqueue_add_loop head t (Some i) (nrp_of s i) s)"

definition runqueue_add :: "queue_head \<Rightarrow> task_ptr \<Rightarrow> unit os" where
  "runqueue_add head t =
     block
       [upd_task t (\<lambda>x. x\<lparr>t_nrp := None\<rparr>),
        (\<lambda>s. if get_head head s = None then modify (put_head head (Some t)) s
             else
               block
                 [os_assert ''task->status != OS_TASK_STATUS_WAIT && task->status != OS_TASK_STATUS_FINISHED''
                    (status_of s t \<noteq> OS_TASK_STATUS_WAIT \<and>
                     status_of s t \<noteq> OS_TASK_STATUS_FINISHED),
                  runqueue_add_loop head t None (get_head head s)] s)]"

partial_function (option) runqueue_remove_loop ::
  "queue_head \<Rightarrow> task_ptr \<Rightarrow> task_ptr option \<Rightarrow> task_ptr option \<Rightarrow> kernel \<Rightarrow>
     (fault + unit \<times> kernel) option" where
  "runqueue_remove_loop head t previous iter s =
     (case iter of
        None \<Rightarrow> ret () s
      | Some i \<Rightarrow>
          if i = t then
            block
              [(if get_head head s = Some i then modify (put_head head (nrp_of s i))
                else bind (deref previous)
                       (\<lambda>p. upd_task p (\<lambda>x. x\<lparr>t_nrp := nrp_of s i\<rparr>))),
               upd_task i (\<lambda>x. x\<lparr>t_nrp := None\<rparr>)] s
          else runqueue_remove_loop head t (Some i) (nrp_of s i) s)"

definition runqueue_remove :: "queue_head \<Rightarrow> task_ptr \<Rightarrow> unit os" where
  "runqueue_remove head t s = runqueue_remove_loop head t None (get_head head s) s"

partial_function (option) runqueue_has_higher_priority_loop ::
  "task_ptr \<Rightarrow> task_ptr option \<Rightarrow> kernel \<Rightarrow> bool option" where
  "runqueue_has_higher_priority_loop t iter s =
     (case iter of
        None \<Rightarrow> Some False
      | Some i \<Rightarrow>
          if (status_of s i = OS_TASK_STATUS_ACTIVE \<or> status_of s i = OS_TASK_STATUS_IDLE) \<and>
             prio_of s i > prio_of s t
          then Some True
          else runqueue_has_higher_priority_loop t (nrp_of s i) s)"

definition runqueue_has_higher_priority :: "task_ptr \<Rightarrow> bool os" where
  "runqueue_has_higher_priority t =
     reader (\<lambda>s. runqueue_has_higher_priority_loop t (runqueue s) s)"

text \<open>Floyd's cycle detection; \<open>sl\<close> and \<open>f\<close> are the slow and the fast pointer.\<close>

partial_function (option) has_cycles_loop ::
  "task_ptr \<Rightarrow> task_ptr \<Rightarrow> kernel \<Rightarrow> bool option" where
  "has_cycles_loop sl f s =
     (case nrp_of s f of
        None \<Rightarrow> Some False
      | Some f1 \<Rightarrow>
          (case (nrp_of s sl, nrp_of s f1) of
             (Some sl', Some f') \<Rightarrow>
               if sl' = f' then Some True else has_cycles_loop sl' f' s
           | _ \<Rightarrow> Some False))"

definition has_cycles :: "task_ptr option \<Rightarrow> bool os" where
  "has_cycles head =
     (case head of
        None \<Rightarrow> ret False
      | Some h \<Rightarrow> reader (has_cycles_loop h h))"

partial_function (option) waitqueue_add_loop ::
  "queue_head \<Rightarrow> task_ptr \<Rightarrow> task_ptr option \<Rightarrow> task_ptr option \<Rightarrow> kernel \<Rightarrow>
     (fault + unit \<times> kernel) option" where
  "waitqueue_add_loop head t previous iter s =
     (case iter of
        None \<Rightarrow> os_assert ''0'' False s
      | Some i \<Rightarrow>
          bind (os_assert ''iter != task'' (i \<noteq> t))
            (\<lambda>_ s.
               if t_delay (task s t) < t_delay (task s i) then
                 block
                   [upd_task t (\<lambda>x. x\<lparr>t_nrp := Some i\<rparr>),
                    (case previous of
                       None \<Rightarrow> modify (put_head head (Some t))
                     | Some p \<Rightarrow> upd_task p (\<lambda>x. x\<lparr>t_nrp := Some t\<rparr>))] s
               else if nrp_of s i = None then
                 block
                   [upd_task i (\<lambda>x. x\<lparr>t_nrp := Some t\<rparr>),
                    (\<lambda>s. bind (has_cycles (get_head head s))
                           (\<lambda>c. os_assert ''!has_cycles(*head)'' (\<not> c)) s)] s
               else waitqueue_add_loop head t (Some i) (nrp_of s i) s) s)"

definition waitqueue_add :: "queue_head \<Rightarrow> task_ptr \<Rightarrow> unit os" where
  "waitqueue_add head t =
     block
       [upd_task t (\<lambda>x. x\<lparr>t_nrp := None\<rparr>),
        (\<lambda>s. if get_head head s = None then modify (put_head head (Some t)) s
             else waitqueue_add_loop head t None (get_head head s) s)]"

partial_function (option) waitqueue_remove_loop ::
  "queue_head \<Rightarrow> task_ptr \<Rightarrow> task_ptr option \<Rightarrow> task_ptr option \<Rightarrow> kernel \<Rightarrow>
     (fault + unit \<times> kernel) option" where
  "waitqueue_remove_loop head t previous iter s =
     (case iter of
        None \<Rightarrow> ret () s
      | Some i \<Rightarrow>
          if i = t then
            block
              [(if get_head head s = Some i then modify (put_head head (nrp_of s i))
                else bind (deref previous)
                       (\<lambda>p. upd_task p (\<lambda>x. x\<lparr>t_nrp := nrp_of s i\<rparr>))),
               upd_task i (\<lambda>x. x\<lparr>t_nrp := None\<rparr>)] s
          else waitqueue_remove_loop head t (Some i) (nrp_of s i) s)"

definition waitqueue_remove :: "queue_head \<Rightarrow> task_ptr \<Rightarrow> unit os" where
  "waitqueue_remove head t s = waitqueue_remove_loop head t None (get_head head s) s"


section \<open>Abstract lists\<close>

abbreviation set_nrp :: "task_ptr option \<Rightarrow> os_task_t \<Rightarrow> os_task_t" where
  "set_nrp v x \<equiv> x\<lparr>t_nrp := v\<rparr>"

interpretation nrp: link_field t_nrp set_nrp
  by unfold_locales simp_all

text \<open>The head leads to exactly the tasks \<open>xs\<close>, and the state in which it does.\<close>

definition is_list :: "queue_head \<Rightarrow> kernel \<Rightarrow> task_ptr list \<Rightarrow> bool" where
  "is_list head s xs \<longleftrightarrow> chain (nrp_of s) (get_head head s) xs"

definition put_list :: "queue_head \<Rightarrow> task_ptr list \<Rightarrow> kernel \<Rightarrow> kernel" where
  "put_list head xs s = put_head head (first xs) (s\<lparr>task := relink set_nrp xs (task s)\<rparr>)"

definition higher :: "kernel \<Rightarrow> task_ptr \<Rightarrow> task_ptr \<Rightarrow> bool" where
  "higher s t x \<longleftrightarrow> prio_of s t > prio_of s x"

definition earlier :: "kernel \<Rightarrow> task_ptr \<Rightarrow> task_ptr \<Rightarrow> bool" where
  "earlier s t x \<longleftrightarrow> t_delay (task s t) < t_delay (task s x)"

interpretation prio: ordered_queue "higher s" for s
  by unfold_locales (auto simp: higher_def)

interpretation wake: ordered_queue "earlier s" for s
  by unfold_locales (auto simp: earlier_def)

lemma get_put_head [simp]:
  "get_head head (put_head head p s) = p"
  "get_head Waitqueue (put_head Runqueue p s) = waitqueue s"
  "get_head Runqueue (put_head Waitqueue p s) = runqueue s"
  "task (put_head head p s) = task s"
  by (cases head; simp)+

lemma put_head_same: "get_head head s = p \<Longrightarrow> put_head head p s = s"
  by (cases head) auto

lemma put_head_cong:
  "s' = s\<lparr>task := h\<rparr> \<Longrightarrow> put_head head p s' = put_head head p (s\<lparr>task := h\<rparr>)"
  by simp

lemma put_list_task [simp]: "task (put_list head xs s) = relink set_nrp xs (task s)"
  by (cases head) (simp_all add: put_list_def)

lemma get_head_put_list [simp]:
  "get_head head (put_list head xs s) = first xs"
  by (simp add: put_list_def)

lemma is_list_put_list: "distinct xs \<Longrightarrow> is_list head (put_list head xs s) xs"
  by (simp add: is_list_def nrp.chain_relink)

lemma put_list_id: "is_list head s xs \<Longrightarrow> put_list head xs s = s"
  using chain_first [of "nrp_of s" "get_head head s" xs]
  by (cases head) (auto simp: is_list_def put_list_def nrp.relink_id)

lemma is_list_distinct: "is_list head s xs \<Longrightarrow> distinct xs"
  unfolding is_list_def by (rule chain_distinct)

lemma is_list_first: "is_list head s xs \<Longrightarrow> get_head head s = first xs"
  unfolding is_list_def by (rule chain_first)

lemma is_list_unique: "is_list head s xs \<Longrightarrow> is_list head s ys \<Longrightarrow> xs = ys"
  unfolding is_list_def by (rule chain_unique)

lemma is_list_nrp: "is_list head s xs \<Longrightarrow> x \<in> set xs \<Longrightarrow> nrp_of s x = next_in xs x"
  unfolding is_list_def by (rule chain_next_in)

lemma put_list_fields [simp]:
  "t_status (relink set_nrp xs h p) = t_status (h p)"
  "t_priority (relink set_nrp xs h p) = t_priority (h p)"
  "t_delay (relink set_nrp xs h p) = t_delay (h p)"
  by (simp_all add: relink_def)

section \<open>The priority check\<close>

lemma ucast_priority: "p \<le> 0xff \<Longrightarrow> ucast (ucast (p :: u32) :: u8) = p"
proof -
  assume "p \<le> 0xff"
  then have "unat p < 256" by (simp add: word_le_nat_alt)
  then show ?thesis
    by (simp add: word_unat_eq_iff unsigned_ucast_eq take_bit_nat_eq_self unsigned_take_bit_eq)
qed

text \<open>A run queue as the scheduler expects it.\<close>

definition rq_ok :: "kernel \<Rightarrow> task_ptr list \<Rightarrow> bool" where
  "rq_ok s xs \<longleftrightarrow> is_list Runqueue s xs \<and>
     (\<forall>x\<in>set xs. os_task_status_is_running (status_of s x) \<and> prio_of s x \<le> 0xff) \<and>
     sorted_wrt (\<lambda>x y. \<not> higher s y x) xs"

lemma priority_check_order_silent:
  assumes "chain (nrp_of s) p xs"
    and "\<forall>x\<in>set xs. os_task_status_is_running (status_of s x) \<and> prio_of s x \<le> 0xff"
    and "sorted_wrt (\<lambda>x y. \<not> higher s y x) xs"
    and "\<forall>x\<in>set xs. prio_of s x \<le> ucast pr"
  shows "priority_check_order pr p s = Some (Inr ((), s))"
  using assms
proof (induction xs arbitrary: p pr)
  case Nil
  then show ?case by (subst priority_check_order.simps) (simp add: exec)
next
  case (Cons x xs)
  have "priority_check_order (ucast (prio_of s x)) (nrp_of s x) s = Some (Inr ((), s))"
    by (rule Cons.IH) (use Cons.prems in \<open>auto simp: ucast_priority higher_def not_less\<close>)
  with Cons.prems show ?case
    by (subst priority_check_order.simps) (auto simp: exec os_task_status_is_running_def)
qed

lemma priority_check_scheduled_silent:
  assumes "chain (nrp_of s) p xs"
    and "\<forall>x\<in>set xs. prio_of s x \<le> ucast sp"
  shows "priority_check_scheduled t sp p s = Some (Inr ((), s))"
  using assms
proof (induction xs arbitrary: p)
  case Nil
  then show ?case by (subst priority_check_scheduled.simps) (simp add: exec)
next
  case (Cons x xs)
  then show ?case by (subst priority_check_scheduled.simps) (auto simp: exec)
qed

lemma priority_check_silent:
  assumes "rq_ok s xs"
    and "case t of None \<Rightarrow> True | Some t \<Rightarrow> prio_of s t \<le> 0xff \<and> (\<forall>x\<in>set xs. \<not> higher s x t)"
  shows "osi_priority_check t s = Some (Inr ((), s))"
proof -
  from assms(1) have ch: "chain (nrp_of s) (runqueue s) xs"
    and st: "\<forall>x\<in>set xs. os_task_status_is_running (status_of s x) \<and> prio_of s x \<le> 0xff"
    and so: "sorted_wrt (\<lambda>x y. \<not> higher s y x) xs"
    by (simp_all add: rq_ok_def is_list_def)
  have "priority_check_order 0xff (runqueue s) s = Some (Inr ((), s))"
    by (rule priority_check_order_silent [OF ch st so]) (use st in simp)
  moreover have "priority_check_scheduled u (ucast (prio_of s u)) (runqueue s) s = Some (Inr ((), s))"
    if "t = Some u" for u
    by (rule priority_check_scheduled_silent [OF ch])
      (use that assms(2) in \<open>auto simp: ucast_priority higher_def not_less\<close>)
  ultimately show ?thesis
    by (cases t) (simp_all add: osi_priority_check_def exec)
qed

section \<open>Insertion and removal refine list insertion and removal\<close>

lemma is_list_mid: "is_list head s (as @ b # bs) \<Longrightarrow> nrp_of s b = first bs"
  using is_list_nrp [of head s "as @ b # bs" b] next_in_mid [of as b bs] is_list_distinct
  by fastforce

lemma is_list_chain:
  "is_list head s xs \<Longrightarrow> chain (\<lambda>p. t_nrp (task s p)) (first xs) xs"
  using is_list_first [of head s xs] by (simp add: is_list_def)

lemma put_list_insert:
  assumes "is_list head s (as @ bs)" and "t \<notin> set (as @ bs)"
  shows "put_list head (as @ t # bs) s =
    (let s1 = s\<lparr>task := (task s)(t := set_nrp (first bs) (task s t))\<rparr>
     in if as = [] then put_head head (Some t) s1
        else s1\<lparr>task := (task s1)(last as := set_nrp (Some t) (task s1 (last as)))\<rparr>)"
proof -
  note ri = nrp.relink_insert [OF is_list_chain [OF assms(1)] assms(2)]
  show ?thesis
  proof (cases "as = []")
    case True
    with ri show ?thesis by (cases head) (simp_all add: put_list_def Let_def)
  next
    case False
    then have "first (as @ t # bs) = get_head head s"
      using is_list_first [OF assms(1)] by (simp add: first_append)
    with False ri show ?thesis
      by (cases head) (simp_all add: put_list_def Let_def)
  qed
qed

text \<open>The task's link set to \<open>NULL\<close>.\<close>

definition unlink :: "task_ptr \<Rightarrow> kernel \<Rightarrow> kernel" where
  "unlink t s = s\<lparr>task := (task s)(t := set_nrp None (task s t))\<rparr>"

lemma put_list_remove:
  assumes "is_list head s (as @ t # bs)"
  shows "unlink t (put_list head (as @ bs) s) =
    (let s1 = (if as = [] then put_head head (first bs) s
               else s\<lparr>task := (task s)(last as := set_nrp (first bs) (task s (last as)))\<rparr>)
     in unlink t s1)"
proof -
  have "t \<notin> set (as @ bs)" using is_list_distinct [OF assms] by auto
  then have "set_nrp None (relink set_nrp (as @ bs) (task s) t) = set_nrp None (task s t)"
    by simp
  note rr = nrp.relink_remove [OF is_list_chain [OF assms], folded this]
  show ?thesis
  proof (cases "as = []")
    case True
    with rr show ?thesis by (cases head) (simp_all add: put_list_def Let_def unlink_def)
  next
    case False
    then have "first (as @ bs) = get_head head s"
      using is_list_first [OF assms] by (simp add: first_append)
    with False rr show ?thesis
      by (cases head) (simp_all add: put_list_def Let_def unlink_def)
  qed
qed

lemma runqueue_add_loop_eq:
  assumes "is_list Runqueue s (as @ bs)" and "bs \<noteq> []" and "t \<notin> set (as @ bs)"
    and "nrp_of s t = None" and "\<forall>a\<in>set as. \<not> higher s t a"
  shows "runqueue_add_loop Runqueue t (if as = [] then None else Some (last as)) (first bs) s =
    osi_priority_check None (put_list Runqueue (as @ insert_before (higher s) t bs) s)"
  using assms
proof (induction bs arbitrary: as)
  case (Cons b bs)
  have nb: "nrp_of s b = first bs" using Cons.prems(1) by (rule is_list_mid)
  have bt: "b \<noteq> t" using Cons.prems by auto
  show ?case
  proof (cases "higher s t b")
    case True
    with bt put_list_insert [OF Cons.prems(1,3)] show ?thesis
      by (subst runqueue_add_loop.simps) (simp add: exec higher_def Let_def)
  next
    case low: False
    show ?thesis
    proof (cases "bs = []")
      case True
      have id: "(task s)(t := set_nrp None (task s t)) = task s"
        using nrp.st_same [OF Cons.prems(4)] by simp
      have "put_list Runqueue ((as @ [b]) @ [t]) s =
          s\<lparr>task := (task s)(b := set_nrp (Some t) (task s b))\<rparr>"
        using put_list_insert [of Runqueue s "as @ [b]" "[]" t] Cons.prems(1,3) True
        unfolding first.simps id by (simp add: Let_def)
      with True nb bt low show ?thesis
        by (subst runqueue_add_loop.simps) (simp add: exec higher_def)
    next
      case False
      have "\<not> prio_of s t > prio_of s b" using low by (simp add: higher_def)
      with False Cons.IH [of "as @ [b]"] Cons.prems nb bt low show ?thesis
        by (subst runqueue_add_loop.simps) auto
    qed
  qed
qed simp

lemma runqueue_remove_loop_eq:
  assumes "is_list head s (as @ bs)"
  shows "runqueue_remove_loop head t (if as = [] then None else Some (last as)) (first bs) s =
    Some (Inr ((), if t \<in> set bs then unlink t (put_list head (as @ remove1 t bs) s) else s))"
  using assms
proof (induction bs arbitrary: as)
  case Nil
  then show ?case by (subst runqueue_remove_loop.simps) (simp add: exec)
next
  case (Cons b bs)
  have nb: "nrp_of s b = first bs" using Cons.prems(1) by (rule is_list_mid)
  have d: "distinct (as @ b # bs)" using Cons.prems by (rule is_list_distinct)
  have hd: "get_head head s = Some b \<longleftrightarrow> as = []"
    using is_list_first [OF Cons.prems] d by (cases as) auto
  show ?case
  proof (cases "b = t")
    case True
    with nb hd put_list_remove [of head s as t bs] Cons.prems show ?thesis
      by (subst runqueue_remove_loop.simps) (auto simp: exec Let_def unlink_def)
  next
    case False
    with Cons.IH [of "as @ [b]"] Cons.prems nb show ?thesis
      by (subst runqueue_remove_loop.simps) (auto simp: first_append)
  qed
qed

text \<open>What taking \<open>t\<close> out of a list does to the state.\<close>

definition drop_list :: "queue_head \<Rightarrow> task_ptr \<Rightarrow> task_ptr list \<Rightarrow> kernel \<Rightarrow> kernel" where
  "drop_list head t xs s =
     (if t \<in> set xs then unlink t (put_list head (remove1 t xs) s) else s)"

lemma runqueue_remove_eq:
  "is_list head s xs \<Longrightarrow> runqueue_remove head t s = Some (Inr ((), drop_list head t xs s))"
  using runqueue_remove_loop_eq [of head s "[]" xs t] is_list_first [of head s xs]
  by (simp add: runqueue_remove_def drop_list_def)

text \<open>The removal from the wait queue is the same loop.\<close>

lemma waitqueue_remove_loop_same:
  "chain (nrp_of s) p bs \<Longrightarrow>
   waitqueue_remove_loop head t previous p s = runqueue_remove_loop head t previous p s"
proof (induction bs arbitrary: p previous)
  case Nil
  then show ?case by (simp add: waitqueue_remove_loop.simps runqueue_remove_loop.simps)
next
  case (Cons b bs)
  then show ?case
    by (subst waitqueue_remove_loop.simps, subst runqueue_remove_loop.simps) simp
qed

lemma waitqueue_remove_eq:
  "is_list head s xs \<Longrightarrow> waitqueue_remove head t s = Some (Inr ((), drop_list head t xs s))"
  using runqueue_remove_eq [of head s xs t]
    waitqueue_remove_loop_same [of s "get_head head s" xs head t None]
  by (simp add: waitqueue_remove_def runqueue_remove_def is_list_def)

section \<open>Cycle detection\<close>

lemma chain_nth:
  "chain n p xs \<Longrightarrow> i < length xs \<Longrightarrow>
   n (xs ! i) = (if Suc i < length xs then Some (xs ! Suc i) else None)"
proof (induction xs arbitrary: p i)
  case (Cons x xs)
  then show ?case
    by (cases i) (cases xs, auto)
qed simp

lemma has_cycles_loop_acyclic:
  assumes ch: "chain (nrp_of s) p xs" and "i \<le> j" "j < length xs"
  shows "has_cycles_loop (xs ! i) (xs ! j) s = Some False"
  using assms(2,3)
proof (induction "length xs - j" arbitrary: i j rule: less_induct)
  case less
  note nth = chain_nth [OF ch]
  have d: "distinct xs" using ch by (rule chain_distinct)
  show ?case
  proof (cases "Suc (Suc j) < length xs")
    case True
    have "has_cycles_loop (xs ! Suc i) (xs ! Suc (Suc j)) s = Some False"
      by (rule less.hyps) (use less.prems True in auto)
    moreover have "xs ! Suc i \<noteq> xs ! Suc (Suc j)"
      using d True less.prems by (simp add: nth_eq_iff_index_eq)
    ultimately show ?thesis
      using True less.prems by (subst has_cycles_loop.simps) (simp add: nth)
  next
    case False
    with less.prems show ?thesis
      by (subst has_cycles_loop.simps) (auto simp: nth split: option.split)
  qed
qed

lemma has_cycles_acyclic:
  "is_list head s xs \<Longrightarrow> has_cycles (get_head head s) s = Some (Inr (False, s))"
  using has_cycles_loop_acyclic [of s "get_head head s" xs 0 0]
  by (cases xs) (auto simp: has_cycles_def is_list_def exec)

lemma orbit_chain:
  assumes "\<not> (\<exists>xs. chain n (Some h) xs)"
  shows "\<exists>f. f 0 = h \<and> (\<forall>k. n (f k) = Some (f (Suc k)))"
proof -
  define f where "f k = ((\<lambda>p. the (n p)) ^^ k) h" for k
  have "\<not> (\<exists>xs. chain n (Some (f k)) xs)" for k
  proof (induction k)
    case (Suc k)
    show ?case
    proof
      assume "\<exists>xs. chain n (Some (f (Suc k))) xs"
      then obtain xs where "chain n (Some (the (n (f k)))) xs" by (auto simp: f_def)
      then have "\<exists>ys. chain n (Some (f k)) ys"
        by (cases "n (f k)") (metis chain.simps, metis chain.simps(2) option.sel)
      with Suc show False by blast
    qed
  qed (use assms f_def in simp)
  then have "n (f k) \<noteq> None" for k by (metis chain.simps)
  then have "n (f k) = Some (f (Suc k))" for k by (simp add: f_def)
  moreover have "f 0 = h" by (simp add: f_def)
  ultimately show ?thesis by blast
qed

lemma floyd_meets:
  fixes f :: "nat \<Rightarrow> 'p"
  assumes step: "\<And>k. n (f k) = Some (f (Suc k))" and fin: "finite (range f)"
  shows "\<exists>k>0. f k = f (2 * k)"
proof -
  have "\<not> inj f" using fin finite_imageD infinite_UNIV_nat by blast
  then obtain i j where ij: "i < j" "f i = f j" by (metis injI linorder_neqE_nat)
  then obtain d where d: "j = i + d" "d > 0" by (metis less_imp_add_positive)
  have shift: "f (i + m) = f (i + d + m)" for m
  proof (induction m)
    case (Suc m)
    then show ?case using step by (metis add_Suc_right option.inject)
  qed (use ij d in simp)
  have per: "f (i + m) = f (i + m + r * d)" for m r
  proof (induction r)
    case (Suc r)
    have "f (i + m + Suc r * d) = f (i + d + (m + r * d))" by (simp add: algebra_simps)
    also have "\<dots> = f (i + (m + r * d))" by (rule shift [symmetric])
    finally show ?case using Suc by (simp add: algebra_simps)
  qed simp
  define k where "k = Suc i * d"
  have "i \<le> k" using d(2) by (cases d) (simp_all add: k_def)
  with per [of "k - i" "Suc i", folded k_def] have "f k = f (2 * k)" by (simp add: mult_2)
  moreover have "k > 0" using d(2) by (simp add: k_def)
  ultimately show ?thesis by blast
qed

lemma has_cycles_loop_cyclic:
  assumes step: "\<And>k. nrp_of s (f k) = Some (f (Suc k))"
    and meet: "f K = f (2 * K)" "i < K"
  shows "has_cycles_loop (f i) (f (2 * i)) s = Some True"
  using meet(2)
proof (induction "K - i" arbitrary: i rule: less_induct)
  case less
  show ?case
  proof (cases "Suc i = K")
    case True
    with meet(1) have "f (Suc i) = f (Suc (Suc (2 * i)))" by auto
    then show ?thesis by (subst has_cycles_loop.simps) (simp add: step)
  next
    case False
    have "has_cycles_loop (f (Suc i)) (f (2 * Suc i)) s = Some True"
      by (rule less.hyps) (use False less.prems in auto)
    then show ?thesis by (subst has_cycles_loop.simps) (simp add: step)
  qed
qed

lemma has_cycles_cyclic:
  assumes nc: "\<not> (\<exists>xs. chain (nrp_of s) (Some h) xs)"
    and fin: "finite A" "h \<in> A" "\<And>p q. p \<in> A \<Longrightarrow> nrp_of s p = Some q \<Longrightarrow> q \<in> A"
  shows "has_cycles (Some h) s = Some (Inr (True, s))"
proof -
  obtain f where f: "f 0 = h" and step: "\<And>k. nrp_of s (f k) = Some (f (Suc k))"
    using orbit_chain [OF nc] by blast
  have "f k \<in> A" for k
    by (induction k) (use f fin step in auto)
  then have "finite (range f)" using fin(1) by (meson finite_subset image_subsetI)
  then obtain k where "k > 0" "f k = f (2 * k)" using floyd_meets [of "nrp_of s" f] step by blast
  then have "has_cycles_loop h h s = Some True"
    using has_cycles_loop_cyclic [of s f k 0] step f by simp
  then show ?thesis by (simp add: has_cycles_def exec)
qed

section \<open>Insertion into the wait queue\<close>

lemma waitqueue_add_loop_eq:
  assumes "is_list Waitqueue s (as @ bs)" and "bs \<noteq> []" and "t \<notin> set (as @ bs)"
    and "nrp_of s t = None" and "\<forall>a\<in>set as. \<not> earlier s t a"
  shows "waitqueue_add_loop Waitqueue t (if as = [] then None else Some (last as)) (first bs) s =
    Some (Inr ((), put_list Waitqueue (as @ insert_before (earlier s) t bs) s))"
  using assms
proof (induction bs arbitrary: as)
  case (Cons b bs)
  have nb: "nrp_of s b = first bs" using Cons.prems(1) by (rule is_list_mid)
  have bt: "b \<noteq> t" using Cons.prems by auto
  show ?case
  proof (cases "earlier s t b")
    case True
    with bt put_list_insert [OF Cons.prems(1,3)] show ?thesis
      by (subst waitqueue_add_loop.simps) (simp add: exec earlier_def Let_def)
  next
    case low: False
    then have low': "\<not> t_delay (task s t) < t_delay (task s b)" by (simp add: earlier_def)
    show ?thesis
    proof (cases "bs = []")
      case True
      have id: "(task s)(t := set_nrp None (task s t)) = task s"
        using nrp.st_same [OF Cons.prems(4)] by simp
      let ?s' = "s\<lparr>task := (task s)(b := set_nrp (Some t) (task s b))\<rparr>"
      have put: "put_list Waitqueue ((as @ [b]) @ [t]) s = ?s'"
        using put_list_insert [of Waitqueue s "as @ [b]" "[]" t] Cons.prems(1,3) True
        unfolding first.simps id by (simp add: Let_def)
      have "distinct ((as @ [b]) @ [t])"
        using is_list_distinct [OF Cons.prems(1)] Cons.prems(3) True by auto
      then have "is_list Waitqueue ?s' ((as @ [b]) @ [t])"
        unfolding put [symmetric] by (rule is_list_put_list)
      then have "has_cycles (waitqueue s) ?s' = Some (Inr (False, ?s'))"
        using has_cycles_acyclic [of Waitqueue ?s'] by simp
      with True nb bt low low' put show ?thesis
        by (subst waitqueue_add_loop.simps) (simp add: exec)
    next
      case False
      with Cons.IH [of "as @ [b]"] Cons.prems nb bt low low' show ?thesis
        by (subst waitqueue_add_loop.simps) (auto simp: exec)
    qed
  qed
qed simp

section \<open>The list operations on well-formed queues\<close>

text \<open>The state after a task has been put into a list at its place.\<close>

lemma put_list_nrp_upd:
  assumes "t \<in> set xs"
  shows "put_list head xs (s\<lparr>task := (task s)(t := set_nrp v (task s t))\<rparr>) = put_list head xs s"
proof -
  have "relink set_nrp xs ((task s)(t := set_nrp v (task s t))) = relink set_nrp xs (task s)"
    using assms by (auto simp: relink_def fun_eq_iff)
  then show ?thesis by (cases head) (simp_all add: put_list_def)
qed

lemma unlink_simps [simp]:
  "task (unlink t s) = (task s)(t := set_nrp None (task s t))"
  "get_head head (unlink t s) = get_head head s"
  by (cases head; simp add: unlink_def)+

lemma is_list_unlink: "t \<notin> set xs \<Longrightarrow> is_list head (unlink t s) xs = is_list head s xs"
  unfolding is_list_def by (auto intro!: chain_cong)

lemma is_list_upd_other:
  "t \<notin> set xs \<Longrightarrow> is_list head (s\<lparr>task := (task s)(t := x)\<rparr>) xs = is_list head s xs"
  unfolding is_list_def by (cases head) (auto intro!: chain_cong)

lemma higher_cong: "(\<And>x. prio_of s' x = prio_of s x) \<Longrightarrow> higher s' = higher s"
  by (simp add: higher_def fun_eq_iff)

lemma earlier_cong:
  "(\<And>x. t_delay (task s' x) = t_delay (task s x)) \<Longrightarrow> earlier s' = earlier s"
  by (simp add: earlier_def fun_eq_iff)

lemma put_list_orders [simp]:
  "higher (put_list head xs s) = higher s"
  "earlier (put_list head xs s) = earlier s"
  by (simp_all add: higher_def earlier_def fun_eq_iff)

lemma is_list_put_other:
  assumes "set xs \<inter> set ys = {}" and "head \<noteq> head'"
  shows "is_list head' (put_list head xs s) ys = is_list head' s ys"
proof -
  have "get_head head' (put_list head xs s) = get_head head' s"
    using assms(2) by (cases head; cases head') (simp_all add: put_list_def)
  then show ?thesis
    using nrp.chain_relink_disjoint [OF assms(1)] by (simp add: is_list_def)
qed

lemma rq_ok_insert:
  assumes "rq_ok s xs" and "t \<notin> set xs"
    and "os_task_status_is_running (status_of s t)" and "prio_of s t \<le> 0xff"
  shows "rq_ok (put_list Runqueue (insert_before (higher s) t xs) s) (insert_before (higher s) t xs)"
proof -
  have "distinct xs" using assms(1) by (auto simp: rq_ok_def dest: is_list_distinct)
  with assms show ?thesis
    using prio.sorted_insert_before [of s xs t] by (simp add: rq_ok_def is_list_put_list)
qed

text \<open>Adding a task that is not queued inserts it behind its equals and reports nothing.\<close>

lemma runqueue_add_eq:
  assumes ok: "rq_ok s xs" and t: "t \<notin> set xs"
    and run: "os_task_status_is_running (status_of s t)" and "prio_of s t \<le> 0xff"
  shows "runqueue_add Runqueue t s =
    Some (Inr ((), put_list Runqueue (insert_before (higher s) t xs) s))"
proof -
  let ?s1 = "s\<lparr>task := (task s)(t := set_nrp None (task s t))\<rparr>"
  let ?ys = "insert_before (higher s) t xs"
  have l: "is_list Runqueue s xs" using ok by (simp add: rq_ok_def)
  then have l1: "is_list Runqueue ?s1 xs" using t by (simp add: is_list_upd_other)
  have hi: "higher ?s1 = higher s" by (rule higher_cong) simp
  have put: "put_list Runqueue ?ys ?s1 = put_list Runqueue ?ys s"
    by (rule put_list_nrp_upd) simp
  have check: "osi_priority_check None (put_list Runqueue ?ys s) = Some (Inr ((), put_list Runqueue ?ys s))"
    by (rule priority_check_silent [OF rq_ok_insert [OF assms]]) simp
  show ?thesis
  proof (cases "xs = []")
    case True
    with l put_list_insert [of Runqueue s "[]" "[]" t] show ?thesis
      by (simp add: runqueue_add_def exec is_list_def)
  next
    case False
    have "runqueue_add_loop Runqueue t None (first xs) ?s1 =
        osi_priority_check None (put_list Runqueue ?ys ?s1)"
      using runqueue_add_loop_eq [of ?s1 "[]" xs t] l1 False t by (simp add: hi)
    moreover have "runqueue ?s1 = first xs" using is_list_first [OF l1] by simp
    ultimately show ?thesis
      using False put check run
      by (auto simp: runqueue_add_def exec os_task_status_is_running_def)
  qed
qed

lemma waitqueue_add_eq:
  assumes l: "is_list Waitqueue s ws" and t: "t \<notin> set ws"
  shows "waitqueue_add Waitqueue t s =
    Some (Inr ((), put_list Waitqueue (insert_before (earlier s) t ws) s))"
proof -
  let ?s1 = "s\<lparr>task := (task s)(t := set_nrp None (task s t))\<rparr>"
  let ?ys = "insert_before (earlier s) t ws"
  have l1: "is_list Waitqueue ?s1 ws" using t l by (simp add: is_list_upd_other)
  have hi: "earlier ?s1 = earlier s" by (rule earlier_cong) simp
  have put: "put_list Waitqueue ?ys ?s1 = put_list Waitqueue ?ys s"
    by (rule put_list_nrp_upd) simp
  show ?thesis
  proof (cases "ws = []")
    case True
    with l put_list_insert [of Waitqueue s "[]" "[]" t] show ?thesis
      by (simp add: waitqueue_add_def exec is_list_def)
  next
    case False
    have "waitqueue_add_loop Waitqueue t None (first ws) ?s1 =
        Some (Inr ((), put_list Waitqueue ?ys ?s1))"
      using waitqueue_add_loop_eq [of ?s1 "[]" ws t] l1 False t by (simp add: hi)
    moreover have "waitqueue ?s1 = first ws" using is_list_first [OF l1] by simp
    ultimately show ?thesis
      using False put by (auto simp: waitqueue_add_def exec)
  qed
qed

lemma drop_list_notin: "t \<notin> set xs \<Longrightarrow> drop_list head t xs s = s"
  by (simp add: drop_list_def)

lemma drop_list_fields [simp]:
  "status_of (drop_list head t xs s) x = status_of s x"
  "prio_of (drop_list head t xs s) x = prio_of s x"
  "t_delay (task (drop_list head t xs s) x) = t_delay (task s x)"
  by (cases head; simp add: drop_list_def)+

lemma is_list_drop:
  assumes "is_list head s xs"
  shows "is_list head (drop_list head t xs s) (remove1 t xs)"
proof (cases "t \<in> set xs")
  case True
  have d: "distinct xs" using assms by (rule is_list_distinct)
  then have "is_list head (put_list head (remove1 t xs) s) (remove1 t xs)"
    by (intro is_list_put_list) simp
  with d True show ?thesis by (simp add: drop_list_def is_list_unlink)
next
  case False
  with assms show ?thesis by (simp add: drop_list_def remove1_idem)
qed

lemma rq_ok_drop:
  assumes "rq_ok s xs"
  shows "rq_ok (drop_list Runqueue t xs s) (remove1 t xs)"
proof -
  have "higher (drop_list Runqueue t xs s) = higher s" by (rule higher_cong) simp
  with assms show ?thesis
    using prio.sorted_remove1 [of s xs t] set_remove1_subset [of t xs]
    by (auto simp: rq_ok_def is_list_drop)
qed

lemma is_list_drop_other:
  assumes "set xs \<inter> set ys = {}" and "head \<noteq> head'"
  shows "is_list head' (drop_list head t xs s) ys = is_list head' s ys"
proof (cases "t \<in> set xs")
  case True
  then have "set (remove1 t xs) \<inter> set ys = {}" "t \<notin> set ys"
    using assms(1) set_remove1_subset [of t xs] by auto
  with assms(2) True show ?thesis
    by (simp add: drop_list_def is_list_unlink is_list_put_other)
qed (simp add: drop_list_def)

lemma runqueue_length_eq:
  assumes "is_list head s xs"
  shows "runqueue_length (get_head head s) s = Some (Inr (of_nat (length xs), s))"
proof -
  have "chain (nrp_of s) p xs \<Longrightarrow> runqueue_length_loop p l s = Some (l + of_nat (length xs))" for p l
  proof (induction xs arbitrary: p l)
    case Nil
    then show ?case by (subst runqueue_length_loop.simps) simp
  next
    case (Cons x xs)
    then show ?case by (subst runqueue_length_loop.simps) simp
  qed
  with assms show ?thesis by (simp add: runqueue_length_def is_list_def exec)
qed

lemma runqueue_has_higher_priority_eq:
  assumes "is_list Runqueue s xs"
  shows "runqueue_has_higher_priority t s =
    Some (Inr (\<exists>x\<in>set xs. os_task_status_is_running (status_of s x) \<and> higher s x t, s))"
proof -
  have "chain (nrp_of s) p xs \<Longrightarrow> runqueue_has_higher_priority_loop t p s =
      Some (\<exists>x\<in>set xs. os_task_status_is_running (status_of s x) \<and> higher s x t)" for p
  proof (induction xs arbitrary: p)
    case Nil
    then show ?case by (subst runqueue_has_higher_priority_loop.simps) simp
  next
    case (Cons x xs)
    then show ?case
      by (subst runqueue_has_higher_priority_loop.simps)
        (auto simp: higher_def os_task_status_is_running_def)
  qed
  with assms show ?thesis by (simp add: runqueue_has_higher_priority_def is_list_def exec)
qed

section \<open>Adding a task that is already queued\<close>

lemma runqueue_add_loop_queued:
  assumes "is_list Runqueue s (as @ bs @ [t])" and "\<forall>a\<in>set (as @ bs). \<not> higher s t a"
    and "t \<notin> set (as @ bs)"
  shows "runqueue_add_loop Runqueue t (if as = [] then None else Some (last as)) (first (bs @ [t])) s =
    emit Warn_runqueue_add s"
  using assms
proof (induction bs arbitrary: as)
  case Nil
  then show ?case by (subst runqueue_add_loop.simps) simp
next
  case (Cons b bs)
  have "is_list Runqueue s (as @ b # (bs @ [t]))" using Cons.prems(1) by simp
  then have nb: "nrp_of s b = first (bs @ [t])" by (rule is_list_mid)
  have "\<not> prio_of s t > prio_of s b" using Cons.prems(2) by (simp add: higher_def)
  with nb Cons.IH [of "as @ [b]"] Cons.prems show ?case
    by (subst runqueue_add_loop.simps) auto
qed

lemma runqueue_add_queued:
  assumes ok: "rq_ok s (as @ t # bs)"
  shows "runqueue_add Runqueue t s = emit Warn_runqueue_add (unlink t s)"
    and "is_list Runqueue (unlink t s) (as @ [t])"
proof -
  have l: "is_list Runqueue s (as @ t # bs)" using ok by (simp add: rq_ok_def)
  have d: "t \<notin> set as" "distinct (as @ [t])" using is_list_distinct [OF l] by auto
  have pre: "\<forall>a\<in>set as. \<not> higher s t a" using ok by (auto simp: rq_ok_def sorted_wrt_append)
  have hd: "get_head Runqueue s = first (as @ [t])"
    using is_list_first [OF l] by (simp add: first_append)
  have nx: "next_in (as @ [t]) x = next_in (as @ t # bs) x" if "x \<in> set as" for x
    using that d is_list_distinct [OF l] by (simp add: next_in_append1)
  show l': "is_list Runqueue (unlink t s) (as @ [t])"
    unfolding is_list_def unlink_simps hd
    by (rule chain_next_in_cong [OF d(2)])
      (use d nx is_list_nrp [OF l] in \<open>auto simp: next_in_append\<close>)
  have "higher (unlink t s) = higher s" by (rule higher_cong) simp
  with l' pre d have "runqueue_add_loop Runqueue t None (first (as @ [t])) (unlink t s) =
      emit Warn_runqueue_add (unlink t s)"
    using runqueue_add_loop_queued [of "unlink t s" "[]" as t] by simp
  moreover have "os_task_status_is_running (status_of s t)" using ok by (simp add: rq_ok_def)
  moreover have "runqueue (unlink t s) = first (as @ [t])" using hd by (simp add: unlink_def)
  ultimately show "runqueue_add Runqueue t s = emit Warn_runqueue_add (unlink t s)"
    using hd
    by (auto simp: runqueue_add_def exec unlink_def os_task_status_is_running_def first_append)
qed

end
