(* ===== verification/Blocked.thy ===== *)
theory Blocked
  imports RunQueue
begin

text \<open>
  The lists of blocked tasks of \<open>src/src/utilities.h\<close>: every queue, mutex, semaphore and
  rwlock has an \<open>os_blocked_t\<close> whose tasks are threaded through the field \<open>nblocked\<close>, in the
  order of their arrival.  A \<open>blocked_ref\<close> is the pointer \<open>&object->blocked\<close>.
\<close>

section \<open>The operations\<close>

datatype blocked_ref =
    Queue_blocked queue_ptr
  | Mutex_blocked mutex_ptr
  | Semaphore_blocked semaphore_ptr
  | Rwlock_blocked rwlock_ptr

fun get_blocked :: "blocked_ref \<Rightarrow> kernel \<Rightarrow> task_ptr option" where
  "get_blocked (Queue_blocked q) s = b_tasks (q_blocked (queue_at s q))"
| "get_blocked (Mutex_blocked m) s = b_tasks (m_blocked (mutex_at s m))"
| "get_blocked (Semaphore_blocked p) s = b_tasks (s_blocked (semaphore_at s p))"
| "get_blocked (Rwlock_blocked r) s = b_tasks (r_blocked (rwlock_at s r))"

fun put_blocked :: "blocked_ref \<Rightarrow> task_ptr option \<Rightarrow> kernel \<Rightarrow> kernel" where
  "put_blocked (Queue_blocked q) p s =
     s\<lparr>queue_at := (queue_at s)(q := (queue_at s q)\<lparr>q_blocked :=
         (q_blocked (queue_at s q))\<lparr>b_tasks := p\<rparr>\<rparr>)\<rparr>"
| "put_blocked (Mutex_blocked m) p s =
     s\<lparr>mutex_at := (mutex_at s)(m := (mutex_at s m)\<lparr>m_blocked :=
         (m_blocked (mutex_at s m))\<lparr>b_tasks := p\<rparr>\<rparr>)\<rparr>"
| "put_blocked (Semaphore_blocked m) p s =
     s\<lparr>semaphore_at := (semaphore_at s)(m := (semaphore_at s m)\<lparr>s_blocked :=
         (s_blocked (semaphore_at s m))\<lparr>b_tasks := p\<rparr>\<rparr>)\<rparr>"
| "put_blocked (Rwlock_blocked m) p s =
     s\<lparr>rwlock_at := (rwlock_at s)(m := (rwlock_at s m)\<lparr>r_blocked :=
         (r_blocked (rwlock_at s m))\<lparr>b_tasks := p\<rparr>\<rparr>)\<rparr>"

partial_function (option) blocked_contains_loop ::
  "task_ptr \<Rightarrow> task_ptr option \<Rightarrow> kernel \<Rightarrow> bool option" where
  "blocked_contains_loop t iter s =
     (case iter of
        None \<Rightarrow> Some False
      | Some i \<Rightarrow> if i = t then Some True else blocked_contains_loop t (nblocked_of s i) s)"

definition blocked_contains :: "blocked_ref \<Rightarrow> task_ptr \<Rightarrow> bool os" where
  "blocked_contains b t = reader (\<lambda>s. blocked_contains_loop t (get_blocked b s) s)"

partial_function (option) blocked_append_loop ::
  "task_ptr \<Rightarrow> task_ptr option \<Rightarrow> kernel \<Rightarrow> (fault + unit \<times> kernel) option" where
  "blocked_append_loop t iter s =
     (case iter of
        None \<Rightarrow> fail Null_pointer s
      | Some i \<Rightarrow>
          bind (block [os_assert ''iter->nblocked != task'' (nblocked_of s i \<noteq> Some t),
                       os_assert ''iter != task'' (i \<noteq> t)])
            (\<lambda>_ s. if nblocked_of s i = None
                   then upd_task i (\<lambda>x. x\<lparr>t_nblocked := Some t\<rparr>) s
                   else blocked_append_loop t (nblocked_of s i) s) s)"

definition blocked_append :: "blocked_ref \<Rightarrow> task_ptr \<Rightarrow> unit os" where
  "blocked_append b t s =
     block
       [os_assert ''task->nblocked == NULL'' (nblocked_of s t = None),
        (if get_blocked b s = None then modify (put_blocked b (Some t))
         else blocked_append_loop t (get_blocked b s))] s"

partial_function (option) blocked_remove_loop ::
  "blocked_ref \<Rightarrow> task_ptr \<Rightarrow> task_ptr option \<Rightarrow> task_ptr option \<Rightarrow> kernel \<Rightarrow>
     (fault + bool \<times> kernel) option" where
  "blocked_remove_loop b t previous iter s =
     (case iter of
        None \<Rightarrow> ret False s
      | Some i \<Rightarrow>
          if i = t then
            seq
              [(case previous of
                  None \<Rightarrow> modify (put_blocked b (nblocked_of s t))
                | Some p \<Rightarrow> upd_task p (\<lambda>x. x\<lparr>t_nblocked := nblocked_of s t\<rparr>)),
               upd_task t (\<lambda>x. x\<lparr>t_nblocked := None\<rparr>)]
              (ret True) s
          else blocked_remove_loop b t (Some i) (nblocked_of s i) s)"

definition blocked_remove :: "blocked_ref \<Rightarrow> task_ptr \<Rightarrow> bool os" where
  "blocked_remove b t s = blocked_remove_loop b t None (get_blocked b s) s"

section \<open>Abstract lists\<close>

abbreviation set_nblocked :: "task_ptr option \<Rightarrow> os_task_t \<Rightarrow> os_task_t" where
  "set_nblocked v x \<equiv> x\<lparr>t_nblocked := v\<rparr>"

interpretation nblocked: link_field t_nblocked set_nblocked
  by unfold_locales simp_all

definition is_blocked :: "blocked_ref \<Rightarrow> kernel \<Rightarrow> task_ptr list \<Rightarrow> bool" where
  "is_blocked b s xs \<longleftrightarrow> chain (nblocked_of s) (get_blocked b s) xs"

definition block_list :: "blocked_ref \<Rightarrow> task_ptr list \<Rightarrow> kernel \<Rightarrow> kernel" where
  "block_list b xs s = put_blocked b (first xs) (s\<lparr>task := relink set_nblocked xs (task s)\<rparr>)"

text \<open>The task's \<open>nblocked\<close> set to \<open>NULL\<close>.\<close>

definition unblock :: "task_ptr \<Rightarrow> kernel \<Rightarrow> kernel" where
  "unblock t s = s\<lparr>task := (task s)(t := set_nblocked None (task s t))\<rparr>"

lemma put_blocked_simps [simp]:
  "get_blocked b (put_blocked b p s) = p"
  "task (put_blocked b p s) = task s"
  by (cases b; simp)+

lemma put_blocked_other [simp]:
  "b' \<noteq> b \<Longrightarrow> get_blocked b' (put_blocked b p s) = get_blocked b' s"
  by (cases b; cases b') auto

lemma get_blocked_task [simp]: "get_blocked b (s\<lparr>task := h\<rparr>) = get_blocked b s"
  by (cases b) auto

lemma put_blocked_same: "get_blocked b s = p \<Longrightarrow> put_blocked b p s = s"
  by (cases b) auto

lemma put_blocked_task: "put_blocked b p (s\<lparr>task := h\<rparr>) = (put_blocked b p s)\<lparr>task := h\<rparr>"
  by (cases b) simp_all

lemma block_list_simps [simp]:
  "task (block_list b xs s) = relink set_nblocked xs (task s)"
  "get_blocked b (block_list b xs s) = first xs"
  by (simp_all add: block_list_def)

lemma unblock_simps [simp]:
  "task (unblock t s) = (task s)(t := set_nblocked None (task s t))"
  "get_blocked b (unblock t s) = get_blocked b s"
  by (simp_all add: unblock_def)

lemma is_blocked_distinct: "is_blocked b s xs \<Longrightarrow> distinct xs"
  unfolding is_blocked_def by (rule chain_distinct)

lemma is_blocked_first: "is_blocked b s xs \<Longrightarrow> get_blocked b s = first xs"
  unfolding is_blocked_def by (rule chain_first)

lemma is_blocked_unique: "is_blocked b s xs \<Longrightarrow> is_blocked b s ys \<Longrightarrow> xs = ys"
  unfolding is_blocked_def by (rule chain_unique)

lemma is_blocked_link: "is_blocked b s xs \<Longrightarrow> x \<in> set xs \<Longrightarrow> nblocked_of s x = next_in xs x"
  unfolding is_blocked_def by (rule chain_next_in)

lemma is_blocked_mid: "is_blocked b s (as @ x # bs) \<Longrightarrow> nblocked_of s x = first bs"
  using is_blocked_link [of b s "as @ x # bs" x] next_in_mid [of as x bs] is_blocked_distinct
  by fastforce

lemma is_blocked_chain:
  "is_blocked b s xs \<Longrightarrow> chain (\<lambda>p. t_nblocked (task s p)) (first xs) xs"
  using is_blocked_first [of b s xs] by (simp add: is_blocked_def)

lemma is_blocked_block_list: "distinct xs \<Longrightarrow> is_blocked b (block_list b xs s) xs"
  by (simp add: is_blocked_def nblocked.chain_relink)

lemma is_blocked_unblock:
  "t \<notin> set xs \<Longrightarrow> is_blocked b (unblock t s) xs = is_blocked b s xs"
  unfolding is_blocked_def by (auto intro!: chain_cong)

section \<open>The operations refine list operations\<close>

lemma blocked_contains_eq:
  assumes "is_blocked b s xs"
  shows "blocked_contains b t s = Some (Inr (t \<in> set xs, s))"
proof -
  have "chain (nblocked_of s) p xs \<Longrightarrow> blocked_contains_loop t p s = Some (t \<in> set xs)" for p
  proof (induction xs arbitrary: p)
    case Nil
    then show ?case by (subst blocked_contains_loop.simps) simp
  next
    case (Cons x xs)
    then show ?case by (subst blocked_contains_loop.simps) auto
  qed
  with assms show ?thesis by (simp add: blocked_contains_def is_blocked_def exec)
qed

lemma block_list_insert:
  assumes "is_blocked b s xs" and "t \<notin> set xs" and "nblocked_of s t = None"
  shows "block_list b (xs @ [t]) s =
    (if xs = [] then put_blocked b (Some t) s
     else s\<lparr>task := (task s)(last xs := set_nblocked (Some t) (task s (last xs)))\<rparr>)"
proof -
  have id: "(task s)(t := set_nblocked None (task s t)) = task s"
    using nblocked.st_same [OF assms(3)] by simp
  have "relink set_nblocked (xs @ [t]) (task s) =
      (if xs = [] then task s
       else (task s)(last xs := set_nblocked (Some t) (task s (last xs))))"
    using nblocked.relink_insert [of "task s" xs "[]" t] is_blocked_chain [OF assms(1)] assms(2)
    unfolding first.simps id by (simp add: Let_def)
  moreover have "get_blocked b s = first xs" by (rule is_blocked_first [OF assms(1)])
  ultimately show ?thesis
    by (cases "xs = []")
      (auto simp: block_list_def first_append put_blocked_task put_blocked_same)
qed

lemma blocked_append_loop_eq:
  assumes "chain (nblocked_of s) p xs" and "xs \<noteq> []" and "t \<notin> set xs"
  shows "blocked_append_loop t p s =
    Some (Inr ((), s\<lparr>task := (task s)(last xs := set_nblocked (Some t) (task s (last xs)))\<rparr>))"
  using assms
proof (induction xs arbitrary: p)
  case (Cons x xs)
  show ?case
  proof (cases xs)
    case Nil
    with Cons.prems show ?thesis by (subst blocked_append_loop.simps) (auto simp: exec)
  next
    case (Cons y ys)
    then have "last (x # xs) = last xs" by simp
    with Cons Cons.prems Cons.IH [of "Some y"] show ?thesis
      by (subst blocked_append_loop.simps) (simp add: exec fun_upd_def del: last.simps)
  qed
qed simp

lemma blocked_append_eq:
  assumes "is_blocked b s xs" and "t \<notin> set xs" and "nblocked_of s t = None"
  shows "blocked_append b t s = Some (Inr ((), block_list b (xs @ [t]) s))"
proof (cases "xs = []")
  case True
  with assms block_list_insert [of b s "[]" t] show ?thesis
    by (simp add: blocked_append_def exec is_blocked_def)
next
  case False
  with assms blocked_append_loop_eq [of s "first xs" xs t] is_blocked_first [OF assms(1)]
  show ?thesis
    by (simp add: blocked_append_def block_list_insert exec is_blocked_def)
qed

lemma block_list_remove:
  assumes "is_blocked b s (as @ t # bs)"
  shows "unblock t (block_list b (as @ bs) s) =
    unblock t (if as = [] then put_blocked b (first bs) s
      else s\<lparr>task := (task s)(last as := set_nblocked (first bs) (task s (last as)))\<rparr>)"
proof -
  have "t \<notin> set (as @ bs)" using is_blocked_distinct [OF assms] by auto
  then have e: "set_nblocked None (relink set_nblocked (as @ bs) (task s) t) =
      set_nblocked None (task s t)"
    by simp
  note rr = nblocked.relink_remove [OF is_blocked_chain [OF assms], folded e]
  show ?thesis
  proof (cases "as = []")
    case True
    with rr show ?thesis
      by (simp add: block_list_def unblock_def put_blocked_task Let_def)
  next
    case False
    then have "first (as @ bs) = get_blocked b s"
      using is_blocked_first [OF assms] by (simp add: first_append)
    with False rr show ?thesis
      by (simp add: block_list_def unblock_def put_blocked_task put_blocked_same Let_def)
  qed
qed

text \<open>What taking \<open>t\<close> out of a blocked list does to the state.\<close>

definition leave_list :: "blocked_ref \<Rightarrow> task_ptr \<Rightarrow> task_ptr list \<Rightarrow> kernel \<Rightarrow> kernel" where
  "leave_list b t xs s =
     (if t \<in> set xs then unblock t (block_list b (remove1 t xs) s) else s)"

lemma blocked_remove_loop_eq:
  assumes "is_blocked b s (as @ bs)" and "t \<notin> set as"
  shows "blocked_remove_loop b t (if as = [] then None else Some (last as)) (first bs) s =
    Some (Inr (t \<in> set bs,
      if t \<in> set bs then unblock t (block_list b (as @ remove1 t bs) s) else s))"
  using assms
proof (induction bs arbitrary: as)
  case Nil
  then show ?case by (subst blocked_remove_loop.simps) (simp add: exec)
next
  case (Cons x bs)
  have nx: "nblocked_of s x = first bs" using Cons.prems(1) by (rule is_blocked_mid)
  show ?case
  proof (cases "x = t")
    case True
    with nx block_list_remove [of b s as t bs] Cons.prems show ?thesis
      by (subst blocked_remove_loop.simps) (simp add: exec unblock_def)
  next
    case False
    with Cons.IH [of "as @ [x]"] Cons.prems nx show ?thesis
      by (subst blocked_remove_loop.simps) auto
  qed
qed

lemma blocked_remove_eq:
  assumes "is_blocked b s xs"
  shows "blocked_remove b t s = Some (Inr (t \<in> set xs, leave_list b t xs s))"
  using blocked_remove_loop_eq [of b s "[]" xs t] assms is_blocked_first [OF assms]
  by (simp add: blocked_remove_def leave_list_def)

lemma is_blocked_leave:
  assumes "is_blocked b s xs"
  shows "is_blocked b (leave_list b t xs s) (remove1 t xs)"
proof (cases "t \<in> set xs")
  case True
  have d: "distinct xs" using assms by (rule is_blocked_distinct)
  then have "is_blocked b (block_list b (remove1 t xs) s) (remove1 t xs)"
    by (intro is_blocked_block_list) simp
  with d True show ?thesis by (simp add: leave_list_def is_blocked_unblock)
next
  case False
  with assms show ?thesis by (simp add: leave_list_def remove1_idem)
qed

end
