(* ===== verification/Stack.thy ===== *)
theory Stack
  imports OshTypes
begin

unbundle bit_operations_syntax

text \<open>
  Task stacks (\<open>src/src/os.c\<close>): painting and measuring them, the frame
  \<open>initialize_stack\<close> builds for the first exception return into a task, and the access to the
  registers a blocked task will find its result in.  Addresses are byte addresses of 32-bit
  words; the model is of the builds without \<open>__pic__\<close>.
\<close>

section \<open>The operations\<close>

text \<open>The loops count the iterations that are left.\<close>

fun stack_paint_loop :: "nat \<Rightarrow> u32 \<Rightarrow> (u32 \<Rightarrow> u32) \<Rightarrow> (u32 \<Rightarrow> u32)" where
  "stack_paint_loop 0 stack m = m"
| "stack_paint_loop (Suc n) stack m =
     stack_paint_loop n (stack + 4) (m(stack := OSH_STACK_MAGIC_WORD))"

definition stack_paint :: "u32 \<Rightarrow> u32 \<Rightarrow> unit os" where
  "stack_paint stack size' = modify (\<lambda>s. s\<lparr>mem := stack_paint_loop (unat size') stack (mem s)\<rparr>)"

fun stack_highwater_loop :: "nat \<Rightarrow> u32 \<Rightarrow> u32 \<Rightarrow> u32 \<Rightarrow> (u32 \<Rightarrow> u32) \<Rightarrow> u32" where
  "stack_highwater_loop 0 i size' stack m = size'"
| "stack_highwater_loop (Suc n) i size' stack m =
     (if m stack \<noteq> OSH_STACK_MAGIC_WORD then i
      else stack_highwater_loop n (i + 1) size' (stack + 4) m)"

definition stack_highwater :: "u32 \<Rightarrow> u32 \<Rightarrow> kernel \<Rightarrow> u32" where
  "stack_highwater stack size' s = stack_highwater_loop (unat size') 0 size' stack (mem s)"

definition write_word :: "u32 \<Rightarrow> u32 \<Rightarrow> unit os" where
  "write_word a v = modify (\<lambda>s. s\<lparr>mem := (mem s)(a := v)\<rparr>)"

text \<open>The words 0 to 7 of the frame, which only the device builds fill.\<close>

definition saved_registers :: "target \<Rightarrow> u32 \<Rightarrow> u32 list" where
  "saved_registers tg base =
     (case tg of
        SAMD21 \<Rightarrow> [base + 8, base + 9, base + 10, base + 11, base + 4, base + 5, base + 6, base + 7]
      | SAMD51 \<Rightarrow> [base + 4, base + 5, base + 6, base + 7, base + 8, base + 9, base + 10, base + 11]
      | HOSTED \<Rightarrow> [])"

fun write_words :: "u32 \<Rightarrow> u32 list \<Rightarrow> (u32 \<Rightarrow> u32) \<Rightarrow> (u32 \<Rightarrow> u32)" where
  "write_words a [] m = m"
| "write_words a (v # vs) m = write_words (a + 4) vs (m(a := v))"

definition stack_top :: "u32 \<Rightarrow> u32 \<Rightarrow> u32" where
  "stack_top stack stack_size =
     (let stk = stack + 4 * (stack_size div 4);
          stk = (if stk AND 4 \<noteq> 0 then stk - 4 else stk)
      in stk - 4 * OS_STACK_BASIC_FRAME_SIZE)"

definition initialize_stack :: "task_ptr \<Rightarrow> u32 \<Rightarrow> u32 \<Rightarrow> u32 os" where
  "initialize_stack t stack stack_size s =
     (let base = 0x1000; stk = stack_top stack stack_size in
      seq
        [os_assert ''(stack_size % sizeof(uint32_t)) == 0'' (stack_size mod 4 = 0),
         os_assert ''stack_size >= OS_STACK_MINIMUM_SIZE'' (stack_size \<ge> OS_STACK_MINIMUM_SIZE),
         stack_paint stack (stack_size div 4),
         write_word (stk + 60) 0x01000000,
         write_word (stk + 56) (t_handler (task s t) AND NOT 1),
         write_word (stk + 52) (task_finished_addr s),
         write_word (stk + 48) (base + 12),
         write_word (stk + 44) (base + 3),
         write_word (stk + 40) (base + 2),
         write_word (stk + 36) (base + 1),
         write_word (stk + 32) (t_params (task s t)),
         modify (\<lambda>s. s\<lparr>mem := write_words stk (saved_registers (target s) base) (mem s)\<rparr>),
         write_word stack OSH_STACK_MAGIC_WORD]
        (ret stk) s)"

definition os_task_highwater :: "task_ptr \<Rightarrow> u32 os" where
  "os_task_highwater t =
     bind (gets (\<lambda>s. stack_highwater (t_stack (task s t)) (t_stack_size (task s t)) s))
       (\<lambda>w. seq [upd_task t (\<lambda>x. x\<lparr>t_highwater := w\<rparr>)] (ret w))"

definition osi_task_return_regs :: "task_ptr \<Rightarrow> kernel \<Rightarrow> u32" where
  "osi_task_return_regs t s =
     (case target s of
        SAMD51 \<Rightarrow>
          if t_stack_kind (task s t) = 1 then t_sp (task s t) + (8 * 4 + 16 * 4)
          else t_sp (task s t) + 8 * 4
      | _ \<Rightarrow> t_sp (task s t) + 8 * 4)"

text \<open>The tuple a blocked task will return: status in \<open>r0\<close>, value in \<open>r1\<close>.\<close>

definition osi_task_stacked_return_tuple :: "task_ptr \<Rightarrow> kernel \<Rightarrow> os_tuple_t" where
  "osi_task_stacked_return_tuple t s =
     \<lparr>tu_status = mem s (osi_task_return_regs t s),
      tu_value = mem s (osi_task_return_regs t s + 4)\<rparr>"

definition set_stacked_return_tuple :: "task_ptr \<Rightarrow> os_tuple_t \<Rightarrow> unit os" where
  "set_stacked_return_tuple t r =
     modify (\<lambda>s. s\<lparr>mem := (mem s)(osi_task_return_regs t s := tu_status r,
                                    osi_task_return_regs t s + 4 := tu_value r)\<rparr>)"

definition osi_task_set_stacked_return :: "task_ptr \<Rightarrow> u32 \<Rightarrow> u32 os" where
  "osi_task_set_stacked_return t v0 =
     seq [modify (\<lambda>s. s\<lparr>mem := (mem s)(osi_task_return_regs t s := v0)\<rparr>)] (ret v0)"

definition osi_task_get_stacked_return :: "task_ptr \<Rightarrow> kernel \<Rightarrow> u32" where
  "osi_task_get_stacked_return t s = mem s (osi_task_return_regs t s)"

section \<open>Painting and measuring\<close>

text \<open>The \<open>i\<close>-th word of an array of words.\<close>

abbreviation word_addr :: "u32 \<Rightarrow> nat \<Rightarrow> u32" where
  "word_addr a i \<equiv> a + 4 * of_nat i"

lemma word_addr_inj:
  assumes "unat a + 4 * n \<le> 2 ^ 32" and "i < n" and "j < n"
  shows "word_addr a i = word_addr a j \<longleftrightarrow> i = j"
proof -
  have small: "unat (4 * (of_nat k :: u32)) = 4 * k" if "k < n" for k
    using assms(1) that by (simp add: unat_word_ariths unat_of_nat)
  have "4 * (of_nat i :: u32) = 4 * of_nat j \<longleftrightarrow> i = j"
    using small [OF assms(2)] small [OF assms(3)] by (metis mult_cancel1 zero_neq_numeral)
  then show ?thesis by simp
qed

lemma stack_paint_loop_eq:
  assumes "unat a + 4 * n \<le> 2 ^ 32"
  shows "stack_paint_loop n a m x =
    (if \<exists>i<n. x = word_addr a i then OSH_STACK_MAGIC_WORD else m x)"
  using assms
proof (induction n arbitrary: a m)
  case (Suc n)
  have ex: "(\<exists>i<Suc n. x = word_addr a i) \<longleftrightarrow> x = a \<or> (\<exists>i<n. x = word_addr (a + 4) i)"
    by (subst Ex_less_Suc2) (simp add: algebra_simps)
  show ?case
  proof (cases "n = 0")
    case False
    then have "unat a + 4 < 2 ^ 32" using Suc.prems by simp
    then have "unat (a + 4) = unat a + 4" by (simp add: unat_word_ariths)
    then have "unat (a + 4) + 4 * n \<le> 2 ^ 32" using Suc.prems by simp
    then show ?thesis using Suc.IH ex by auto
  qed auto
qed simp

lemma stack_highwater_loop_eq:
  assumes "\<forall>i<k. m (word_addr a i) = OSH_STACK_MAGIC_WORD"
    and "m (word_addr a k) \<noteq> OSH_STACK_MAGIC_WORD" and "k < n"
  shows "stack_highwater_loop n i sz a m = i + of_nat k"
  using assms
proof (induction n arbitrary: i a k)
  case (Suc n)
  show ?case
  proof (cases k)
    case 0
    with Suc.prems show ?thesis by simp
  next
    case (Suc k')
    have "m (word_addr a 0) = OSH_STACK_MAGIC_WORD" using Suc.prems(1) Suc by blast
    moreover have "stack_highwater_loop n (i + 1) sz (a + 4) m = i + 1 + of_nat k'"
    proof (rule Suc.IH)
      show "\<forall>j<k'. m (word_addr (a + 4) j) = OSH_STACK_MAGIC_WORD"
      proof (intro allI impI)
        fix j assume "j < k'"
        then have "m (word_addr a (Suc j)) = OSH_STACK_MAGIC_WORD" using Suc.prems(1) Suc by blast
        then show "m (word_addr (a + 4) j) = OSH_STACK_MAGIC_WORD" by (simp add: algebra_simps)
      qed
      show "m (word_addr (a + 4) k') \<noteq> OSH_STACK_MAGIC_WORD"
        using Suc.prems(2) Suc by (simp add: algebra_simps)
    qed (use Suc.prems Suc in simp)
    ultimately show ?thesis using Suc by (simp add: algebra_simps)
  qed
qed simp

section \<open>The initial frame\<close>

lemma stack_top_index:
  assumes "stack_size mod 4 = 0" and "stack_size \<ge> OS_STACK_MINIMUM_SIZE"
  obtains k where "stack_top stack stack_size = word_addr stack k"
    and "23 \<le> k" and "k + 16 \<le> unat stack_size div 4" and "unat stack_size div 4 \<le> k + 17"
proof -
  let ?n = "unat stack_size div 4"
  have n: "40 \<le> ?n" using assms(2) by (simp add: word_le_nat_alt)
  have "stack_size div 4 = of_nat ?n" by (simp add: word_arith_nat_div)
  then have "stack + 4 * (stack_size div 4) = word_addr stack ?n" by simp
  moreover have "word_addr stack ?n - 4 - 64 = word_addr stack (?n - 17)"
    using n by (simp add: of_nat_diff algebra_simps)
  moreover have "word_addr stack ?n - 64 = word_addr stack (?n - 16)"
    using n by (simp add: of_nat_diff algebra_simps)
  ultimately have "stack_top stack stack_size = word_addr stack (?n - 17) \<or>
      stack_top stack stack_size = word_addr stack (?n - 16)"
    by (simp add: stack_top_def Let_def)
  with n that [of "?n - 17"] that [of "?n - 16"] show thesis by auto
qed

lemma and_low_iff:
  fixes x :: u32
  shows "x AND 3 = 0 \<longleftrightarrow> unat x mod 4 = 0" and "x AND 7 = 0 \<longleftrightarrow> unat x mod 8 = 0"
    and "x AND 4 = 0 \<longleftrightarrow> even (unat x div 4)"
proof -
  have m: "x AND 3 = take_bit 2 x" "x AND 7 = take_bit 3 x"
    by (simp_all add: take_bit_eq_mask mask_eq_exp_minus_1)
  show "x AND 3 = 0 \<longleftrightarrow> unat x mod 4 = 0" and "x AND 7 = 0 \<longleftrightarrow> unat x mod 8 = 0"
    unfolding m by (simp_all add: unat_eq_0 [symmetric] take_bit_eq_mod unat_mod_distrib
        del: unat_eq_0)
  have "x AND 4 = 0 \<longleftrightarrow> \<not> bit x 2"
    using and_exp_eq_0_iff_not_bit [of x 2] by simp
  moreover have "bit x 2 \<longleftrightarrow> bit (unat x) 2" by (simp add: bit_unsigned_iff)
  moreover have "bit (unat x) 2 \<longleftrightarrow> odd (unat x div 2 ^ 2)" by (rule bit_iff_odd)
  ultimately show "x AND 4 = 0 \<longleftrightarrow> even (unat x div 4)" by simp
qed

lemma unat_add_mod:
  fixes x y :: u32
  assumes "d dvd 2 ^ 32"
  shows "unat (x + y) mod d = (unat x + unat y) mod d"
  using assms by (simp add: unat_word_ariths mod_mod_cancel)

lemma unat_sub_frame: "unat x mod 8 = 0 \<Longrightarrow> unat (x - 64 :: u32) mod 8 = 0"
proof -
  assume x: "unat x mod 8 = 0"
  have "unat (x + (-64)) mod 8 = (unat x + unat (-64 :: u32)) mod 8"
    by (rule unat_add_mod) simp
  also have "unat (-64 :: u32) = 4294967232" by simp
  also have "(unat x + 4294967232) mod 8 = 0" using x by presburger
  finally show ?thesis by simp
qed

lemma stack_top_aligned:
  assumes "stack AND 3 = 0"
  shows "stack_top stack stack_size AND 7 = 0"
proof -
  let ?e = "stack + 4 * (stack_size div 4)"
  have "unat (4 * (stack_size div 4)) mod 4 = 0"
    by (simp add: unat_word_ariths mod_mod_cancel)
  moreover have "unat stack mod 4 = 0" using assms by (simp only: and_low_iff)
  moreover have "unat ?e mod 4 = (unat stack + unat (4 * (stack_size div 4))) mod 4"
    by (rule unat_add_mod) simp
  ultimately have e4: "unat ?e mod 4 = 0" by presburger
  let ?t = "if ?e AND 4 \<noteq> 0 then ?e - 4 else ?e"
  have "unat ?t mod 8 = 0"
  proof (cases "?e AND 4 = 0")
    case True
    then have "even (unat ?e div 4)" by (simp only: and_low_iff)
    with e4 True show ?thesis by simp presburger
  next
    case False
    then have o: "odd (unat ?e div 4)" by (simp only: and_low_iff) simp
    have "unat (?e + (-4)) mod 8 = (unat ?e + unat (-4 :: u32)) mod 8"
      by (rule unat_add_mod) simp
    also have "unat (-4 :: u32) = 4294967292" by simp
    finally have "unat (?e - 4) mod 8 = (unat ?e + 4294967292) mod 8" by simp
    also have "\<dots> = 0" using o e4 by presburger
    finally show ?thesis using False by simp
  qed
  then have "unat (?t - 64) mod 8 = 0" by (rule unat_sub_frame)
  then show ?thesis unfolding and_low_iff(2) stack_top_def Let_def by simp
qed

text \<open>The sixteen words of the frame; the first eight are left as painted on a host build.\<close>

definition frame_words :: "target \<Rightarrow> os_task_t \<Rightarrow> u32 \<Rightarrow> u32 list" where
  "frame_words tg x finished =
     (if tg = HOSTED
      then [OSH_STACK_MAGIC_WORD, OSH_STACK_MAGIC_WORD, OSH_STACK_MAGIC_WORD, OSH_STACK_MAGIC_WORD,
            OSH_STACK_MAGIC_WORD, OSH_STACK_MAGIC_WORD, OSH_STACK_MAGIC_WORD, OSH_STACK_MAGIC_WORD]
      else saved_registers tg 0x1000) @
     [t_params x, 0x1001, 0x1002, 0x1003, 0x100c, finished, t_handler x AND NOT 1, 0x01000000]"

lemma length_frame_words: "length (frame_words tg x f) = 16"
  by (cases tg) (simp_all add: frame_words_def saved_registers_def)

lemma upt_8: "[0..<8] = [0, 1, 2, 3, 4, 5, 6, 7 :: nat]"
  by (simp add: upt_rec)

lemma upt_16: "[0..<16] = [0, 1, 2, 3, 4, 5, 6, 7, 8, 9, 10, 11, 12, 13, 14, 15 :: nat]"
  by (simp add: upt_rec)

text \<open>The memory after \<open>initialize_stack\<close>, word by word.\<close>

definition initial_stack :: "kernel \<Rightarrow> task_ptr \<Rightarrow> u32 \<Rightarrow> u32 \<Rightarrow> (u32 \<Rightarrow> u32)" where
  "initial_stack s t stack sz x =
     (let stk = stack_top stack sz; fr = frame_words (target s) (task s t) (task_finished_addr s) in
      case find (\<lambda>i. x = word_addr stk i) [0..<16] of
        Some i \<Rightarrow> fr ! i
      | None \<Rightarrow> if \<exists>i<unat sz div 4. x = word_addr stack i then OSH_STACK_MAGIC_WORD else mem s x)"

lemma find_frame_word:
  assumes "i < 16"
  shows "find (\<lambda>j. word_addr a i = word_addr a j) [0..<16] = Some i"
proof -
  have "word_addr a i = word_addr a j \<longleftrightarrow> i = j" if "j < 16" for j
    using word_addr_inj [of 0 16 i j] assms that by simp
  then have "\<not> word_addr a i = word_addr a j" if "j < i" for j
    using that assms less_trans [OF that assms] by blast
  then show ?thesis unfolding find_Some_iff
    by (intro exI [of _ i] conjI allI impI) (use assms in simp_all)
qed

definition write_frame :: "target \<Rightarrow> os_task_t \<Rightarrow> u32 \<Rightarrow> u32 \<Rightarrow> (u32 \<Rightarrow> u32) \<Rightarrow> (u32 \<Rightarrow> u32)" where
  "write_frame tg x f stk m = write_words stk (saved_registers tg 0x1000)
    (m(stk + 60 := 0x01000000, stk + 56 := t_handler x AND NOT 1,
       stk + 52 := f, stk + 48 := 0x100c, stk + 44 := 0x1003,
       stk + 40 := 0x1002, stk + 36 := 0x1001, stk + 32 := t_params x))"

lemma write_frame_at:
  assumes "\<forall>i\<in>set [0..<8]. m (word_addr stk i) = OSH_STACK_MAGIC_WORD"
  shows "\<forall>i\<in>set [0..<16]. write_frame tg x f stk m (word_addr stk i) = frame_words tg x f ! i"
  using assms unfolding upt_16 upt_8
  by (cases tg) (simp_all add: write_frame_def frame_words_def saved_registers_def)

lemma write_frame_other:
  assumes "\<forall>i\<in>set [0..<16]. a \<noteq> word_addr stk i"
  shows "write_frame tg x f stk m a = m a"
  using assms unfolding upt_16
  by (cases tg) (simp_all add: write_frame_def saved_registers_def add.commute [of _ stk])

lemma initialize_stack_eq:
  assumes sz: "sz mod 4 = 0" "sz \<ge> OS_STACK_MINIMUM_SIZE"
    and space: "unat stack + unat sz \<le> 2 ^ 32"
  shows "initialize_stack t stack sz s =
    Some (Inr (stack_top stack sz, s\<lparr>mem := initial_stack s t stack sz\<rparr>))"
proof -
  let ?n = "unat sz div 4" and ?stk = "stack_top stack sz"
  let ?paint = "stack_paint_loop (unat (sz div 4)) stack (mem s)"
  obtain k where k: "?stk = word_addr stack k" "23 \<le> k" "k + 16 \<le> ?n"
    using stack_top_index [OF sz] by metis
  have room: "unat stack + 4 * ?n \<le> 2 ^ 32" using space by linarith
  have "unat (sz div 4) = ?n" by (simp add: unat_div)
  with room have paint: "?paint x =
      (if \<exists>i<?n. x = word_addr stack i then OSH_STACK_MAGIC_WORD else mem s x)" for x
    by (simp add: stack_paint_loop_eq)
  have low: "stack \<noteq> word_addr ?stk i" if "i < 16" for i
  proof
    assume "stack = word_addr ?stk i"
    then have "word_addr stack 0 = word_addr stack (k + i)" by (simp add: k(1) algebra_simps)
    then show False using word_addr_inj [OF room, of 0 "k + i"] k that by simp
  qed
  have painted: "?paint (word_addr ?stk i) = OSH_STACK_MAGIC_WORD" if "i < 16" for i
  proof -
    have "word_addr ?stk i = word_addr stack (k + i)" by (simp add: k(1) algebra_simps)
    moreover have "k + i < ?n" using k that by simp
    ultimately have "\<exists>j<?n. word_addr ?stk i = word_addr stack j" by blast
    then show ?thesis using paint [of "word_addr ?stk i"] by simp
  qed
  have "0 < ?n" using k by simp
  then have bottom: "\<exists>i<?n. (4 :: u32) * of_nat i = 0" by (intro exI [of _ 0]) simp
  let ?m = "(write_frame (target s) (task s t) (task_finished_addr s) ?stk ?paint)
    (stack := OSH_STACK_MAGIC_WORD)"
  have run: "initialize_stack t stack sz s = Some (Inr (?stk, s\<lparr>mem := ?m\<rparr>))"
    by (simp add: initialize_stack_def Let_def exec sz write_word_def stack_paint_def write_frame_def)
  have "?m x = initial_stack s t stack sz x" for x
  proof (cases "\<exists>i<16. x = word_addr ?stk i")
    case True
    then obtain i where i: "i < 16" "x = word_addr ?stk i" by blast
    have "write_frame (target s) (task s t) (task_finished_addr s) ?stk ?paint x =
        frame_words (target s) (task s t) (task_finished_addr s) ! i"
      using write_frame_at [of ?paint ?stk] painted i by simp
    moreover have "x \<noteq> stack" using low i by metis
    ultimately show ?thesis using find_frame_word [OF i(1)] i(2)
      by (simp add: initial_stack_def Let_def)
  next
    case False
    then have "find (\<lambda>i. x = word_addr ?stk i) [0..<16] = None"
      by (auto simp: find_None_iff)
    moreover have "write_frame (target s) (task s t) (task_finished_addr s) ?stk ?paint x = ?paint x"
      by (rule write_frame_other) (use False in auto)
    ultimately show ?thesis
      using bottom paint [of x]
      by (cases "x = stack") (simp_all add: initial_stack_def Let_def)
  qed
  with run show ?thesis by (metis ext)
qed

text \<open>Where the frame lies: inside the stack, at its top, with the rest painted below it.\<close>

lemma initial_stack_at:
  assumes "i < 16"
  shows "initial_stack s t stack sz (word_addr (stack_top stack sz) i) =
    frame_words (target s) (task s t) (task_finished_addr s) ! i"
  using find_frame_word [OF assms] by (simp add: initial_stack_def Let_def)

lemma initial_stack_inside:
  assumes sz: "sz mod 4 = 0" "sz \<ge> OS_STACK_MINIMUM_SIZE" and "i < 16"
  obtains j where "word_addr (stack_top stack sz) i = word_addr stack j" "j < unat sz div 4" "23 \<le> j"
proof -
  obtain k where k: "stack_top stack sz = word_addr stack k" "23 \<le> k" "k + 16 \<le> unat sz div 4"
    using stack_top_index [OF sz] by metis
  then have "word_addr (stack_top stack sz) i = word_addr stack (k + i)" by (simp add: algebra_simps)
  with k assms(3) that [of "k + i"] show thesis by simp
qed

lemma initial_stack_outside:
  assumes sz: "sz mod 4 = 0" "sz \<ge> OS_STACK_MINIMUM_SIZE"
    and out: "\<And>i. i < unat sz div 4 \<Longrightarrow> x \<noteq> word_addr stack i"
  shows "initial_stack s t stack sz x = mem s x"
proof -
  have "x \<noteq> word_addr (stack_top stack sz) i" if "i < 16" for i
    using initial_stack_inside [OF sz that] out by metis
  then have "find (\<lambda>i. x = word_addr (stack_top stack sz) i) [0..<16] = None"
    by (auto simp: find_None_iff)
  with out show ?thesis by (auto simp: initial_stack_def Let_def)
qed

lemma initial_stack_below:
  assumes sz: "sz mod 4 = 0" "sz \<ge> OS_STACK_MINIMUM_SIZE"
    and space: "unat stack + unat sz \<le> 2 ^ 32"
    and k: "stack_top stack sz = word_addr stack k" "k + 16 \<le> unat sz div 4" and i: "i < k"
  shows "initial_stack s t stack sz (word_addr stack i) = OSH_STACK_MAGIC_WORD"
proof -
  have room: "unat stack + 4 * (unat sz div 4) \<le> 2 ^ 32" using space by linarith
  have "word_addr stack i \<noteq> word_addr (stack_top stack sz) j" if "j < 16" for j
  proof -
    have "word_addr (stack_top stack sz) j = word_addr stack (k + j)"
      by (simp add: k(1) algebra_simps)
    with word_addr_inj [OF room, of i "k + j"] k(2) i that show ?thesis by simp
  qed
  then have "find (\<lambda>j. word_addr stack i = word_addr (stack_top stack sz) j) [0..<16] = None"
    by (auto simp: find_None_iff)
  moreover have "\<exists>j<unat sz div 4. word_addr stack i = word_addr stack j"
    using k(2) i by (intro exI [of _ i]) simp
  ultimately show ?thesis by (simp add: initial_stack_def Let_def)
qed

end
