(* ===== verification/TaskStatus.thy ===== *)
theory TaskStatus
  imports Blocked Stack
begin

text \<open>
  Changing the status of a task (\<open>osi_task_status_set\<close> of \<open>src/src/os.c\<close>), which is what
  moves tasks between the run queue and the wait queue, and the invariant of the two queues
  that every such change keeps.
\<close>

section \<open>The operation\<close>

text \<open>\<open>if (osg.status_hook != NULL) osg.status_hook(task, status);\<close>\<close>

definition call_status_hook :: "task_ptr \<Rightarrow> os_task_status \<Rightarrow> unit os" where
  "call_status_hook t status s =
     guarded (status_hook s \<noteq> 0) (emit (Status_hook t status)) s"

definition osi_task_status_set :: "task_ptr \<Rightarrow> os_task_status \<Rightarrow> u32 os" where
  "osi_task_status_set t new_status s =
     (let old_status = status_of s t in
      seq
        [upd_task t (\<lambda>x. x\<lparr>t_status := new_status\<rparr>),
         (if new_status = OS_TASK_STATUS_WAIT then
            block [runqueue_remove Runqueue t, waitqueue_add Waitqueue t]
          else if new_status = OS_TASK_STATUS_FINISHED then runqueue_remove Runqueue t
          else if new_status = OS_TASK_STATUS_PANIC then runqueue_remove Runqueue t
          else if new_status = OS_TASK_STATUS_ABORTED then runqueue_remove Runqueue t
          else if new_status = OS_TASK_STATUS_SUSPENDED then
            block [waitqueue_remove Waitqueue t, runqueue_remove Runqueue t]
          else if new_status = OS_TASK_STATUS_IDLE then
            block [guarded (old_status = OS_TASK_STATUS_WAIT) (waitqueue_remove Waitqueue t),
                   runqueue_add Runqueue t]
          else ret ()),
         call_status_hook t old_status]
        (ret (os_task_status_num new_status)) s)"

section \<open>The two queues as two lists\<close>

text \<open>
  The run queue leads to the tasks \<open>rs\<close>, the wait queue to \<open>ws\<close>, no task is in both, and a
  task in neither is not linked.
\<close>

definition links_ok :: "kernel \<Rightarrow> task_ptr list \<Rightarrow> task_ptr list \<Rightarrow> bool" where
  "links_ok s rs ws \<longleftrightarrow> is_list Runqueue s rs \<and> is_list Waitqueue s ws \<and>
     set rs \<inter> set ws = {} \<and> (\<forall>t. t \<notin> set rs \<longrightarrow> t \<notin> set ws \<longrightarrow> nrp_of s t = None)"

definition wq_ok :: "kernel \<Rightarrow> task_ptr list \<Rightarrow> bool" where
  "wq_ok s ws \<longleftrightarrow> is_list Waitqueue s ws \<and>
     (\<forall>w\<in>set ws. status_of s w = OS_TASK_STATUS_WAIT) \<and>
     sorted_wrt (\<lambda>x y. \<not> earlier s y x) ws"

text \<open>
  The invariant: the run queue holds runnable tasks by descending priority, the wait queue
  waiting tasks by ascending wake-up time.
\<close>

definition queues_ok :: "kernel \<Rightarrow> task_ptr list \<Rightarrow> task_ptr list \<Rightarrow> bool" where
  "queues_ok s rs ws \<longleftrightarrow> rq_ok s rs \<and> wq_ok s ws \<and> links_ok s rs ws"

text \<open>The state \<open>s\<close> with the two queues made to hold \<open>rs\<close> and \<open>ws\<close>.\<close>

definition queued :: "task_ptr list \<Rightarrow> task_ptr list \<Rightarrow> kernel \<Rightarrow> kernel" where
  "queued rs ws s =
     s\<lparr>runqueue := first rs, waitqueue := first ws,
       task := (\<lambda>x. (task s x)\<lparr>t_nrp := if x \<in> set rs then next_in rs x else next_in ws x\<rparr>)\<rparr>"

lemma queued_simps [simp]:
  "runqueue (queued rs ws s) = first rs"
  "waitqueue (queued rs ws s) = first ws"
  "task (queued rs ws s) x = (task s x)\<lparr>t_nrp := if x \<in> set rs then next_in rs x else next_in ws x\<rparr>"
  "running (queued rs ws s) = running s"
  "scheduled (queued rs ws s) = scheduled s"
  "os_state (queued rs ws s) = os_state s"
  "ntasks (queued rs ws s) = ntasks s"
  "idle (queued rs ws s) = idle s"
  "tasks (queued rs ws s) = tasks s"
  "status_hook (queued rs ws s) = status_hook s"
  "logging_hook (queued rs ws s) = logging_hook s"
  "queue_at (queued rs ws s) = queue_at s"
  "mutex_at (queued rs ws s) = mutex_at s"
  "semaphore_at (queued rs ws s) = semaphore_at s"
  "rwlock_at (queued rs ws s) = rwlock_at s"
  "mem (queued rs ws s) = mem s"
  "uptime (queued rs ws s) = uptime s"
  "micros (queued rs ws s) = micros s"
  "ipsr (queued rs ws s) = ipsr s"
  "control (queued rs ws s) = control s"
  "pendsv (queued rs ws s) = pendsv s"
  "target (queued rs ws s) = target s"
  "task_finished_addr (queued rs ws s) = task_finished_addr s"
  "trace (queued rs ws s) = trace s"
  by (simp_all add: queued_def)

lemma queued_heads [simp]:
  "get_head Runqueue (queued rs ws s) = first rs"
  "get_head Waitqueue (queued rs ws s) = first ws"
  "get_blocked b (queued rs ws s) = get_blocked b s"
  "higher (queued rs ws s) = higher s"
  "earlier (queued rs ws s) = earlier s"
  by (cases b; simp add: higher_def earlier_def fun_eq_iff)+

lemma queued_queued [simp]: "queued rs ws (queued rs' ws' s) = queued rs ws s"
  by (simp add: queued_def)

lemma queued_links_ok:
  assumes "distinct rs" "distinct ws" "set rs \<inter> set ws = {}"
  shows "links_ok (queued rs ws s) rs ws"
  using assms by (auto simp: links_ok_def is_list_def intro!: chain_next_in_cong)

lemma queued_id: "links_ok s rs ws \<Longrightarrow> queued rs ws s = s"
proof -
  assume l: "links_ok s rs ws"
  have "(task s x)\<lparr>t_nrp := if x \<in> set rs then next_in rs x else next_in ws x\<rparr> = task s x" for x
    by (rule nrp.st_same) (use l in \<open>cases "x \<in> set ws"; auto simp: links_ok_def is_list_nrp\<close>)
  moreover have "runqueue s = first rs" "waitqueue s = first ws"
    using l is_list_first [of Runqueue s rs] is_list_first [of Waitqueue s ws]
    by (auto simp: links_ok_def)
  ultimately show ?thesis by (simp add: queued_def)
qed

lemma links_ok_distinct: "links_ok s rs ws \<Longrightarrow> distinct rs \<and> distinct ws"
  by (auto simp: links_ok_def dest: is_list_distinct)

lemma links_ok_cong:
  assumes "runqueue s' = runqueue s" "waitqueue s' = waitqueue s"
    and "\<And>t. nrp_of s' t = nrp_of s t"
  shows "links_ok s' rs ws = links_ok s rs ws"
proof -
  have "is_list h s' xs = is_list h s xs" for h xs
    using assms by (cases h) (simp_all add: is_list_def)
  then show ?thesis using assms(3) by (simp add: links_ok_def)
qed

lemma queued_ok:
  assumes "distinct rs" "distinct ws" "set rs \<inter> set ws = {}"
    and "\<And>x. x \<in> set rs \<Longrightarrow> os_task_status_is_running (status_of s x) \<and> prio_of s x \<le> 0xff"
    and "\<And>x. x \<in> set ws \<Longrightarrow> status_of s x = OS_TASK_STATUS_WAIT"
    and "sorted_wrt (\<lambda>x y. \<not> higher s y x) rs" "sorted_wrt (\<lambda>x y. \<not> earlier s y x) ws"
  shows "queues_ok (queued rs ws s) rs ws"
  using assms queued_links_ok [OF assms(1-3)]
  by (auto simp: queues_ok_def links_ok_def rq_ok_def wq_ok_def)

lemma queues_okD:
  assumes "queues_ok s rs ws"
  shows "links_ok s rs ws" "is_list Runqueue s rs" "is_list Waitqueue s ws" "rq_ok s rs"
    and "sorted_wrt (\<lambda>x y. \<not> higher s y x) rs" "sorted_wrt (\<lambda>x y. \<not> earlier s y x) ws"
    and "x \<in> set rs \<Longrightarrow> os_task_status_is_running (status_of s x)"
    and "x \<in> set rs \<Longrightarrow> prio_of s x \<le> 0xff"
    and "x \<in> set ws \<Longrightarrow> status_of s x = OS_TASK_STATUS_WAIT"
    and "x \<in> set rs \<Longrightarrow> x \<notin> set ws" "x \<in> set ws \<Longrightarrow> x \<notin> set rs"
    and "x \<notin> set rs \<Longrightarrow> x \<notin> set ws \<Longrightarrow> nrp_of s x = None"
    and "runqueue s = first rs" "waitqueue s = first ws"
    and "distinct rs" "distinct ws" "set rs \<inter> set ws = {}"
  using assms links_ok_distinct [of s rs ws] is_list_first [of Runqueue s rs]
    is_list_first [of Waitqueue s ws]
  by (auto simp: queues_ok_def rq_ok_def wq_ok_def links_ok_def)

section \<open>The list operations on the two queues\<close>

lemma put_run_eq:
  assumes "links_ok s rs ws" and "set rs \<subseteq> set xs" and "set xs \<inter> set ws = {}"
  shows "put_list Runqueue xs s = queued xs ws s"
proof -
  have "relink set_nrp xs (task s) x =
      (task s x)\<lparr>t_nrp := if x \<in> set xs then next_in xs x else next_in ws x\<rparr>" for x
  proof (cases "x \<in> set xs")
    case False
    then have "nrp_of s x = next_in ws x"
      using assms by (cases "x \<in> set ws") (auto simp: links_ok_def is_list_nrp)
    with False show ?thesis by (simp add: nrp.st_same [symmetric])
  qed (simp add: relink_def)
  moreover have "waitqueue s = first ws"
    using assms(1) is_list_first [of Waitqueue s ws] by (simp add: links_ok_def)
  ultimately show ?thesis by (simp add: put_list_def queued_def fun_eq_iff)
qed

lemma put_wait_eq:
  assumes "links_ok s rs ws" and "set ws \<subseteq> set xs" and "set xs \<inter> set rs = {}"
  shows "put_list Waitqueue xs s = queued rs xs s"
proof -
  have "relink set_nrp xs (task s) x =
      (task s x)\<lparr>t_nrp := if x \<in> set rs then next_in rs x else next_in xs x\<rparr>" for x
  proof (cases "x \<in> set xs")
    case True
    then have "x \<notin> set rs" using assms(3) by auto
    with True show ?thesis by (simp add: relink_def)
  next
    case False
    then have "nrp_of s x = (if x \<in> set rs then next_in rs x else next_in xs x)"
      using assms by (auto simp: links_ok_def is_list_nrp)
    with False show ?thesis by (simp add: nrp.st_same [symmetric])
  qed
  moreover have "runqueue s = first rs"
    using assms(1) is_list_first [of Runqueue s rs] by (simp add: links_ok_def)
  ultimately show ?thesis by (simp add: put_list_def queued_def fun_eq_iff)
qed

text \<open>Taking a task out of one of the queues leaves it unlinked.\<close>

lemma drop_run_eq:
  assumes l: "links_ok s rs ws"
  shows "drop_list Runqueue t rs s = queued (remove1 t rs) ws s"
proof (cases "t \<in> set rs")
  case False
  then show ?thesis using queued_id [OF l] by (simp add: drop_list_def remove1_idem)
next
  case True
  have d: "distinct rs" using links_ok_distinct [OF l] by simp
  have nw: "t \<notin> set ws" using True l by (auto simp: links_ok_def)
  have out: "nrp_of s x = next_in ws x" if "x \<notin> set rs" for x
    using l that by (cases "x \<in> set ws") (auto simp: links_ok_def is_list_nrp)
  have "task (drop_list Runqueue t rs s) x = task (queued (remove1 t rs) ws s) x" for x
  proof (cases "x = t")
    case True
    with d nw \<open>t \<in> set rs\<close> show ?thesis by (simp add: drop_list_def)
  next
    case False
    with True d out [of x] show ?thesis
      by (auto simp: drop_list_def relink_def nrp.st_same [symmetric])
  qed
  moreover have "waitqueue s = first ws"
    using l is_list_first [of Waitqueue s ws] by (simp add: links_ok_def)
  ultimately show ?thesis
    using True by (simp add: drop_list_def unlink_def put_list_def queued_def fun_eq_iff)
qed

lemma drop_wait_eq:
  assumes l: "links_ok s rs ws"
  shows "drop_list Waitqueue t ws s = queued rs (remove1 t ws) s"
proof (cases "t \<in> set ws")
  case False
  then show ?thesis using queued_id [OF l] by (simp add: drop_list_def remove1_idem)
next
  case True
  have d: "distinct ws" using links_ok_distinct [OF l] by simp
  have nw: "t \<notin> set rs" using True l by (auto simp: links_ok_def)
  have out: "nrp_of s x = next_in rs x" if "x \<notin> set ws" for x
    using l that by (cases "x \<in> set rs") (auto simp: links_ok_def is_list_nrp)
  have "task (drop_list Waitqueue t ws s) x = task (queued rs (remove1 t ws) s) x" for x
  proof (cases "x = t")
    case True
    with d nw \<open>t \<in> set ws\<close> show ?thesis by (simp add: drop_list_def)
  next
    case False
    with True d out [of x] l show ?thesis
      by (auto simp: drop_list_def relink_def nrp.st_same [symmetric] links_ok_def)
  qed
  moreover have "runqueue s = first rs"
    using l is_list_first [of Runqueue s rs] by (simp add: links_ok_def)
  ultimately show ?thesis
    using True by (simp add: drop_list_def unlink_def put_list_def queued_def fun_eq_iff)
qed

lemma links_ok_drop_run:
  "links_ok s rs ws \<Longrightarrow> links_ok (queued (remove1 t rs) ws s) (remove1 t rs) ws"
  using links_ok_distinct [of s rs ws] set_remove1_subset [of t rs]
  by (intro queued_links_ok) (auto simp: links_ok_def)

lemma links_ok_drop_wait:
  "links_ok s rs ws \<Longrightarrow> links_ok (queued rs (remove1 t ws) s) rs (remove1 t ws)"
  using links_ok_distinct [of s rs ws] set_remove1_subset [of t ws]
  by (intro queued_links_ok) (auto simp: links_ok_def)

lemma links_ok_run: "links_ok s rs ws \<Longrightarrow> is_list Runqueue s rs"
  and links_ok_wait: "links_ok s rs ws \<Longrightarrow> is_list Waitqueue s ws"
  by (simp_all add: links_ok_def)

text \<open>The four list operations, on both queues at once.\<close>

lemma runqueue_remove_queued:
  "links_ok s rs ws \<Longrightarrow> runqueue_remove Runqueue t s = Some (Inr ((), queued (remove1 t rs) ws s))"
  by (simp add: runqueue_remove_eq [OF links_ok_run] drop_run_eq)

lemma waitqueue_remove_queued:
  "links_ok s rs ws \<Longrightarrow> waitqueue_remove Waitqueue t s = Some (Inr ((), queued rs (remove1 t ws) s))"
  by (simp add: waitqueue_remove_eq [OF links_ok_wait] drop_wait_eq)

lemma waitqueue_add_queued:
  assumes "links_ok s rs ws" and "t \<notin> set rs" and "t \<notin> set ws"
  shows "waitqueue_add Waitqueue t s =
    Some (Inr ((), queued rs (insert_before (earlier s) t ws) s))"
  using assms
  by (subst waitqueue_add_eq [OF links_ok_wait [OF assms(1)]]) (auto intro!: put_wait_eq simp: links_ok_def)

lemma runqueue_add_queued_eq:
  assumes "links_ok s rs ws" and "rq_ok s rs" and "t \<notin> set rs" and "t \<notin> set ws"
    and "os_task_status_is_running (status_of s t)" and "prio_of s t \<le> 0xff"
  shows "runqueue_add Runqueue t s =
    Some (Inr ((), queued (insert_before (higher s) t rs) ws s))"
  using assms
  by (subst runqueue_add_eq [OF assms(2)]) (auto intro!: put_run_eq simp: links_ok_def)

section \<open>What the operation does\<close>

definition set_status :: "os_task_status \<Rightarrow> task_ptr \<Rightarrow> kernel \<Rightarrow> kernel" where
  "set_status st t s = s\<lparr>task := (task s)(t := (task s t)\<lparr>t_status := st\<rparr>)\<rparr>"

definition hooked :: "task_ptr \<Rightarrow> os_task_status \<Rightarrow> kernel \<Rightarrow> kernel" where
  "hooked t st s =
     s\<lparr>trace := trace s @ (if status_hook s \<noteq> 0 then [Status_hook t st] else [])\<rparr>"

lemma call_status_hook_eq [exec]: "call_status_hook t st s = Some (Inr ((), hooked t st s))"
  by (simp add: call_status_hook_def hooked_def exec)

lemma hooked_queued: "hooked t st (queued rs ws s) = queued rs ws (hooked t st s)"
  by (simp add: hooked_def queued_def)

lemma set_status_heads [simp]:
  "get_head h (set_status st t s) = get_head h s"
  "get_blocked b (set_status st t s) = get_blocked b s"
  "higher (set_status st t s) = higher s"
  "earlier (set_status st t s) = earlier s"
  by (cases h; simp add: set_status_def higher_def earlier_def fun_eq_iff)+

lemma set_status_fields [simp]:
  "status_of (set_status st t s) x = (if x = t then st else status_of s x)"
  "prio_of (set_status st t s) x = prio_of s x"
  "t_delay (task (set_status st t s) x) = t_delay (task s x)"
  "nrp_of (set_status st t s) x = nrp_of s x"
  by (simp_all add: set_status_def)

lemma hooked_fields [simp]:
  "task (hooked t st s) = task s"
  "higher (hooked t st s) = higher s"
  "earlier (hooked t st s) = earlier s"
  by (simp_all add: hooked_def higher_def earlier_def fun_eq_iff)

lemma links_ok_set_status: "links_ok (set_status st t s) rs ws = links_ok s rs ws"
  by (rule links_ok_cong) (simp_all add: set_status_def)

text \<open>The two queues after a task has taken a new status.\<close>

definition next_run :: "kernel \<Rightarrow> task_ptr \<Rightarrow> os_task_status \<Rightarrow> task_ptr list \<Rightarrow> task_ptr list" where
  "next_run s t st rs =
     (case st of
        OS_TASK_STATUS_IDLE \<Rightarrow> insert_before (higher s) t rs
      | OS_TASK_STATUS_ACTIVE \<Rightarrow> rs
      | _ \<Rightarrow> remove1 t rs)"

definition next_wait :: "kernel \<Rightarrow> task_ptr \<Rightarrow> os_task_status \<Rightarrow> task_ptr list \<Rightarrow> task_ptr list" where
  "next_wait s t st ws =
     (case st of
        OS_TASK_STATUS_WAIT \<Rightarrow> insert_before (earlier s) t ws
      | OS_TASK_STATUS_IDLE \<Rightarrow> remove1 t ws
      | OS_TASK_STATUS_SUSPENDED \<Rightarrow> remove1 t ws
      | _ \<Rightarrow> ws)"

definition after_status :: "kernel \<Rightarrow> task_ptr list \<Rightarrow> task_ptr list \<Rightarrow> task_ptr \<Rightarrow> os_task_status \<Rightarrow> kernel" where
  "after_status s rs ws t st =
     hooked t (status_of s t)
       (queued (next_run s t st rs) (next_wait s t st ws) (set_status st t s))"

text \<open>
  The changes the queues allow: a task that becomes runnable is not queued as runnable yet,
  a task that finishes, panics, aborts, waits or becomes active is not waiting.
\<close>

definition can_become :: "kernel \<Rightarrow> task_ptr list \<Rightarrow> task_ptr list \<Rightarrow> task_ptr \<Rightarrow> os_task_status \<Rightarrow> bool"
  where
  "can_become s rs ws t st \<longleftrightarrow>
     (case st of
        OS_TASK_STATUS_IDLE \<Rightarrow> t \<notin> set rs \<and> prio_of s t \<le> 0xff
      | OS_TASK_STATUS_SUSPENDED \<Rightarrow> True
      | _ \<Rightarrow> t \<notin> set ws)"

lemma rq_ok_set_status: "rq_ok s rs \<Longrightarrow> t \<notin> set rs \<Longrightarrow> rq_ok (set_status st t s) rs"
  using is_list_upd_other [of t rs Runqueue s "(task s t)\<lparr>t_status := st\<rparr>"]
  by (auto simp: rq_ok_def set_status_def [symmetric])

lemma rq_ok_queued:
  assumes "rq_ok s rs" and "distinct ws" "set rs \<inter> set ws = {}"
  shows "rq_ok (queued rs ws s) rs"
proof -
  have "distinct rs" using assms(1) by (auto simp: rq_ok_def dest: is_list_distinct)
  then have "links_ok (queued rs ws s) rs ws" using assms(2,3) by (rule queued_links_ok)
  with assms(1) show ?thesis by (auto simp: rq_ok_def links_ok_def)
qed

lemma osi_task_status_set_eq:
  assumes q: "queues_ok s rs ws" and c: "can_become s rs ws t st"
  shows "osi_task_status_set t st s = Some (Inr (os_task_status_num st, after_status s rs ws t st))"
proof -
  let ?s = "set_status st t s"
  have upd: "upd_task t (\<lambda>x. x\<lparr>t_status := st\<rparr>) s = Some (Inr ((), ?s))"
    by (simp add: exec set_status_def)
  have l: "links_ok ?s rs ws" using queues_okD(1) [OF q] by (simp add: links_ok_set_status)
  have d: "distinct rs" "distinct ws" using queues_okD [OF q] by auto
  note ops = runqueue_remove_queued [OF l] waitqueue_remove_queued [OF l]
    runqueue_remove_queued [OF links_ok_drop_wait [OF l, of t]]
  show ?thesis
  proof (cases "st = OS_TASK_STATUS_WAIT \<or> st = OS_TASK_STATUS_IDLE")
    case False
    then show ?thesis
      using upd ops queued_id [OF l]
      by (cases st) (simp_all add: osi_task_status_set_def after_status_def next_run_def
          next_wait_def Let_def exec)
  next
    case True
    then show ?thesis
    proof
      assume st: "st = OS_TASK_STATUS_WAIT"
      have "t \<notin> set ws" "t \<notin> set (remove1 t rs)" using c st d by (simp_all add: can_become_def)
      then show ?thesis
        using st upd ops waitqueue_add_queued [OF links_ok_drop_run [OF l, of t], of t]
        by (simp add: osi_task_status_set_def after_status_def next_run_def next_wait_def
            Let_def exec)
    next
      assume st: "st = OS_TASK_STATUS_IDLE"
      let ?ws = "remove1 t ws" and ?s' = "queued rs (remove1 t ws) (set_status st t s)"
      have t: "t \<notin> set rs" "prio_of s t \<le> 0xff" using c st by (simp_all add: can_become_def)
      have rq: "rq_ok ?s' rs"
        using queues_okD(4,17) [OF q] t d set_remove1_subset [of t ws]
        by (intro rq_ok_queued rq_ok_set_status) auto
      have add: "runqueue_add Runqueue t ?s' =
          Some (Inr ((), queued (insert_before (higher s) t rs) ?ws ?s'))"
        using runqueue_add_queued_eq [OF links_ok_drop_wait [OF l, of t] rq, of t] t d st by simp
      show ?thesis
      proof (cases "t \<in> set ws")
        case True
        then have "status_of s t = OS_TASK_STATUS_WAIT" using queues_okD(9) [OF q] by blast
        with st upd ops add show ?thesis
          by (simp add: osi_task_status_set_def Let_def exec after_status_def next_run_def
              next_wait_def)
      next
        case False
        then have "?s' = ?s" using queued_id [OF l] by (simp add: remove1_idem)
        with st upd ops add show ?thesis
          by (simp add: osi_task_status_set_def Let_def exec after_status_def next_run_def
              next_wait_def)
      qed
    qed
  qed
qed

text \<open>Every allowed change keeps the invariant.\<close>

lemma after_status_ok:
  assumes q: "queues_ok s rs ws" and c: "can_become s rs ws t st"
  shows "queues_ok (after_status s rs ws t st) (next_run s t st rs) (next_wait s t st ws)"
proof -
  note d = queues_okD [OF q]
  have sub: "set (remove1 t rs) = set rs - {t}" "set (remove1 t ws) = set ws - {t}"
    using d by simp_all
  have tw: "t \<notin> set ws \<or> status_of s t = OS_TASK_STATUS_WAIT" using d(9) by blast
  have "queues_ok (queued (next_run s t st rs) (next_wait s t st ws)
      (hooked t (status_of s t) (set_status st t s)))
      (next_run s t st rs) (next_wait s t st ws)"
  proof (rule queued_ok)
    show "distinct (next_run s t st rs)" "distinct (next_wait s t st ws)"
      using d c by (cases st; simp add: next_run_def next_wait_def can_become_def)+
    show "set (next_run s t st rs) \<inter> set (next_wait s t st ws) = {}"
      using d(10,17) c sub by (cases st) (auto simp: next_run_def next_wait_def can_become_def)
    show "sorted_wrt (\<lambda>x y. \<not> higher (hooked t (status_of s t) (set_status st t s)) y x)
        (next_run s t st rs)"
      using d(5) by (cases st) (simp_all add: next_run_def prio.sorted_insert_before prio.sorted_remove1)
    show "sorted_wrt (\<lambda>x y. \<not> earlier (hooked t (status_of s t) (set_status st t s)) y x)
        (next_wait s t st ws)"
      using d(6) by (cases st) (simp_all add: next_wait_def wake.sorted_insert_before wake.sorted_remove1)
  qed (use d(7-11) c sub in \<open>cases st;
      auto simp: next_run_def next_wait_def can_become_def\<close>)+
  then show ?thesis by (simp add: after_status_def hooked_queued)
qed

end
