(* ===== verification/QueueSpec.thy ===== *)
theory QueueSpec
  imports TaskStatus
begin

text \<open>
  What the run queue, the wait queue and the blocked lists promise: the operations of the
  kernel's linked lists, on well-formed lists, and the one use that breaks them.
\<close>

section \<open>Example states\<close>

definition example_run :: kernel where
  "example_run = blank_kernel\<lparr>runqueue := Some 0, task := (\<lambda>x.
     if x = 0 then example_task OS_TASK_STATUS_IDLE 0x20 (Some 1)
     else if x = 1 then example_task OS_TASK_STATUS_ACTIVE 0x10 None
     else example_task OS_TASK_STATUS_IDLE 0x10 None)\<rparr>"

lemma example_run_simps [simp]:
  "runqueue example_run = Some 0" "waitqueue example_run = None"
  "task example_run x = (if x = 0 then example_task OS_TASK_STATUS_IDLE 0x20 (Some 1)
     else if x = 1 then example_task OS_TASK_STATUS_ACTIVE 0x10 None
     else example_task OS_TASK_STATUS_IDLE 0x10 None)"
  "trace example_run = []"
  by (simp_all add: example_run_def blank_kernel_def)

lemma example_run_ok: "rq_ok example_run [0, 1]"
  by (simp add: rq_ok_def is_list_def higher_def)

lemma example_run_queues: "queues_ok example_run [0, 1] []"
  using example_run_ok by (auto simp: queues_ok_def wq_ok_def links_ok_def rq_ok_def is_list_def)

section \<open>The run queue\<close>

text \<open>
  C24: adding a runnable task that is not queued puts it behind every task of the same or a higher
  priority and before every task of a lower one, keeps the queue in order, reports nothing,
  and changes no field of any task but the links.
\<close>

theorem runqueue_add_by_priority:
  assumes "rq_ok s xs" and "t \<notin> set xs" and "os_task_status_is_running (status_of s t)"
    and "prio_of s t \<le> 0xff"
  shows "\<exists>s'. runqueue_add Runqueue t s = Some (Inr ((), s')) \<and>
    rq_ok s' (filter (\<lambda>x. prio_of s t \<le> prio_of s x) xs @ t # filter (\<lambda>x. prio_of s x < prio_of s t) xs) \<and>
    trace s' = trace s \<and> waitqueue s' = waitqueue s \<and>
    (\<forall>x. (task s' x)\<lparr>t_nrp := None\<rparr> = (task s x)\<lparr>t_nrp := None\<rparr>)"
proof -
  let ?ys = "insert_before (higher s) t xs"
  have "?ys = filter (\<lambda>x. prio_of s t \<le> prio_of s x) xs @ t # filter (\<lambda>x. prio_of s x < prio_of s t) xs"
    using prio.insert_before_split [of s xs t] assms(1) by (simp add: rq_ok_def higher_def not_less)
  moreover have "(task (put_list Runqueue ?ys s) x)\<lparr>t_nrp := None\<rparr> = (task s x)\<lparr>t_nrp := None\<rparr>" for x
    by (simp add: relink_def)
  ultimately show ?thesis
    using runqueue_add_eq [OF assms] rq_ok_insert [OF assms]
    by (intro exI [of _ "put_list Runqueue ?ys s"]) (simp add: put_list_def)
qed

theorem runqueue_add_by_priority_witness:
  "\<exists>s'. runqueue_add Runqueue 2 example_run = Some (Inr ((), s')) \<and> rq_ok s' [0, 1, 2]"
  using runqueue_add_by_priority [OF example_run_ok, of 2] by auto

text \<open>
  Removing a task leaves the other tasks in their order, unlinks it, and does nothing when it is
  not in the queue.
\<close>

lemma runqueue_remove_keeps_order:
  assumes "queues_ok s rs ws"
  shows "\<exists>s'. runqueue_remove Runqueue t s = Some (Inr ((), s')) \<and>
    queues_ok s' (remove1 t rs) ws \<and> (t \<in> set rs \<longrightarrow> nrp_of s' t = None) \<and>
    (t \<notin> set rs \<longrightarrow> s' = s)"
proof -
  note d = queues_okD [OF assms]
  have "queues_ok (queued (remove1 t rs) ws s) (remove1 t rs) ws"
    using d set_remove1_subset [of t rs]
    by (intro queued_ok) (auto simp: prio.sorted_remove1)
  moreover have "t \<in> set rs \<longrightarrow> nrp_of (queued (remove1 t rs) ws s) t = None" using d(10,15) by simp
  moreover have "t \<notin> set rs \<longrightarrow> queued (remove1 t rs) ws s = s"
    using queued_id [OF d(1)] by (simp add: remove1_idem)
  ultimately show ?thesis using runqueue_remove_queued [OF d(1)] by blast
qed

lemma runqueue_remove_keeps_order_example:
  "\<exists>s'. runqueue_remove Runqueue 0 example_run = Some (Inr ((), s')) \<and> queues_ok s' [1] []"
  using runqueue_remove_keeps_order [OF example_run_queues, of 0] by auto

text \<open>
  Adding a task that is already queued loses every task behind it: \<open>runqueue_add\<close> clears the link
  of the task before it finds the task in the queue, and then only prints a warning.
\<close>

lemma runqueue_add_twice_truncates:
  assumes "rq_ok s (as @ t # bs)"
  shows "\<exists>s'. runqueue_add Runqueue t s = Some (Inr ((), s')) \<and> is_list Runqueue s' (as @ [t]) \<and>
    trace s' = trace s @ [Warn_runqueue_add]"
proof -
  have "is_list Runqueue (unlink t s) (as @ [t])" using runqueue_add_queued(2) [OF assms] .
  then show ?thesis
    unfolding runqueue_add_queued(1) [OF assms]
    by (simp add: exec is_list_def unlink_def)
qed

lemma runqueue_add_twice_truncates_example:
  "\<exists>s'. runqueue_add Runqueue 0 example_run = Some (Inr ((), s')) \<and> is_list Runqueue s' [0]"
  using runqueue_add_twice_truncates [of example_run "[]" 0 "[1]"] example_run_ok by auto

section \<open>The wait queue\<close>

text \<open>
  A task put into the wait queue stands behind the tasks that wake no later than it and before
  those that wake later, and the check for cycles the code makes never fails.
\<close>

lemma waitqueue_add_by_time:
  assumes "queues_ok s rs ws" and "t \<notin> set rs" and "t \<notin> set ws"
    and "status_of s t = OS_TASK_STATUS_WAIT"
  shows "\<exists>s'. waitqueue_add Waitqueue t s = Some (Inr ((), s')) \<and>
    queues_ok s' rs (filter (\<lambda>x. t_delay (task s x) \<le> t_delay (task s t)) ws @
      t # filter (\<lambda>x. t_delay (task s t) < t_delay (task s x)) ws)"
proof -
  note d = queues_okD [OF assms(1)]
  let ?ys = "insert_before (earlier s) t ws"
  have "?ys = filter (\<lambda>x. t_delay (task s x) \<le> t_delay (task s t)) ws @
      t # filter (\<lambda>x. t_delay (task s t) < t_delay (task s x)) ws"
    using wake.insert_before_split [OF d(6)] by (simp add: earlier_def not_less)
  moreover have "queues_ok (queued rs ?ys s) rs ?ys"
    using d assms(2-4) by (intro queued_ok) (auto simp: wake.sorted_insert_before)
  ultimately show ?thesis using waitqueue_add_queued [OF d(1) assms(2,3)] by auto
qed

lemma waitqueue_add_by_time_example:
  "\<exists>s'. waitqueue_add Waitqueue 2 (set_status OS_TASK_STATUS_WAIT 2 example_run) = Some (Inr ((), s')) \<and>
     queues_ok s' [0, 1] [2]"
proof -
  have "queues_ok (set_status OS_TASK_STATUS_WAIT 2 example_run) [0, 1] []"
    by (auto simp: queues_ok_def wq_ok_def links_ok_def rq_ok_def is_list_def higher_def set_status_def)
  from waitqueue_add_by_time [OF this, of 2] show ?thesis by simp
qed

section \<open>Cycles\<close>

text \<open>
  C25: \<open>has_cycles\<close> returns, and its answer is right, for every set of tasks closed under the links,
  whatever the links are: it says that there is a cycle just when following them never ends.
\<close>

theorem has_cycles_correct:
  assumes "finite A" and "h \<in> A" and "\<And>p q. p \<in> A \<Longrightarrow> nrp_of s p = Some q \<Longrightarrow> q \<in> A"
  shows "has_cycles (Some h) s = Some (Inr (\<not> (\<exists>xs. chain (nrp_of s) (Some h) xs), s))"
proof (cases "\<exists>xs. chain (nrp_of s) (Some h) xs")
  case True
  then obtain xs where xs: "chain (nrp_of s) (Some h) xs" by blast
  then have "xs ! 0 = h" "0 < length xs" by (cases xs; simp)+
  then have "has_cycles_loop h h s = Some False"
    using has_cycles_loop_acyclic [OF xs, of 0 0] by simp
  then show ?thesis using True by (simp add: has_cycles_def exec)
next
  case False
  then show ?thesis using has_cycles_cyclic [OF False assms] by simp
qed

definition example_cycle :: kernel where
  "example_cycle = blank_kernel\<lparr>task := (\<lambda>x.
     if x = 0 then example_task OS_TASK_STATUS_WAIT 0x20 (Some 1)
     else example_task OS_TASK_STATUS_WAIT 0x10 (Some 0))\<rparr>"

theorem has_cycles_correct_witness:
  "\<exists>b. has_cycles (Some 0) example_cycle = Some (Inr (b, example_cycle))"
proof -
  have "q \<in> {0, 1}" if "p \<in> {0, 1}" "nrp_of example_cycle p = Some q" for p q
    using that by (auto simp: example_cycle_def split: if_splits)
  with has_cycles_correct [of "{0, 1}" 0 example_cycle] show ?thesis by blast
qed

section \<open>The priority check\<close>

fun order_events :: "kernel \<Rightarrow> os_priority_t \<Rightarrow> task_ptr list \<Rightarrow> event list" where
  "order_events s p [] = []"
| "order_events s p (x # xs) =
     (if os_task_status_is_running (status_of s x) then [] else [Scheduler_error_status x]) @
     (if prio_of s x \<le> p then [] else [Scheduler_error_priority x]) @
     order_events s (prio_of s x) xs"

lemma priority_check_order_events:
  assumes "chain (nrp_of s) p xs" and "\<forall>x\<in>set xs. prio_of s x \<le> 0xff"
  shows "priority_check_order pr p s =
    Some (Inr ((), s\<lparr>trace := trace s @ order_events s (ucast pr) xs\<rparr>))"
  using assms
proof (induction xs arbitrary: p pr s)
  case Nil
  then show ?case by (subst priority_check_order.simps) (simp add: exec)
next
  case (Cons x xs)
  let ?e = "(if os_task_status_is_running (status_of s x) then [] else [Scheduler_error_status x]) @
     (if prio_of s x \<le> ucast pr then [] else [Scheduler_error_priority x])"
  let ?s = "s\<lparr>trace := trace s @ ?e\<rparr>"
  have ev: "order_events ?s q ys = order_events s q ys" for q ys
    by (induction ys arbitrary: q) simp_all
  have "priority_check_order (ucast (prio_of s x)) (nrp_of s x) ?s =
      Some (Inr ((), ?s\<lparr>trace := trace ?s @ order_events ?s (ucast (ucast (prio_of s x) :: u8)) xs\<rparr>))"
    by (rule Cons.IH) (use Cons.prems in auto)
  moreover have "ucast (ucast (prio_of s x) :: u8) = prio_of s x"
    using Cons.prems by (simp add: ucast_priority)
  ultimately have ih: "priority_check_order (ucast (prio_of s x)) (nrp_of s x) ?s =
      Some (Inr ((), s\<lparr>trace := trace s @ order_events s (ucast pr) (x # xs)\<rparr>))"
    by (simp add: ev)
  have px: "p = Some x" using Cons.prems(1) by simp
  have run: "status_of s x = OS_TASK_STATUS_ACTIVE \<or> status_of s x = OS_TASK_STATUS_IDLE \<longleftrightarrow>
      os_task_status_is_running (status_of s x)"
    by (simp add: os_task_status_is_running_def)
  have tr: "s\<lparr>trace := trace s\<rparr> = s" by simp
  show ?case
    unfolding px priority_check_order.simps [of pr "Some x" s] option.case run
    using ih
    by (cases "os_task_status_is_running (status_of s x)"; cases "prio_of s x \<le> ucast pr")
      (simp_all add: exec del: order_events.simps)
qed

lemma order_events_Nil:
  "order_events s p xs = [] \<longleftrightarrow>
     (\<forall>x\<in>set xs. os_task_status_is_running (status_of s x) \<and> prio_of s x \<le> p) \<and>
     sorted_wrt (\<lambda>x y. \<not> higher s y x) xs"
proof (induction xs arbitrary: p)
  case (Cons x xs)
  show ?case
    using Cons [of "prio_of s x"]
    by (auto simp: higher_def not_less intro: order_trans)
qed simp



section \<open>The status of a task\<close>

text \<open>
  C15: every change of status the queues allow returns, keeps both queues in order, moves the task to
  the place its new status demands, and calls the status hook with the old status exactly
  when a hook is set.
\<close>

theorem status_set_keeps_queues:
  assumes "queues_ok s rs ws" and "can_become s rs ws t st"
  shows "\<exists>s'. osi_task_status_set t st s = Some (Inr (os_task_status_num st, s')) \<and>
    queues_ok s' (next_run s t st rs) (next_wait s t st ws) \<and>
    status_of s' t = st \<and> (\<forall>x. x \<noteq> t \<longrightarrow> status_of s' x = status_of s x) \<and>
    trace s' = trace s @ (if status_hook s \<noteq> 0 then [Status_hook t (status_of s t)] else [])"
  using osi_task_status_set_eq [OF assms] after_status_ok [OF assms]
  by (intro exI [of _ "after_status s rs ws t st"])
    (simp add: after_status_def, simp add: hooked_def set_status_def)

theorem status_set_keeps_queues_witness:
  "\<exists>s'. osi_task_status_set 1 OS_TASK_STATUS_WAIT example_run = Some (Inr (3, s')) \<and>
     queues_ok s' [0] [1]"
  using status_set_keeps_queues [OF example_run_queues, of 1 OS_TASK_STATUS_WAIT]
  by (auto simp: can_become_def next_run_def next_wait_def)

section \<open>Blocked lists\<close>

text \<open>
  C27: a blocked list is a queue: appending puts a task that is in no list at the end, removing takes
  a task out wherever it stands and says whether it was there, and asking for a task looks
  through the whole list.
\<close>

theorem blocked_list_is_queue:
  assumes "is_blocked b s xs"
  shows "(t \<notin> set xs \<longrightarrow> nblocked_of s t = None \<longrightarrow>
      (\<exists>s'. blocked_append b t s = Some (Inr ((), s')) \<and> is_blocked b s' (xs @ [t]))) \<and>
    (\<exists>s'. blocked_remove b t s = Some (Inr (t \<in> set xs, s')) \<and> is_blocked b s' (remove1 t xs) \<and>
      (t \<in> set xs \<longrightarrow> nblocked_of s' t = None)) \<and>
    blocked_contains b t s = Some (Inr (t \<in> set xs, s))"
proof (intro conjI impI)
  show "\<exists>s'. blocked_append b t s = Some (Inr ((), s')) \<and> is_blocked b s' (xs @ [t])"
    if "t \<notin> set xs" "nblocked_of s t = None"
    using blocked_append_eq [OF assms that] is_blocked_distinct [OF assms] that(1)
    by (auto intro!: is_blocked_block_list)
  show "\<exists>s'. blocked_remove b t s = Some (Inr (t \<in> set xs, s')) \<and> is_blocked b s' (remove1 t xs) \<and>
      (t \<in> set xs \<longrightarrow> nblocked_of s' t = None)"
    using blocked_remove_eq [OF assms, of t] is_blocked_leave [OF assms, of t]
    by (auto simp: leave_list_def)
  show "blocked_contains b t s = Some (Inr (t \<in> set xs, s))" by (rule blocked_contains_eq [OF assms])
qed

theorem blocked_list_is_queue_witness:
  "\<exists>s'. blocked_append (Mutex_blocked 0) 5 blank_kernel = Some (Inr ((), s')) \<and>
     is_blocked (Mutex_blocked 0) s' [5]"
  using blocked_list_is_queue [of "Mutex_blocked 0" blank_kernel "[]" 5]
  by (simp add: is_blocked_def blank_kernel_def blank_mutex_def blank_blocked_def)

end
