(* ===== verification/Printf.thy ===== *)
theory Printf
  imports Prelude Complex_Main
begin

unbundle bit_operations_syntax

text \<open>
  The formatted output of \<open>src/src/printf.cpp\<close>, which the kernel prints with on the devices: flags,
  width, precision and length of a directive, the conversion of integers, characters, strings
  and floating point numbers, and the output functions.  A string is the list of its
  characters up to the terminating NUL; \<open>size_t\<close>, \<open>long\<close>, \<open>ptrdiff_t\<close> and pointers have 32 bits,
  \<open>long long\<close> and \<open>intmax_t\<close> 64, and \<open>char\<close> has no sign, as on the devices.
\<close>

type_synonym u64 = "64 word"

section \<open>Flags, arguments, output functions\<close>

abbreviation (input) PRINTF_NTOA_BUFFER_SIZE :: nat where "PRINTF_NTOA_BUFFER_SIZE \<equiv> 32"
abbreviation (input) PRINTF_FTOA_BUFFER_SIZE :: nat where "PRINTF_FTOA_BUFFER_SIZE \<equiv> 32"

abbreviation (input) FLAGS_ZEROPAD :: u32 where "FLAGS_ZEROPAD \<equiv> 0x001"
abbreviation (input) FLAGS_LEFT :: u32 where "FLAGS_LEFT \<equiv> 0x002"
abbreviation (input) FLAGS_PLUS :: u32 where "FLAGS_PLUS \<equiv> 0x004"
abbreviation (input) FLAGS_SPACE :: u32 where "FLAGS_SPACE \<equiv> 0x008"
abbreviation (input) FLAGS_HASH :: u32 where "FLAGS_HASH \<equiv> 0x010"
abbreviation (input) FLAGS_UPPERCASE :: u32 where "FLAGS_UPPERCASE \<equiv> 0x020"
abbreviation (input) FLAGS_CHAR :: u32 where "FLAGS_CHAR \<equiv> 0x040"
abbreviation (input) FLAGS_SHORT :: u32 where "FLAGS_SHORT \<equiv> 0x080"
abbreviation (input) FLAGS_LONG :: u32 where "FLAGS_LONG \<equiv> 0x100"
abbreviation (input) FLAGS_LONG_LONG :: u32 where "FLAGS_LONG_LONG \<equiv> 0x200"
abbreviation (input) FLAGS_PRECISION :: u32 where "FLAGS_PRECISION \<equiv> 0x400"

definition has :: "u32 \<Rightarrow> u32 \<Rightarrow> bool" where
  "has flags f \<longleftrightarrow> flags AND f \<noteq> 0"

text \<open>
  The arguments behind the format: a 32-bit integer or pointer, a 64-bit integer, a finite
  \<open>double\<close>, a pointer to a string.  \<open>va_arg\<close> with another type than the argument's is an error.
\<close>

datatype va = Word u32 | Dword u64 | Double rat | Text string

fun va_word :: "va list \<Rightarrow> ('s, u32 \<times> va list) comp" where
  "va_word (Word w # va) = ret (w, va)"
| "va_word _ = fail Wrong_argument"

fun va_dword :: "va list \<Rightarrow> ('s, u64 \<times> va list) comp" where
  "va_dword (Dword w # va) = ret (w, va)"
| "va_dword _ = fail Wrong_argument"

fun va_double :: "va list \<Rightarrow> ('s, rat \<times> va list) comp" where
  "va_double (Double d # va) = ret (d, va)"
| "va_double _ = fail Wrong_argument"

fun va_text :: "va list \<Rightarrow> ('s, string \<times> va list) comp" where
  "va_text (Text p # va) = ret (p, va)"
| "va_text _ = fail Wrong_argument"

text \<open>
  \<open>out_fct_type\<close>: a character, the index it goes to and the largest index; the buffer is the state
  of the computation, \<open>None\<close> for \<open>NULL\<close>.
\<close>

type_synonym 's out_fct_type = "char \<Rightarrow> u32 \<Rightarrow> u32 \<Rightarrow> ('s, unit) comp"

definition out_buffer :: "string option out_fct_type" where
  "out_buffer character idx maxlen buffer =
     (if idx < maxlen
      then case buffer of
             None \<Rightarrow> fail Null_pointer buffer
           | Some b \<Rightarrow>
               if unat idx < length b then Some (Inr ((), Some (b[unat idx := character])))
               else fail Out_of_bounds buffer
      else ret () buffer)"

definition out_null :: "'s out_fct_type" where
  "out_null character idx maxlen = ret ()"

definition out_fct :: "(char \<Rightarrow> ('s, unit) comp) \<Rightarrow> 's out_fct_type" where
  "out_fct fct character idx maxlen = fct character"

section \<open>Characters and digits\<close>

abbreviation NUL :: char where "NUL \<equiv> CHR 0x00"

definition char_code :: "char \<Rightarrow> nat" where
  "char_code c = of_char c"

fun strlen :: "string \<Rightarrow> u32" where
  "strlen [] = 0"
| "strlen (c # str) = (if c = NUL then 0 else strlen str + 1)"

definition is_digit :: "char \<Rightarrow> bool" where
  "is_digit ch \<longleftrightarrow> char_code ch \<ge> char_code (CHR ''0'') \<and> char_code ch \<le> char_code (CHR ''9'')"

fun atoi :: "u32 \<Rightarrow> string \<Rightarrow> u32 \<times> string" where
  "atoi i [] = (i, [])"
| "atoi i (c # str) =
     (if is_digit c then atoi (i * 10 + of_nat (char_code c - char_code (CHR ''0''))) str
      else (i, c # str))"

definition digit_char :: "u32 \<Rightarrow> nat \<Rightarrow> char" where
  "digit_char flags digit =
     (if digit < 10 then char_of (char_code (CHR ''0'') + digit)
      else char_of (char_code (if has flags FLAGS_UPPERCASE then CHR ''A'' else CHR ''a'') + digit - 10))"

section \<open>Integers\<close>

text \<open>The conversion buffer is the list of the characters it holds; \<open>len\<close> is its length.\<close>

function pad_zeros :: "nat \<Rightarrow> nat \<Rightarrow> string \<Rightarrow> string" where
  "pad_zeros cap n buf =
     (if length buf < n \<and> length buf < cap then pad_zeros cap n (buf @ ''0'') else buf)"
  by auto

termination by (relation "measure (\<lambda>(cap, n, buf). cap - length buf)") auto

definition push_char :: "nat \<Rightarrow> char \<Rightarrow> string \<Rightarrow> string" where
  "push_char cap c buf = (if length buf < cap then buf @ [c] else buf)"

definition put_hash :: "string \<Rightarrow> u32 \<Rightarrow> u32 \<Rightarrow> u32 \<Rightarrow> u32 \<Rightarrow> string" where
  "put_hash buf base prec width flags =
     (let buf = (if (length buf = unat prec \<or> length buf = unat width) \<and> length buf > 0
                 then let buf = butlast buf in
                        if base = 16 \<and> length buf > 0 then butlast buf else buf
                 else buf);
          buf = (if base = 16 \<and> \<not> has flags FLAGS_UPPERCASE
                 then push_char PRINTF_NTOA_BUFFER_SIZE (CHR ''x'') buf else buf);
          buf = (if base = 16 \<and> has flags FLAGS_UPPERCASE
                 then push_char PRINTF_NTOA_BUFFER_SIZE (CHR ''X'') buf else buf)
      in push_char PRINTF_NTOA_BUFFER_SIZE (CHR ''0'') buf)"

text \<open>
  The sign replaces a leading zero when the number fills the width.  A buffer that is empty then,
  of length 0 for a width of 0, gets a length below zero, and the characters read from it are
  not there: \<open>None\<close>.
\<close>

definition put_sign :: "nat \<Rightarrow> string \<Rightarrow> bool \<Rightarrow> u32 \<Rightarrow> u32 \<Rightarrow> string option" where
  "put_sign cap buf negative width flags =
     (let full = (length buf = unat width \<and> (negative \<or> has flags FLAGS_PLUS \<or> has flags FLAGS_SPACE));
          signed = (if full then butlast buf else buf)
      in if full \<and> buf = [] then None
         else if negative then Some (push_char cap (CHR ''-'') signed)
         else if has flags FLAGS_PLUS then Some (push_char cap (CHR ''+'') signed)
         else if has flags FLAGS_SPACE then Some (push_char cap (CHR '' '') signed)
         else Some signed)"

text \<open>A counter that runs up to \<open>width\<close> comes nearer to it.\<close>

lemma unat_diff_step:
  fixes i width :: "'a::len word"
  assumes "i < width"
  shows "unat (width - (i + 1)) < unat (width - i)"
proof -
  have "width - (i + 1) = (width - i) - 1" by simp
  moreover have "width - i \<noteq> 0" using assms by auto
  ultimately show ?thesis by (metis measure_unat)
qed

text \<open>The loops that print: spaces from \<open>i\<close> up to \<open>width\<close>, characters, spaces behind them.\<close>

function spaces :: "'s out_fct_type \<Rightarrow> u32 \<Rightarrow> u32 \<Rightarrow> u32 \<Rightarrow> u32 \<Rightarrow> ('s, u32) comp" where
  "spaces out maxlen width i idx =
     (if i < width then bind (out (CHR '' '') idx maxlen) (\<lambda>_. spaces out maxlen width (i + 1) (idx + 1))
      else ret idx)"
  by auto

termination by (relation "measure (\<lambda>(out, maxlen, width, i, idx). unat (width - i))") (auto intro: unat_diff_step)

fun out_chars :: "'s out_fct_type \<Rightarrow> u32 \<Rightarrow> string \<Rightarrow> u32 \<Rightarrow> ('s, u32) comp" where
  "out_chars out maxlen [] idx = ret idx"
| "out_chars out maxlen (c # cs) idx = bind (out c idx maxlen) (\<lambda>_. out_chars out maxlen cs (idx + 1))"

function spaces_behind :: "'s out_fct_type \<Rightarrow> u32 \<Rightarrow> u32 \<Rightarrow> u32 \<Rightarrow> u32 \<Rightarrow> ('s, u32) comp" where
  "spaces_behind out maxlen width start_idx idx =
     (if idx - start_idx < width
      then bind (out (CHR '' '') idx maxlen) (\<lambda>_. spaces_behind out maxlen width start_idx (idx + 1))
      else ret idx)"
  by auto

termination
proof (relation "measure (\<lambda>(out, maxlen, width, start_idx, idx). unat (width - (idx - start_idx)))")
  fix maxlen width start_idx idx x and out :: "'s out_fct_type"
  assume "(idx :: u32) - start_idx < width"
  then have "unat (width - (idx - start_idx + 1)) < unat (width - (idx - start_idx))"
    by (rule unat_diff_step)
  moreover have "width - (idx - start_idx + 1) = width - (idx + 1 - start_idx)" by simp
  ultimately show "((out, maxlen, width, start_idx, idx + 1), out, maxlen, width, start_idx, idx)
      \<in> measure (\<lambda>(out, maxlen, width, start_idx, idx). unat (width - (idx - start_idx)))"
    by simp
qed simp

declare pad_zeros.simps [simp del] spaces.simps [simp del] spaces_behind.simps [simp del]

text \<open>
  What both conversions end with: padding in front, the buffer backwards, padding behind.  A
  length below zero is above every width, so that the first character is read at once.
\<close>

fun out_rev ::
  "'s out_fct_type \<Rightarrow> u32 \<Rightarrow> u32 \<Rightarrow> string option \<Rightarrow> u32 \<Rightarrow> u32 \<Rightarrow> u32 \<Rightarrow> ('s, u32) comp" where
  "out_rev out idx maxlen None start_idx width flags = fail Bad_read"
| "out_rev out idx maxlen (Some buf) start_idx width flags =
     bind
       (if \<not> has flags FLAGS_LEFT \<and> \<not> has flags FLAGS_ZEROPAD
        then spaces out maxlen width (of_nat (length buf)) idx else ret idx)
       (\<lambda>idx. bind (out_chars out maxlen (rev buf) idx)
         (\<lambda>idx. if has flags FLAGS_LEFT then spaces_behind out maxlen width start_idx idx else ret idx))"

definition ntoa_format ::
  "'s out_fct_type \<Rightarrow> u32 \<Rightarrow> u32 \<Rightarrow> string \<Rightarrow> bool \<Rightarrow> u32 \<Rightarrow> u32 \<Rightarrow> u32 \<Rightarrow> u32 \<Rightarrow> ('s, u32) comp"
  where
  "ntoa_format out idx maxlen buf negative base prec width flags =
     (let buf = (if \<not> has flags FLAGS_LEFT then pad_zeros PRINTF_NTOA_BUFFER_SIZE (unat prec) buf else buf);
          buf = (if \<not> has flags FLAGS_LEFT \<and> has flags FLAGS_ZEROPAD
                 then pad_zeros PRINTF_NTOA_BUFFER_SIZE (unat width) buf else buf);
          buf = (if has flags FLAGS_HASH then put_hash buf base prec width flags else buf);
          signed = put_sign PRINTF_NTOA_BUFFER_SIZE buf negative width flags
      in out_rev out idx maxlen signed idx width flags)"

function ntoa_digits :: "u32 \<Rightarrow> 'a::len word \<Rightarrow> 'a word \<Rightarrow> string \<Rightarrow> string" where
  "ntoa_digits flags value base buf =
     (let buf = buf @ [digit_char flags (unat (value mod base))]; value = value div base
      in if value \<noteq> 0 \<and> length buf < PRINTF_NTOA_BUFFER_SIZE then ntoa_digits flags value base buf
         else buf)"
  by auto

termination
  by (relation "measure (\<lambda>(flags, value, base, buf). PRINTF_NTOA_BUFFER_SIZE - length buf)") auto

declare ntoa_digits.simps [simp del]

definition ntoa_long ::
  "'s out_fct_type \<Rightarrow> u32 \<Rightarrow> u32 \<Rightarrow> u32 \<Rightarrow> bool \<Rightarrow> u32 \<Rightarrow> u32 \<Rightarrow> u32 \<Rightarrow> u32 \<Rightarrow> ('s, u32) comp" where
  "ntoa_long out idx maxlen value negative base prec width flags =
     ntoa_format out idx maxlen
       (if \<not> has flags FLAGS_PRECISION \<or> value \<noteq> 0 then ntoa_digits flags value base [] else [])
       negative base prec width flags"

definition ntoa_long_long ::
  "'s out_fct_type \<Rightarrow> u32 \<Rightarrow> u32 \<Rightarrow> u64 \<Rightarrow> bool \<Rightarrow> u64 \<Rightarrow> u32 \<Rightarrow> u32 \<Rightarrow> u32 \<Rightarrow> ('s, u32) comp" where
  "ntoa_long_long out idx maxlen value negative base prec width flags =
     ntoa_format out idx maxlen
       (if \<not> has flags FLAGS_PRECISION \<or> value \<noteq> 0 then ntoa_digits flags value base [] else [])
       negative (ucast base) prec width flags"

section \<open>Floating point numbers\<close>

text \<open>
  A finite \<open>double\<close> is the rational number it stands for.  Of the operations of \<open>_ftoa\<close> only the
  multiplication by the power of ten is inexact: its result is rounded to 53 significant bits,
  to the even neighbour in the middle.  \<open>binade q\<close> is the exponent of the leading bit of \<open>q\<close>.
\<close>

definition pow2 :: "int \<Rightarrow> rat" where
  "pow2 e = (if e \<ge> 0 then 2 ^ nat e else 1 / 2 ^ nat (- e))"

function binade_up :: "rat \<Rightarrow> int" where
  "binade_up q = (if q < 2 then 0 else binade_up (q / 2) + 1)"
  by auto

termination by (relation "measure (\<lambda>q. nat \<lfloor>q\<rfloor>)") (auto, linarith)

lemma half_floor: "1 < x \<Longrightarrow> \<lfloor>x / 2\<rfloor> < \<lfloor>x\<rfloor>" for x :: rat
proof -
  assume "1 < x"
  then have "1 \<le> \<lfloor>x\<rfloor>" by (simp add: le_floor_iff)
  then show "\<lfloor>x / 2\<rfloor> < \<lfloor>x\<rfloor>" by linarith
qed

function binade_down :: "rat \<Rightarrow> int" where
  "binade_down q = (if q \<le> 0 \<or> 1 \<le> q then 0 else binade_down (2 * q) - 1)"
  by auto

termination
proof (relation "measure (\<lambda>q. nat \<lfloor>1 / q\<rfloor>)")
  fix q :: rat assume "\<not> (q \<le> 0 \<or> 1 \<le> q)"
  then have q: "1 < 1 / q" by simp
  have "\<lfloor>1 / (2 * q)\<rfloor> < \<lfloor>1 / q\<rfloor>" using half_floor [OF q] by (simp add: mult.commute)
  moreover have "0 < \<lfloor>1 / q\<rfloor>" using q by linarith
  ultimately show "(2 * q, q) \<in> measure (\<lambda>q. nat \<lfloor>1 / q\<rfloor>)" by simp
qed simp

declare binade_up.simps [simp del] binade_down.simps [simp del]

definition binade :: "rat \<Rightarrow> int" where
  "binade q = (if 1 \<le> q then binade_up q else binade_down q)"

definition round_half_even :: "rat \<Rightarrow> int" where
  "round_half_even q =
     (let f = \<lfloor>q\<rfloor>; r = q - of_int f
      in if r < 1 / 2 then f else if r > 1 / 2 then f + 1 else if even f then f else f + 1)"

definition round_double :: "rat \<Rightarrow> rat" where
  "round_double q =
     (if q = 0 then 0
      else let u = pow2 (binade q - 52) in of_int (round_half_even (q / u)) * u)"

definition pow10 :: "rat list" where
  "pow10 = [1, 10, 100, 1000, 10000, 100000, 1000000, 10000000, 100000000, 1000000000]"

function limit_precision :: "u32 \<Rightarrow> string \<Rightarrow> string \<times> u32" where
  "limit_precision prec buf =
     (if length buf < PRINTF_FTOA_BUFFER_SIZE \<and> prec > 9 then limit_precision (prec - 1) (buf @ ''0'')
      else (buf, prec))"
  by auto

termination by (relation "measure (\<lambda>(prec, buf). PRINTF_FTOA_BUFFER_SIZE - length buf)") auto

function ftoa_fraction :: "u32 \<Rightarrow> u32 \<Rightarrow> string \<Rightarrow> string \<times> u32" where
  "ftoa_fraction places fract buf =
     (if length buf < PRINTF_FTOA_BUFFER_SIZE
      then let places = places - 1; buf = buf @ [char_of (48 + unat (fract mod 10))]; fract = fract div 10
           in if fract = 0 then (buf, places) else ftoa_fraction places fract buf
      else (buf, places))"
  by auto

termination by (relation "measure (\<lambda>(places, fract, buf). PRINTF_FTOA_BUFFER_SIZE - length buf)") auto

function ftoa_whole :: "int \<Rightarrow> string \<Rightarrow> string" where
  "ftoa_whole whole buf =
     (if length buf < PRINTF_FTOA_BUFFER_SIZE
      then let buf = buf @ [char_of (48 + nat (whole mod 10))]; whole = whole div 10
           in if whole = 0 then buf else ftoa_whole whole buf
      else buf)"
  by auto

termination by (relation "measure (\<lambda>(whole, buf). PRINTF_FTOA_BUFFER_SIZE - length buf)") auto

declare limit_precision.simps [simp del] ftoa_fraction.simps [simp del] ftoa_whole.simps [simp del]

text \<open>The fraction as an integer of \<open>prec\<close> digits, and the whole part, which it may round up.\<close>

definition ftoa_round :: "rat \<Rightarrow> rat \<Rightarrow> u32 \<times> int" where
  "ftoa_round value scale =
     (let whole = \<lfloor>value\<rfloor>; tmp = round_double ((value - of_int whole) * scale);
          fract = (of_int \<lfloor>tmp\<rfloor> :: u32); diff = tmp - of_int (uint fract)
      in if diff > 1 / 2
         then let fract = fract + 1
              in if of_int (uint fract) \<ge> scale then (0, whole + 1) else (fract, whole)
         else if diff = 1 / 2 \<and> (fract = 0 \<or> odd (uint fract)) then (fract + 1, whole)
         else (fract, whole))"

definition ftoa_digits :: "rat \<Rightarrow> u32 \<Rightarrow> u32 \<Rightarrow> int \<Rightarrow> string \<Rightarrow> string" where
  "ftoa_digits value prec fract whole buf =
     (if prec = 0
      then let diff = value - of_int whole;
               whole = (if diff > 1 / 2 then whole + 1
                        else if diff = 1 / 2 \<and> odd whole then whole + 1 else whole)
           in ftoa_whole whole buf
      else let (buf, places) = ftoa_fraction prec fract buf;
               buf = pad_zeros PRINTF_FTOA_BUFFER_SIZE (length buf + unat places) buf;
               buf = push_char PRINTF_FTOA_BUFFER_SIZE (CHR ''.'') buf
           in ftoa_whole whole buf)"

definition ftoa ::
  "'s out_fct_type \<Rightarrow> u32 \<Rightarrow> u32 \<Rightarrow> rat \<Rightarrow> u32 \<Rightarrow> u32 \<Rightarrow> u32 \<Rightarrow> ('s, u32) comp" where
  "ftoa out idx maxlen value prec width flags =
     (let negative = value < 0; value = (if negative then 0 - value else value);
          prec = (if \<not> has flags FLAGS_PRECISION then 6 else prec);
          (buf, prec) = limit_precision prec []
      in if \<not> unat prec < length pow10 then fail Bad_read
         else
           let (fract, whole) = ftoa_round value (pow10 ! unat prec)
           in if value > 0x7FFFFFFF then ret 0
              else
                let buf = ftoa_digits value prec fract whole buf;
                    buf = (if \<not> has flags FLAGS_LEFT \<and> has flags FLAGS_ZEROPAD
                           then pad_zeros PRINTF_FTOA_BUFFER_SIZE (unat width) buf else buf);
                    signed = put_sign PRINTF_FTOA_BUFFER_SIZE buf negative width flags
                in out_rev out idx maxlen signed 0 width flags)"

section \<open>Directives\<close>

text \<open>\<open>*format\<close>, and \<open>format++\<close>, which must not leave the string.\<close>

fun current :: "string \<Rightarrow> char" where
  "current [] = NUL"
| "current (c # format) = c"

fun advance :: "string \<Rightarrow> ('s, string) comp" where
  "advance [] = fail Bad_read"
| "advance (c # format) = ret format"

fun eval_flags :: "u32 \<Rightarrow> string \<Rightarrow> u32 \<times> string" where
  "eval_flags flags [] = (flags, [])"
| "eval_flags flags (c # format) =
     (if c = CHR ''0'' then eval_flags (flags OR FLAGS_ZEROPAD) format
      else if c = CHR ''-'' then eval_flags (flags OR FLAGS_LEFT) format
      else if c = CHR ''+'' then eval_flags (flags OR FLAGS_PLUS) format
      else if c = CHR '' '' then eval_flags (flags OR FLAGS_SPACE) format
      else if c = CHR ''#'' then eval_flags (flags OR FLAGS_HASH) format
      else (flags, c # format))"

definition eval_width :: "u32 \<Rightarrow> string \<Rightarrow> va list \<Rightarrow> ('s, u32 \<times> u32 \<times> string \<times> va list) comp" where
  "eval_width flags format va =
     (if is_digit (current format)
      then let (width, format) = atoi 0 format in ret (flags, width, format, va)
      else if current format = CHR ''*''
      then bind (va_word va) (\<lambda>(w, va).
             if w <s 0 then ret (flags OR FLAGS_LEFT, - w, tl format, va)
             else ret (flags, w, tl format, va))
      else ret (flags, 0, format, va))"

definition eval_precision ::
  "u32 \<Rightarrow> string \<Rightarrow> va list \<Rightarrow> ('s, u32 \<times> u32 \<times> string \<times> va list) comp" where
  "eval_precision flags format va =
     (if current format = CHR ''.''
      then let flags = flags OR FLAGS_PRECISION; format = tl format
           in if is_digit (current format)
              then let (precision, format) = atoi 0 format in ret (flags, precision, format, va)
              else if current format = CHR ''*''
              then bind (va_word va) (\<lambda>(w, va). ret (flags, w, tl format, va))
              else ret (flags, 0, format, va)
      else ret (flags, 0, format, va))"

text \<open>
  The length field.  \<open>ptrdiff_t\<close> and \<open>size_t\<close> are as wide as \<open>long\<close>, \<open>intmax_t\<close> is wider.
\<close>

definition eval_length :: "u32 \<Rightarrow> string \<Rightarrow> u32 \<times> string" where
  "eval_length flags format =
     (if current format = CHR ''l''
      then let flags = flags OR FLAGS_LONG; format = tl format
           in if current format = CHR ''l'' then (flags OR FLAGS_LONG_LONG, tl format) else (flags, format)
      else if current format = CHR ''h''
      then let flags = flags OR FLAGS_SHORT; format = tl format
           in if current format = CHR ''h'' then (flags OR FLAGS_CHAR, tl format) else (flags, format)
      else if current format = CHR ''t'' then (flags OR FLAGS_LONG, tl format)
      else if current format = CHR ''j'' then (flags OR FLAGS_LONG_LONG, tl format)
      else if current format = CHR ''z'' then (flags OR FLAGS_LONG, tl format)
      else (flags, format))"

definition print_signed ::
  "'s out_fct_type \<Rightarrow> u32 \<Rightarrow> u32 \<Rightarrow> u32 \<Rightarrow> u32 \<Rightarrow> u32 \<Rightarrow> u32 \<Rightarrow> va list \<Rightarrow> ('s, u32 \<times> va list) comp" where
  "print_signed out idx maxlen base precision width flags va =
     (if has flags FLAGS_LONG_LONG
      then bind (va_dword va) (\<lambda>(value, va).
             bind (ntoa_long_long out idx maxlen (if 0 <s value then value else 0 - value) (value <s 0)
                     (ucast base) precision width flags) (\<lambda>idx. ret (idx, va)))
      else if has flags FLAGS_LONG
      then bind (va_word va) (\<lambda>(value, va).
             bind (ntoa_long out idx maxlen (if 0 <s value then value else 0 - value) (value <s 0)
                     base precision width flags) (\<lambda>idx. ret (idx, va)))
      else bind (va_word va) (\<lambda>(arg, va).
             let value = (if has flags FLAGS_CHAR then ucast (ucast arg :: 8 word)
                          else if has flags FLAGS_SHORT then scast (ucast arg :: 16 word)
                          else arg)
             in bind (ntoa_long out idx maxlen (if 0 <s value then value else 0 - value) (value <s 0)
                        base precision width flags) (\<lambda>idx. ret (idx, va))))"

definition print_unsigned ::
  "'s out_fct_type \<Rightarrow> u32 \<Rightarrow> u32 \<Rightarrow> u32 \<Rightarrow> u32 \<Rightarrow> u32 \<Rightarrow> u32 \<Rightarrow> va list \<Rightarrow> ('s, u32 \<times> va list) comp" where
  "print_unsigned out idx maxlen base precision width flags va =
     (if has flags FLAGS_LONG_LONG
      then bind (va_dword va) (\<lambda>(value, va).
             bind (ntoa_long_long out idx maxlen value False (ucast base) precision width flags)
               (\<lambda>idx. ret (idx, va)))
      else if has flags FLAGS_LONG
      then bind (va_word va) (\<lambda>(value, va).
             bind (ntoa_long out idx maxlen value False base precision width flags) (\<lambda>idx. ret (idx, va)))
      else bind (va_word va) (\<lambda>(arg, va).
             let value = (if has flags FLAGS_CHAR then ucast (ucast arg :: 8 word)
                          else if has flags FLAGS_SHORT then ucast (ucast arg :: 16 word)
                          else arg)
             in bind (ntoa_long out idx maxlen value False base precision width flags)
                  (\<lambda>idx. ret (idx, va))))"

definition print_integer ::
  "'s out_fct_type \<Rightarrow> u32 \<Rightarrow> u32 \<Rightarrow> char \<Rightarrow> u32 \<Rightarrow> u32 \<Rightarrow> u32 \<Rightarrow> va list \<Rightarrow> ('s, u32 \<times> va list) comp" where
  "print_integer out idx maxlen c precision width flags va =
     (let (base, flags) =
            (if c = CHR ''x'' \<or> c = CHR ''X'' then (16, flags)
             else if c = CHR ''o'' then (8, flags)
             else if c = CHR ''b'' then (2, flags AND NOT FLAGS_HASH)
             else (10, flags AND NOT FLAGS_HASH));
          flags = (if c = CHR ''X'' then flags OR FLAGS_UPPERCASE else flags);
          flags = (if c \<noteq> CHR ''i'' \<and> c \<noteq> CHR ''d'' then flags AND NOT (FLAGS_PLUS OR FLAGS_SPACE) else flags)
      in if c = CHR ''i'' \<or> c = CHR ''d''
         then print_signed out idx maxlen base precision width flags va
         else print_unsigned out idx maxlen base precision width flags va)"

text \<open>
  Characters and strings.  \<open>l\<close> counts what the directive prints; of the two padding loops at
  most one runs.
\<close>

definition print_char ::
  "'s out_fct_type \<Rightarrow> u32 \<Rightarrow> u32 \<Rightarrow> u32 \<Rightarrow> u32 \<Rightarrow> va list \<Rightarrow> ('s, u32 \<times> va list) comp" where
  "print_char out idx maxlen width flags va =
     bind (if \<not> has flags FLAGS_LEFT then spaces out maxlen width 1 idx else ret idx) (\<lambda>idx.
     bind (va_word va) (\<lambda>(c, va).
     bind (out (char_of (unat c)) idx maxlen) (\<lambda>_.
     bind (if has flags FLAGS_LEFT then spaces out maxlen width 1 (idx + 1) else ret (idx + 1)) (\<lambda>idx.
       ret (idx, va)))))"

fun out_string :: "'s out_fct_type \<Rightarrow> u32 \<Rightarrow> bool \<Rightarrow> u32 \<Rightarrow> string \<Rightarrow> u32 \<Rightarrow> ('s, u32) comp" where
  "out_string out maxlen limited precision [] idx = ret idx"
| "out_string out maxlen limited precision (c # p) idx =
     (if c \<noteq> NUL \<and> (\<not> limited \<or> precision \<noteq> 0)
      then bind (out c idx maxlen) (\<lambda>_. out_string out maxlen limited (precision - 1) p (idx + 1))
      else ret idx)"

definition print_string ::
  "'s out_fct_type \<Rightarrow> u32 \<Rightarrow> u32 \<Rightarrow> u32 \<Rightarrow> u32 \<Rightarrow> u32 \<Rightarrow> va list \<Rightarrow> ('s, u32 \<times> va list) comp" where
  "print_string out idx maxlen precision width flags va =
     bind (va_text va) (\<lambda>(p, va).
       let l = strlen p;
           l = (if has flags FLAGS_PRECISION then (if l < precision then l else precision) else l)
       in
         bind (if \<not> has flags FLAGS_LEFT then spaces out maxlen width l idx else ret idx) (\<lambda>idx.
         bind (out_string out maxlen (has flags FLAGS_PRECISION) precision p idx) (\<lambda>idx.
         bind (if has flags FLAGS_LEFT then spaces out maxlen width l idx else ret idx) (\<lambda>idx.
           ret (idx, va)))))"

definition print_pointer ::
  "'s out_fct_type \<Rightarrow> u32 \<Rightarrow> u32 \<Rightarrow> u32 \<Rightarrow> u32 \<Rightarrow> va list \<Rightarrow> ('s, u32 \<times> va list) comp" where
  "print_pointer out idx maxlen precision flags va =
     bind (va_word va) (\<lambda>(value, va).
     bind (ntoa_long out idx maxlen value False 16 precision 8 (flags OR (FLAGS_ZEROPAD OR FLAGS_UPPERCASE)))
       (\<lambda>idx. ret (idx, va)))"

text \<open>The specifier \<open>c\<close>; whatever is not one is printed as it stands.\<close>

definition print_specifier ::
  "'s out_fct_type \<Rightarrow> u32 \<Rightarrow> u32 \<Rightarrow> char \<Rightarrow> u32 \<Rightarrow> u32 \<Rightarrow> u32 \<Rightarrow> va list \<Rightarrow> ('s, u32 \<times> va list) comp" where
  "print_specifier out idx maxlen c precision width flags va =
     (if c \<in> set ''diuxXob'' then print_integer out idx maxlen c precision width flags va
      else if c \<in> set ''fF''
      then bind (va_double va) (\<lambda>(value, va).
             bind (ftoa out idx maxlen value precision width flags) (\<lambda>idx. ret (idx, va)))
      else if c = CHR ''c'' then print_char out idx maxlen width flags va
      else if c = CHR ''s'' then print_string out idx maxlen precision width flags va
      else if c = CHR ''p'' then print_pointer out idx maxlen precision flags va
      else bind (out c idx maxlen) (\<lambda>_. ret (idx + 1, va)))"

definition print_directive ::
  "'s out_fct_type \<Rightarrow> u32 \<Rightarrow> string \<Rightarrow> va list \<Rightarrow> u32 \<Rightarrow> ('s, string \<times> va list \<times> u32) comp" where
  "print_directive out maxlen format va idx =
     (let (flags, format) = eval_flags 0 format in
      bind (eval_width flags format va) (\<lambda>(flags, width, format, va).
      bind (eval_precision flags format va) (\<lambda>(flags, precision, format, va).
      let (flags, format) = eval_length flags format in
      bind (print_specifier out idx maxlen (current format) precision width flags va) (\<lambda>(idx, va).
      bind (advance format) (\<lambda>format. ret (format, va, idx))))))"

section \<open>Formatted output\<close>

partial_function (option) vsnprintf_loop ::
  "'s out_fct_type \<Rightarrow> u32 \<Rightarrow> string \<Rightarrow> va list \<Rightarrow> u32 \<Rightarrow> 's \<Rightarrow> (fault + u32 \<times> 's) option" where
  "vsnprintf_loop out maxlen format va idx s =
     (if current format = NUL then ret idx s
      else if current format \<noteq> CHR ''%''
      then bind (out (current format) idx maxlen)
             (\<lambda>_. vsnprintf_loop out maxlen (tl format) va (idx + 1)) s
      else bind (print_directive out maxlen (tl format) va idx)
             (\<lambda>r. vsnprintf_loop out maxlen (fst r) (fst (snd r)) (snd (snd r))) s)"

definition vsnprintf ::
  "bool \<Rightarrow> 's out_fct_type \<Rightarrow> u32 \<Rightarrow> string \<Rightarrow> va list \<Rightarrow> ('s, u32) comp" where
  "vsnprintf no_buffer out maxlen format va =
     (let out = (if no_buffer then out_null else out)
      in bind (vsnprintf_loop out maxlen format va 0)
           (\<lambda>idx. bind (out NUL (if idx < maxlen then idx else maxlen - 1) maxlen) (\<lambda>_. ret idx)))"

definition os_sprintf :: "string \<Rightarrow> va list \<Rightarrow> (string option, u32) comp" where
  "os_sprintf format va buffer = vsnprintf (buffer = None) out_buffer (- 1) format va buffer"

definition os_snprintf :: "u32 \<Rightarrow> string \<Rightarrow> va list \<Rightarrow> (string option, u32) comp" where
  "os_snprintf maxlen format va buffer = vsnprintf (buffer = None) out_buffer maxlen format va buffer"

definition os_vsnprintf :: "u32 \<Rightarrow> string \<Rightarrow> va list \<Rightarrow> (string option, u32) comp" where
  "os_vsnprintf maxlen format va buffer = vsnprintf (buffer = None) out_buffer maxlen format va buffer"

definition os_vfctprintf :: "(char \<Rightarrow> ('s, unit) comp) \<Rightarrow> string \<Rightarrow> va list \<Rightarrow> ('s, u32) comp" where
  "os_vfctprintf out format va = vsnprintf False (out_fct out) (- 1) format va"

definition os_fctprintf :: "(char \<Rightarrow> ('s, unit) comp) \<Rightarrow> string \<Rightarrow> va list \<Rightarrow> ('s, u32) comp" where
  "os_fctprintf out format va = vsnprintf False (out_fct out) (- 1) format va"

end
