(* ===== verification/PrintfSpec.thy ===== *)
theory PrintfSpec
  imports Printf
begin

unbundle bit_operations_syntax

text \<open>
  What the formatted output promises: integers can be read back, output into a buffer stays
  inside it and ends, and how rounding of floating point numbers fails.
\<close>

section \<open>Integers\<close>

text \<open>An output function that collects the characters in a list.\<close>

definition put_text :: "char \<Rightarrow> (string, unit) comp" where
  "put_text c = modify (\<lambda>t. t @ [c])"

lemma out_chars_text: "out_chars (out_fct put_text) maxlen cs idx t = Some (Inr (idx + of_nat (length cs), t @ cs))"
  by (induction cs arbitrary: idx t) (simp_all add: out_fct_def put_text_def exec algebra_simps)

lemma is_digit_char_of: "n < 10 \<Longrightarrow> is_digit (char_of (48 + n :: nat))"
  by (simp add: is_digit_def char_code_def)

lemma atoi_digits:
  "(\<forall>c\<in>set xs. is_digit c) \<Longrightarrow> atoi i (xs @ ys) = atoi (fst (atoi i xs)) ys"
  by (induction xs arbitrary: i) auto

lemma ntoa_digits_read:
  fixes v :: u32
  assumes "unat v < 10 ^ Suc k" and "length buf + Suc k \<le> 32"
  shows "\<exists>ds. ntoa_digits flags v 10 buf = buf @ ds \<and> (\<forall>c\<in>set ds. is_digit c) \<and>
    ds \<noteq> [] \<and> length ds \<le> Suc k \<and> atoi 0 (rev ds) = (v, [])"
  using assms
proof (induction k arbitrary: v buf)
  case 0
  then have v: "unat v < 10" by simp
  then have "v div 10 = 0" "unat (v mod 10) = unat v"
    by (simp_all add: unat_div unat_mod word_unat_eq_iff)
  with v have "ntoa_digits flags v 10 buf = buf @ [char_of (48 + unat v)]"
    by (simp add: ntoa_digits.simps [of _ v] digit_char_def char_code_def)
  moreover have "atoi 0 [char_of (48 + unat v)] = (v, [])"
    using v is_digit_char_of [of "unat v"] by (simp add: char_code_def)
  ultimately show ?case using v is_digit_char_of by (intro exI [of _ "[char_of (48 + unat v)]"]) simp
next
  case (Suc k)
  let ?d = "char_of (48 + unat (v mod 10)) :: char" and ?v = "v div 10"
  have d: "unat (v mod 10) < 10" by (simp add: unat_mod)
  have start: "ntoa_digits flags v 10 buf =
      (if ?v \<noteq> 0 then ntoa_digits flags ?v 10 (buf @ [?d]) else buf @ [?d])"
    using Suc.prems(2) d by (simp add: ntoa_digits.simps [of _ v] digit_char_def char_code_def)
  have read: "char_code ?d - char_code (CHR ''0'') = unat (v mod 10)" "is_digit ?d"
    using d is_digit_char_of by (simp_all add: char_code_def)
  show ?case
  proof (cases "?v = 0")
    case True
    then have "v mod 10 = v" by (metis add.left_neutral mult_zero_left div_mult_mod_eq)
    with True start read show ?thesis by (intro exI [of _ "[?d]"]) simp
  next
    case False
    have "unat ?v < 10 ^ Suc k" using Suc.prems(1) by (simp add: unat_div less_mult_imp_div_less)
    from Suc.IH [OF this, of "buf @ [?d]"] Suc.prems(2) obtain ds where ds:
      "ntoa_digits flags ?v 10 (buf @ [?d]) = (buf @ [?d]) @ ds" "\<forall>c\<in>set ds. is_digit c"
      "length ds \<le> Suc k" "atoi 0 (rev ds) = (?v, [])"
      by auto
    have "atoi 0 (rev (?d # ds)) = (?v * 10 + v mod 10, [])"
      using ds(2,4) read atoi_digits [of "rev ds" 0 "[?d]"] by simp
    moreover have "?v * 10 + v mod 10 = v" by (rule div_mult_mod_eq)
    ultimately show ?thesis using False start ds read(2) by (intro exI [of _ "?d # ds"]) simp
  qed
qed

text \<open>A directive without flags, width, precision and length.\<close>

lemma has_zero [simp]: "\<not> has 0 f"
  by (simp add: has_def)

lemma ntoa_format_plain:
  "buf \<noteq> [] \<Longrightarrow> length buf < 32 \<Longrightarrow> ntoa_format out idx maxlen buf negative base 0 0 0 =
     out_chars out maxlen (rev (if negative then buf @ ''-'' else buf)) idx"
  by (rule ext) (simp add: ntoa_format_def put_sign_def push_char_def pad_zeros.simps [of 32 0] spaces.simps [of out]
      exec split: option.split sum.split prod.split)

lemma one_directive:
  assumes "c \<in> set ''diu''"
  shows "print_directive out maxlen [c] va idx = bind (print_integer out idx maxlen c 0 0 0 va) (\<lambda>(idx, va). ret ([], va, idx))"
proof -
  from assms consider "c = CHR ''d''" | "c = CHR ''i''" | "c = CHR ''u''" by auto
  then show ?thesis
    by cases (simp_all add: print_directive_def eval_width_def eval_precision_def eval_length_def
        print_specifier_def is_digit_def char_code_def bind_def ret_def fun_eq_iff split: option.split sum.split)
qed


text \<open>A decimal numeral: an optional minus sign and digits that \<open>_atoi\<close> reads back.\<close>

definition numeral_of :: "bool \<Rightarrow> u32 \<Rightarrow> string \<Rightarrow> bool" where
  "numeral_of negative w cs \<longleftrightarrow>
     (\<exists>ds. cs = (if negative then ''-'' @ ds else ds) \<and> ds \<noteq> [] \<and> (\<forall>c\<in>set ds. is_digit c) \<and>
        length ds \<le> 10 \<and> atoi 0 ds = (w, []))"

lemma ntoa_long_numeral:
  obtains cs where "numeral_of negative w cs"
    "\<And>idx (out :: 's out_fct_type) maxlen. ntoa_long out idx maxlen w negative 10 0 0 0 = out_chars out maxlen cs idx"
proof -
  have "unat w < 2 ^ LENGTH(32)" by (rule unsigned_less)
  then have "unat w < 10 ^ Suc 9" by simp
  from ntoa_digits_read [OF this, of "[]" 0] obtain ds where ds:
    "ntoa_digits 0 w 10 [] = ds" "\<forall>c\<in>set ds. is_digit c" "ds \<noteq> []" "length ds \<le> 10"
    "atoi 0 (rev ds) = (w, [])"
    by auto
  let ?cs = "if negative then ''-'' @ rev ds else rev ds"
  have "numeral_of negative w ?cs"
    unfolding numeral_of_def by (rule exI [of _ "rev ds"]) (use ds in simp)
  moreover have "ntoa_long out idx maxlen w negative 10 0 0 0 = out_chars out maxlen ?cs idx"
    for idx and out :: "'s out_fct_type" and maxlen
    using ds by (simp add: ntoa_long_def ntoa_format_plain)
  ultimately show ?thesis by (rule that)
qed

lemma vsnprintf_loop_simps:
  "vsnprintf_loop out maxlen [] va idx = ret idx"
  "vsnprintf_loop out maxlen (c # format) va idx =
     (if c = NUL then ret idx
      else if c \<noteq> CHR ''%'' then bind (out c idx maxlen) (\<lambda>_. vsnprintf_loop out maxlen format va (idx + 1))
      else bind (print_directive out maxlen format va idx)
             (\<lambda>r. vsnprintf_loop out maxlen (fst r) (fst (snd r)) (snd (snd r))))"
  by (rule ext, subst vsnprintf_loop.simps, simp)+

lemma printf_one:
  assumes c: "c \<in> set ''diu''"
    and p: "\<And>idx maxlen. print_integer (out_fct put_text) idx maxlen c 0 0 0 va =
      bind (out_chars (out_fct put_text) maxlen cs idx) (\<lambda>idx. ret (idx, []))"
  shows "os_vfctprintf put_text (CHR ''%'' # [c]) va t =
    Some (Inr (of_nat (length cs), t @ cs @ [NUL]))"
proof -
  have "c \<noteq> NUL" using c by auto
  with one_directive [OF c, of "out_fct put_text"] p show ?thesis
    by (simp add: os_vfctprintf_def vsnprintf_def vsnprintf_loop_simps out_chars_text exec Let_def)
      (simp add: out_fct_def put_text_def exec)
qed

text \<open>
  C22: what \<open>%d\<close> prints for a 32-bit integer is a minus sign exactly when it is negative and the digits of
  its absolute value, which \<open>_atoi\<close> reads back; the result is the number of characters printed,
  and the NUL behind them is not counted.  \<open>%u\<close> does the same without a sign.
\<close>

theorem printf_decimal_roundtrip:
  "(\<exists>cs. numeral_of (w <s 0) (if w <s 0 then - w else w) cs \<and>
      os_vfctprintf put_text ''%d'' [Word w] t = Some (Inr (of_nat (length cs), t @ cs @ [NUL]))) \<and>
   (\<exists>cs. numeral_of False w cs \<and>
      os_vfctprintf put_text ''%u'' [Word w] t = Some (Inr (of_nat (length cs), t @ cs @ [NUL])))"
proof
  have mag: "(if 0 <s w then w else 0 - w) = (if w <s 0 then - w else w)"
    by (cases "sint w = 0") (auto simp: word_sless_alt dest: iffD1 [OF signed_eq_0_iff])
  obtain cs where cs: "numeral_of (w <s 0) (if w <s 0 then - w else w) cs"
    "\<And>idx maxlen. ntoa_long (out_fct put_text) idx maxlen (if w <s 0 then - w else w) (w <s 0) 10 0 0 0 =
       out_chars (out_fct put_text) maxlen cs idx"
    by (rule ntoa_long_numeral) blast
  have "os_vfctprintf put_text ''%d'' [Word w] t = Some (Inr (of_nat (length cs), t @ cs @ [NUL]))"
    by (rule printf_one) (simp_all add: print_integer_def print_signed_def mag cs(2) bind_def ret_def Let_def fun_eq_iff)
  with cs(1) show "\<exists>cs. numeral_of (w <s 0) (if w <s 0 then - w else w) cs \<and>
      os_vfctprintf put_text ''%d'' [Word w] t = Some (Inr (of_nat (length cs), t @ cs @ [NUL]))" by blast
next
  obtain cs where cs: "numeral_of False w cs"
    "\<And>idx maxlen. ntoa_long (out_fct put_text) idx maxlen w False 10 0 0 0 =
       out_chars (out_fct put_text) maxlen cs idx"
    by (rule ntoa_long_numeral) blast
  have "os_vfctprintf put_text ''%u'' [Word w] t = Some (Inr (of_nat (length cs), t @ cs @ [NUL]))"
    by (rule printf_one) (simp_all add: print_integer_def print_unsigned_def cs(2) bind_def ret_def Let_def fun_eq_iff)
  with cs(1) show "\<exists>cs. numeral_of False w cs \<and>
      os_vfctprintf put_text ''%u'' [Word w] t = Some (Inr (of_nat (length cs), t @ cs @ [NUL]))" by blast
qed


section \<open>Output that stays inside\<close>

text \<open>
  \<open>keeps I m Q\<close>: from a state in \<open>I\<close> the computation \<open>m\<close> ends; when it returns a value, the value
  satisfies \<open>Q\<close> and the state is in \<open>I\<close> again; the only faults are those of the caller's format
  and arguments, which are read where there is nothing to read, never written.
\<close>

definition read_fault :: "fault \<Rightarrow> bool" where
  "read_fault e \<longleftrightarrow> e = Bad_read \<or> e = Wrong_argument"

definition keeps :: "('s \<Rightarrow> bool) \<Rightarrow> ('s, 'a) comp \<Rightarrow> ('a \<Rightarrow> bool) \<Rightarrow> bool" where
  "keeps I m Q \<longleftrightarrow> (\<forall>s. I s \<longrightarrow>
     (case m s of None \<Rightarrow> False | Some (Inl e) \<Rightarrow> read_fault e | Some (Inr (a, s')) \<Rightarrow> I s' \<and> Q a))"

named_theorems keeps_intros

lemma keeps_ret [keeps_intros]: "Q a \<Longrightarrow> keeps I (ret a) Q"
  by (simp add: keeps_def exec)

lemma keeps_fail [keeps_intros]: "keeps I (fail Bad_read) Q" "keeps I (fail Wrong_argument) Q"
  by (simp_all add: keeps_def read_fault_def exec)

lemma keeps_if [keeps_intros]:
  "(b \<Longrightarrow> keeps I m Q) \<Longrightarrow> (\<not> b \<Longrightarrow> keeps I k Q) \<Longrightarrow> keeps I (if b then m else k) Q"
  by simp

lemma keeps_bind:
  assumes "keeps I m P" and "\<And>a. P a \<Longrightarrow> keeps I (f a) Q"
  shows "keeps I (bind m f) Q"
  unfolding keeps_def
proof (intro allI impI)
  fix s assume I: "I s"
  show "case bind m f s of None \<Rightarrow> False | Some (Inl e) \<Rightarrow> read_fault e | Some (Inr (a, s')) \<Rightarrow> I s' \<and> Q a"
  proof (cases "m s")
    case None
    with assms(1) [unfolded keeps_def, rule_format, OF I] show ?thesis by simp
  next
    case (Some r)
    show ?thesis
    proof (cases r)
      case (Inr p)
      with assms(1) [unfolded keeps_def, rule_format, OF I] Some have p: "I (snd p)" "P (fst p)"
        by (auto simp: split_beta)
      from assms(2) [unfolded keeps_def, rule_format, OF p(2,1)] Some Inr show ?thesis
        by (simp add: bind_def split_beta)
    next
      case (Inl e)
      with assms(1) [unfolded keeps_def, rule_format, OF I] Some show ?thesis by (simp add: bind_def)
    qed
  qed
qed

lemma keeps_then [keeps_intros]:
  "keeps I m (\<lambda>_. True) \<Longrightarrow> (\<And>a. keeps I (f a) Q) \<Longrightarrow> keeps I (bind m f) Q"
  by (rule keeps_bind)

lemma keeps_mono: "keeps I m P \<Longrightarrow> (\<And>a. P a \<Longrightarrow> Q a) \<Longrightarrow> keeps I m Q"
  by (auto simp: keeps_def split: option.splits sum.splits)

lemma keeps_va [keeps_intros]:
  "keeps I (va_word va) (\<lambda>_. True)" "keeps I (va_dword va) (\<lambda>_. True)"
  "keeps I (va_double va) (\<lambda>_. True)" "keeps I (va_text va) (\<lambda>_. True)"
  by (cases va; cases "hd va"; simp add: keeps_ret keeps_fail)+

text \<open>Everything that prints keeps what the output function keeps.\<close>

definition out_keeps :: "('s \<Rightarrow> bool) \<Rightarrow> 's out_fct_type \<Rightarrow> u32 \<Rightarrow> bool" where
  "out_keeps I out maxlen \<longleftrightarrow> (\<forall>c idx. keeps I (out c idx maxlen) (\<lambda>_. True))"

lemma keeps_out [keeps_intros]: "out_keeps I out maxlen \<Longrightarrow> keeps I (out c idx maxlen) (\<lambda>_. True)"
  by (simp add: out_keeps_def)

lemma keeps_spaces:
  assumes out: "out_keeps I out maxlen"
  shows "keeps I (spaces out maxlen width i idx) (\<lambda>_. True)"
proof (induction "unat (width - i)" arbitrary: i idx rule: less_induct)
  case less
  show ?case
    by (subst spaces.simps) (intro keeps_intros out less unat_diff_step TrueI)
qed

lemma keeps_spaces_behind:
  assumes out: "out_keeps I out maxlen"
  shows "keeps I (spaces_behind out maxlen width start_idx idx) (\<lambda>_. True)"
proof (induction "unat (width - (idx - start_idx))" arbitrary: idx rule: less_induct)
  case less
  have "unat (width - (idx + 1 - start_idx)) < unat (width - (idx - start_idx))"
    if "idx - start_idx < width" using unat_diff_step [OF that] by (simp add: algebra_simps)
  then show ?case
    by (subst spaces_behind.simps) (intro keeps_intros out less TrueI)
qed

lemma keeps_out_chars:
  assumes out: "out_keeps I out maxlen"
  shows "keeps I (out_chars out maxlen cs idx) (\<lambda>_. True)"
  by (induction cs arbitrary: idx) (simp_all add: keeps_intros out)

lemma keeps_out_string:
  assumes out: "out_keeps I out maxlen"
  shows "keeps I (out_string out maxlen limited precision p idx) (\<lambda>_. True)"
  by (induction p arbitrary: precision idx) (simp_all add: keeps_intros out)

lemma keeps_print:
  assumes out: "out_keeps I out maxlen"
  shows "keeps I (print_specifier out idx maxlen c precision width flags va) (\<lambda>_. True)"
proof -
  note ki = keeps_intros out keeps_spaces [OF out] keeps_spaces_behind [OF out] keeps_out_chars [OF out]
    keeps_out_string [OF out] TrueI
  have rev: "keeps I (out_rev out idx maxlen buf start_idx width flags) (\<lambda>_. True)"
    for idx buf start_idx width flags
    by (cases buf) (simp_all only: out_rev.simps, (intro ki)+)
  have ntoa: "keeps I (ntoa_long out idx maxlen w negative base prec width flags) (\<lambda>_. True)"
    "keeps I (ntoa_long_long out idx maxlen w' negative base' prec width flags) (\<lambda>_. True)"
    for idx w w' negative base base' prec width flags
    unfolding ntoa_long_def ntoa_long_long_def ntoa_format_def Let_def by (intro rev)+
  have ftoa: "keeps I (ftoa out idx maxlen v prec width flags) (\<lambda>_. True)" for idx v prec width flags
    unfolding ftoa_def Let_def split_beta by (intro ki rev)
  have int: "keeps I (print_integer out idx maxlen c precision width flags va) (\<lambda>_. True)"
    unfolding print_integer_def print_signed_def print_unsigned_def Let_def split_beta
    by (intro ki ntoa)
  have "keeps I (print_char out idx maxlen width flags va) (\<lambda>_. True)"
    "keeps I (print_string out idx maxlen precision width flags va) (\<lambda>_. True)"
    "keeps I (print_pointer out idx maxlen precision flags va) (\<lambda>_. True)"
    unfolding print_char_def print_string_def print_pointer_def Let_def split_beta by (intro ki ntoa)+
  with int show ?thesis
    unfolding print_specifier_def split_beta by (intro ki ftoa)
qed


text \<open>Every directive takes at least its specifier from the format, so the loop ends.\<close>

lemma length_atoi: "length (snd (atoi i format)) \<le> length format"
  by (induction i format rule: atoi.induct) (auto simp: le_Suc_eq)

lemma length_eval_flags: "length (snd (eval_flags flags format)) \<le> length format"
  by (induction flags format rule: eval_flags.induct) (simp_all add: le_SucI)

lemma length_eval_length: "length (snd (eval_length flags format)) \<le> length format"
  by (auto simp: eval_length_def Let_def)

lemma keeps_eval_width:
  "keeps I (eval_width flags format va) (\<lambda>r. length (fst (snd (snd r))) \<le> length format)"
  using length_atoi [of 0 format]
  by (auto simp: eval_width_def split_beta intro!: keeps_intros)

lemma keeps_eval_precision:
  "keeps I (eval_precision flags format va) (\<lambda>r. length (fst (snd (snd r))) \<le> length format)"
  using length_atoi [of 0 "tl format"]
  by (auto simp: eval_precision_def Let_def split_beta intro!: keeps_intros)

lemma keeps_advance: "keeps I (advance format) (\<lambda>r. length r < length format)"
  by (cases format) (simp_all add: keeps_intros)

lemma keeps_directive:
  assumes out: "out_keeps I out maxlen"
  shows "keeps I (print_directive out maxlen format va idx) (\<lambda>r. length (fst r) < length format)"
  unfolding print_directive_def Let_def split_beta
proof (intro keeps_bind [OF keeps_eval_width] keeps_bind [OF keeps_eval_precision]
    keeps_bind [OF keeps_print [OF out]] keeps_bind [OF keeps_advance] keeps_ret)
  fix w p f
  assume "length (fst (snd (snd w))) \<le> length (snd (eval_flags 0 format))"
    and "length (fst (snd (snd p))) \<le> length (fst (snd (snd w)))"
    and "length f < length (snd (eval_length (fst p) (fst (snd (snd p)))))"
  then show "length (fst (f, snd q, fst q)) < length format" for q :: "u32 \<times> va list"
    using length_eval_flags [of 0 format] length_eval_length [of "fst p" "fst (snd (snd p))"] by simp
qed

lemma keeps_loop:
  assumes out: "out_keeps I out maxlen"
  shows "keeps I (vsnprintf_loop out maxlen format va idx) (\<lambda>_. True)"
proof (induction "length format" arbitrary: format va idx rule: less_induct)
  case less
  show ?case
  proof (cases format)
    case (Cons c rest)
    have "keeps I (bind (print_directive out maxlen rest va idx)
        (\<lambda>r. vsnprintf_loop out maxlen (fst r) (fst (snd r)) (snd (snd r)))) (\<lambda>_. True)"
      by (rule keeps_bind [OF keeps_directive [OF out]]) (use Cons in \<open>simp add: less\<close>)
    with Cons less out show ?thesis by (simp add: vsnprintf_loop_simps keeps_intros)
  qed (simp add: vsnprintf_loop_simps keeps_intros)
qed

definition inside :: "u32 \<Rightarrow> string \<Rightarrow> string option \<Rightarrow> bool" where
  "inside maxlen b buffer \<longleftrightarrow>
     (\<exists>cs. buffer = Some (cs @ drop (unat maxlen) b) \<and> length cs = unat maxlen)"

lemma out_buffer_inside: "out_keeps (inside maxlen b) out_buffer maxlen"
  unfolding out_keeps_def keeps_def inside_def
  by (auto simp: out_buffer_def exec word_less_nat_alt list_update_append)




section \<open>Floating point numbers\<close>

lemma pad_zeros_eq:
  "pad_zeros cap n buf = buf @ replicate (min n cap - length buf) (CHR ''0'')"
proof (induction cap n buf rule: pad_zeros.induct)
  case (1 cap n buf)
  show ?case
  proof (cases "length buf < n \<and> length buf < cap")
    case True
    then have "min n cap - length buf = Suc (min n cap - Suc (length buf))" by (auto simp: min_def)
    with 1 True show ?thesis by (simp add: pad_zeros.simps [of cap n buf])
  qed (auto simp: pad_zeros.simps [of cap n buf])
qed

lemma fraction_ten: "ftoa_fraction 1 10 [] = (''01'', - 1)"
proof -
  have "char_of (48 :: nat) = CHR ''0''" "char_of (49 :: nat) = CHR ''1''" by code_simp+
  then show ?thesis by (simp add: ftoa_fraction.simps Let_def)
qed

lemma ftoa_loops_end:
  "\<not> length buf < 32 \<Longrightarrow> ftoa_whole whole buf = buf"
  "\<not> 9 < prec \<Longrightarrow> limit_precision prec buf = (buf, prec)"
  "spaces out maxlen 0 i idx = ret idx"
  by (simp_all add: ftoa_whole.simps [of whole] limit_precision.simps [of prec] spaces.simps [of out])

text \<open>
  C36: rounding half up without looking for the carry: when the tenths of a number are exactly 9.5 after the
  multiplication by 10, \<open>%.1f\<close> turns them into 10, counts the places below zero and fills the
  conversion buffer with zeros.  What comes out is \<open>10\<close> behind 30 zeros, whatever the number.
\<close>

theorem printf_fraction_overflows:
  assumes "0 \<le> v" and "v \<le> 0x7FFFFFFF" and r: "round_double ((v - of_int \<lfloor>v\<rfloor>) * 10) = 19 / 2"
  shows "os_vfctprintf put_text ''%.1f'' [Double v] t =
    Some (Inr (32, t @ replicate 30 (CHR ''0'') @ ''10'' @ [NUL]))"
proof -
  let ?z = "replicate 30 (CHR ''0'')"
  define cs where "cs = ?z @ ''10''"
  have "\<lfloor>19 / 2 :: rat\<rfloor> = 9" by (simp add: floor_eq_iff)
  then have "ftoa_round v 10 = (10, \<lfloor>v\<rfloor>)"
    unfolding ftoa_round_def Let_def r by simp
  moreover have "ftoa_digits v 1 10 \<lfloor>v\<rfloor> [] = ''01'' @ ?z"
  proof -
    have m: "unat (- 1 :: u32) = 4294967295" by (simp add: unsigned_minus_1_eq_mask mask_eq_exp_minus_1)
    have p: "pad_zeros 32 (length ''01'' + unat (- 1 :: u32)) ''01'' = ''01'' @ ?z"
      unfolding pad_zeros_eq m by simp
    show ?thesis
      unfolding ftoa_digits_def fraction_ten Let_def split p
      by (simp add: push_char_def ftoa_loops_end)
  qed
  ultimately have ftoa: "ftoa (out_fct put_text) idx maxlen v 1 0 FLAGS_PRECISION =
      out_chars (out_fct put_text) maxlen cs idx" for idx maxlen
    using assms(1,2)
    by (simp add: cs_def ftoa_def ftoa_loops_end pow10_def has_def put_sign_def Let_def
        rev_replicate bind_laws)
  have "print_directive (out_fct put_text) maxlen ''.1f'' [Double v] idx =
      bind (out_chars (out_fct put_text) maxlen cs idx) (\<lambda>idx. ret ([], [], idx))" for maxlen idx
    using ftoa by (simp add: print_directive_def eval_width_def eval_precision_def eval_length_def is_digit_def
        char_code_def print_specifier_def bind_laws Let_def)
  then have "os_vfctprintf put_text ''%.1f'' [Double v] t = Some (Inr (of_nat (length cs), t @ cs @ [NUL]))"
    by (simp add: os_vfctprintf_def vsnprintf_def vsnprintf_loop_simps bind_laws Let_def)
      (simp add: out_chars_text exec out_fct_def put_text_def)
  then show ?thesis by (simp add: cs_def)
qed

lemma round_95: "round_double (21392098230009855 / 2251799813685248) = 19 / 2"
proof -
  have "binade (21392098230009855 / 2251799813685248) = 3"
    by (simp add: binade_def binade_up.simps)
  moreover have "\<lfloor>21392098230009855 / 4 :: rat\<rfloor> = 5348024557502463" by (simp add: floor_eq_iff)
  ultimately show ?thesis by (simp add: round_double_def pow2_def Let_def round_half_even_def)
qed

text \<open>The \<open>double\<close> nearest to 0.95.\<close>

theorem printf_fraction_overflows_witness:
  "os_vfctprintf put_text ''%.1f'' [Double (4278419646001971 / 4503599627370496)] [] =
    Some (Inr (32, [] @ replicate 30 (CHR ''0'') @ ''10'' @ [NUL]))"
proof (rule printf_fraction_overflows)
  have "\<lfloor>4278419646001971 / 4503599627370496 :: rat\<rfloor> = 0" by (simp add: floor_eq_iff)
  then show "round_double ((4278419646001971 / 4503599627370496 -
      of_int \<lfloor>4278419646001971 / 4503599627370496 :: rat\<rfloor>) * 10) = 19 / 2"
    using round_95 by simp
qed simp_all

section \<open>A number without digits\<close>

text \<open>
  The value 0 with the precision 0 has no digits; a sign then makes the length of the buffer
  wrap around, and characters are read that are not in it.
\<close>

lemma printf_sign_underflows: "os_vfctprintf put_text ''%+.0d'' [Word 0] t = Some (Inl Bad_read)"
proof -
  have "print_directive (out_fct put_text) (- 1) ''+.0d'' [Word 0] 0 s = Some (Inl Bad_read)" for s
    by (simp add: print_directive_def eval_width_def eval_precision_def eval_length_def is_digit_def char_code_def
        print_specifier_def print_integer_def print_signed_def ntoa_long_def ntoa_format_def put_sign_def
        pad_zeros_eq has_def Let_def exec)
  then show ?thesis
    by (simp add: os_vfctprintf_def vsnprintf_def vsnprintf_loop_simps Let_def exec)
qed

end
