(* ===== verification/Fifo.thy ===== *)
theory Fifo
  imports Prelude
begin

text \<open>
  The contract of a bounded first-in first-out buffer, and the arithmetic of the ring buffers
  that keep it: indices that wrap around at the size of an array.
\<close>

section \<open>Bounded buffers\<close>

text \<open>
  \<open>contents\<close> is what a buffer holds, oldest first; \<open>put\<close> adds an element when there is room and
  \<open>get\<close> takes the oldest one.
\<close>

locale fifo =
  fixes put :: "'a \<Rightarrow> 'b \<Rightarrow> 'b"
    and get :: "'b \<Rightarrow> 'a \<times> 'b"
    and contents :: "'b \<Rightarrow> 'a list"
    and capacity :: "'b \<Rightarrow> nat"
    and ok :: "'b \<Rightarrow> bool"
  assumes contents_bound: "ok b \<Longrightarrow> length (contents b) \<le> capacity b"
    and put_ok: "ok b \<Longrightarrow> length (contents b) < capacity b \<Longrightarrow>
      ok (put v b) \<and> contents (put v b) = contents b @ [v] \<and> capacity (put v b) = capacity b"
    and get_ok: "ok b \<Longrightarrow> contents b = v # vs \<Longrightarrow>
      fst (get b) = v \<and> ok (snd (get b)) \<and> contents (snd (get b)) = vs \<and>
      capacity (snd (get b)) = capacity b"
begin

fun gets :: "nat \<Rightarrow> 'b \<Rightarrow> 'a list \<times> 'b" where
  "gets 0 b = ([], b)"
| "gets (Suc n) b = (let (v, b') = get b; (vs, b'') = gets n b' in (v # vs, b''))"

lemma fold_put:
  assumes "ok b" and "length (contents b) + length vs \<le> capacity b"
  shows "ok (fold put vs b) \<and> contents (fold put vs b) = contents b @ vs \<and>
    capacity (fold put vs b) = capacity b"
  using assms by (induction vs arbitrary: b) (simp_all add: put_ok)

lemma gets_prefix:
  assumes "ok b" and "contents b = vs @ ws"
  shows "fst (gets (length vs) b) = vs \<and> ok (snd (gets (length vs) b)) \<and>
    contents (snd (gets (length vs) b)) = ws \<and> capacity (snd (gets (length vs) b)) = capacity b"
  using assms
proof (induction vs arbitrary: b)
  case (Cons v vs)
  from Cons.prems have "fst (get b) = v" "ok (snd (get b))" "contents (snd (get b)) = vs @ ws"
    "capacity (snd (get b)) = capacity b"
    using get_ok [of b v "vs @ ws"] by auto
  with Cons.IH [of "snd (get b)"] show ?case by (simp add: split_beta Let_def)
qed simp

text \<open>What goes in comes out, in the same order.\<close>

lemma put_get:
  assumes "ok b" and "contents b = []" and "length vs \<le> capacity b"
  shows "fst (gets (length vs) (fold put vs b)) = vs"
  using gets_prefix [of "fold put vs b" vs "[]"] fold_put [of b vs] assms by simp

end

section \<open>Rings\<close>

lemma unat_less_length: "unat (w :: 'a::len word) < 2 ^ LENGTH('a)"
  by (rule unsigned_less)

lemma unat_succ:
  fixes w v :: "'a::len word"
  assumes "unat w < unat v"
  shows "unat (w + 1) = unat w + 1"
proof -
  have "unat w + 1 < 2 ^ LENGTH('a)" using assms unat_less_length [of v] by linarith
  moreover from this have "1 < (2::nat) ^ LENGTH('a)" by linarith
  ultimately show ?thesis by (simp add: unat_word_ariths)
qed

text \<open>The \<open>n\<close> elements of a ring of size \<open>k\<close> from position \<open>i\<close> on.\<close>

definition ring_slice :: "'a list \<Rightarrow> nat \<Rightarrow> nat \<Rightarrow> nat \<Rightarrow> 'a list" where
  "ring_slice xs k i n = map (\<lambda>j. xs ! ((i + j) mod k)) [0..<n]"

lemma length_ring_slice [simp]: "length (ring_slice xs k i n) = n"
  by (simp add: ring_slice_def)

lemma ring_slice_0 [simp]: "ring_slice xs k i 0 = []"
  by (simp add: ring_slice_def)

lemma ring_slice_Suc: "ring_slice xs k i (Suc n) = ring_slice xs k i n @ [xs ! ((i + n) mod k)]"
  by (simp add: ring_slice_def)

lemma ring_slice_Cons:
  assumes "i < k"
  shows "ring_slice xs k i (Suc n) = xs ! i # ring_slice xs k ((i + 1) mod k) n"
proof -
  have "(i + Suc j) mod k = ((i + 1) mod k + j) mod k" for j
    by (simp add: mod_simps)
  moreover have "[0..<Suc n] = 0 # map Suc [0..<n]" by (simp add: map_Suc_upt upt_conv_Cons del: upt_Suc)
  ultimately show ?thesis using assms by (simp add: ring_slice_def comp_def del: upt_Suc)
qed

lemma ring_slice_add:
  "ring_slice xs k i (n + m) = ring_slice xs k i n @ ring_slice xs k ((i + n) mod k) m"
proof (induction m)
  case (Suc m)
  have "(i + (n + m)) mod k = ((i + n) mod k + m) mod k" by (simp add: mod_simps add.assoc)
  with Suc show ?case by (simp add: ring_slice_Suc)
qed simp

lemma ring_index_inj:
  fixes i a b k :: nat
  assumes "(i + a) mod k = (i + b) mod k" and "a < k" and "b < k"
  shows "a = b"
proof (rule ccontr)
  assume "a \<noteq> b"
  have *: False if "(i + a) mod k = (i + b) mod k" "a < b" "b < k" for a b
  proof -
    have "i + a \<le> i + b" using that by simp
    then have "k dvd (i + b) - (i + a)" using mod_eq_dvd_iff_nat [of "i + a" "i + b" k] that(1) by simp
    then show False using that nat_dvd_not_less [of "b - a" k] by simp
  qed
  from \<open>a \<noteq> b\<close> show False using * [of a b] * [of b a] assms by fastforce
qed

text \<open>Writing behind the elements.\<close>

lemma ring_slice_write:
  assumes "n < k" and "k \<le> length xs"
  shows "ring_slice (xs[(i + n) mod k := v]) k i (Suc n) = ring_slice xs k i n @ [v]"
proof -
  have "(i + n) mod k < length xs" using assms mod_less_divisor [of k "i + n"] by linarith
  moreover have "xs[(i + n) mod k := v] ! ((i + j) mod k) = xs ! ((i + j) mod k)" if "j < n" for j
  proof -
    have "(i + n) mod k \<noteq> (i + j) mod k" using ring_index_inj [of i n k j] that assms by auto
    then show ?thesis by simp
  qed
  ultimately show ?thesis by (simp add: ring_slice_Suc) (simp add: ring_slice_def)
qed

end
