(* ===== verification/Rtt.thy ===== *)
theory Rtt
  imports Fifo
begin

unbundle bit_operations_syntax

text \<open>
  The debug channel of \<open>src/src/segger/SEGGER_RTT.c\<close>: ring buffers in memory that the target fills and
  a debug probe, the host, empties while the processor runs (the up-buffers), and others that
  the host fills and the target reads (the down-buffers).  \<open>unsigned\<close> and \<open>int\<close> have 32 bits; \<open>-1\<close>
  is \<open>0xFFFFFFFF\<close>.  \<open>SEGGER_RTT_LOCK\<close> keeps interrupts out and has no effect of its own.
\<close>

section \<open>Data\<close>

text \<open>
  The descriptors of up- and down-buffers have the same fields.  The storage a descriptor
  points to is the list of its bytes, \<open>None\<close> is \<open>NULL\<close>.
\<close>

record rtt_buffer =
  sName :: string
  pBuffer :: "u8 list option"
  SizeOfBuffer :: u32
  WrOff :: u32
  RdOff :: u32
  Flags :: u32

text \<open>
  The host is not part of the program.  It moves only the offset on its side of a buffer, and
  the target notices when it looks at that offset: \<open>polls\<close> tells how many bytes the host takes
  from an up-buffer before each look at its \<open>RdOff\<close>, \<open>typed\<close> what it puts into a down-buffer
  before each look at its \<open>WrOff\<close>.  When the list is used up, the host stands still.
  \<open>received\<close> is what it has taken from each up-buffer.
\<close>

record rtt =
  acID :: "u8 list"
  MaxNumUpBuffers :: nat
  MaxNumDownBuffers :: nat
  aUp :: "rtt_buffer list"
  aDown :: "rtt_buffer list"
  ActiveTerminal :: u8
  polls :: "nat list"
  typed :: "u8 list list"
  received :: "nat \<Rightarrow> u8 list"

abbreviation (input) SEGGER_RTT_MODE_NO_BLOCK_SKIP :: u32 where "SEGGER_RTT_MODE_NO_BLOCK_SKIP \<equiv> 0"
abbreviation (input) SEGGER_RTT_MODE_NO_BLOCK_TRIM :: u32 where "SEGGER_RTT_MODE_NO_BLOCK_TRIM \<equiv> 1"
abbreviation (input) SEGGER_RTT_MODE_BLOCK_IF_FIFO_FULL :: u32 where
  "SEGGER_RTT_MODE_BLOCK_IF_FIFO_FULL \<equiv> 2"
abbreviation (input) SEGGER_RTT_MODE_MASK :: u32 where "SEGGER_RTT_MODE_MASK \<equiv> 3"

abbreviation (input) BUFFER_SIZE_UP :: nat where "BUFFER_SIZE_UP \<equiv> 1024"
abbreviation (input) BUFFER_SIZE_DOWN :: nat where "BUFFER_SIZE_DOWN \<equiv> 16"

definition aTerminalId :: "u8 list" where
  "aTerminalId = [0x30, 0x31, 0x32, 0x33, 0x34, 0x35, 0x36, 0x37, 0x38, 0x39,
                  0x41, 0x42, 0x43, 0x44, 0x45, 0x46]"

text \<open>What a ring holds, oldest byte first; one place always stays free.\<close>

definition used :: "rtt_buffer \<Rightarrow> nat" where
  "used r = (unat (WrOff r) + unat (SizeOfBuffer r) - unat (RdOff r)) mod unat (SizeOfBuffer r)"

definition bytes :: "rtt_buffer \<Rightarrow> u8 list" where
  "bytes r = (case pBuffer r of None \<Rightarrow> [] | Some b \<Rightarrow> ring_slice b (unat (SizeOfBuffer r)) (unat (RdOff r)) (used r))"

section \<open>Access to the descriptors, the host\<close>

definition get_up :: "u32 \<Rightarrow> (rtt, rtt_buffer) comp" where
  "get_up i s = (if unat i < length (aUp s) then ret (aUp s ! unat i) else fail Out_of_bounds) s"

definition get_down :: "u32 \<Rightarrow> (rtt, rtt_buffer) comp" where
  "get_down i s = (if unat i < length (aDown s) then ret (aDown s ! unat i) else fail Out_of_bounds) s"

definition set_up :: "u32 \<Rightarrow> (rtt_buffer \<Rightarrow> rtt_buffer) \<Rightarrow> (rtt, unit) comp" where
  "set_up i f s =
     (if unat i < length (aUp s)
      then modify (\<lambda>s. s\<lparr>aUp := (aUp s)[unat i := f (aUp s ! unat i)]\<rparr>) else fail Out_of_bounds) s"

definition set_down :: "u32 \<Rightarrow> (rtt_buffer \<Rightarrow> rtt_buffer) \<Rightarrow> (rtt, unit) comp" where
  "set_down i f s =
     (if unat i < length (aDown s)
      then modify (\<lambda>s. s\<lparr>aDown := (aDown s)[unat i := f (aDown s ! unat i)]\<rparr>) else fail Out_of_bounds) s"

text \<open>The host takes up to \<open>n\<close> bytes.\<close>

definition taken :: "nat \<Rightarrow> rtt_buffer \<Rightarrow> rtt_buffer" where
  "taken n r = r\<lparr>RdOff := of_nat ((unat (RdOff r) + min n (used r)) mod unat (SizeOfBuffer r))\<rparr>"

definition host_takes :: "nat \<Rightarrow> nat \<Rightarrow> rtt \<Rightarrow> rtt" where
  "host_takes i n s =
     s\<lparr>aUp := (aUp s)[i := taken n (aUp s ! i)],
       received := (received s)(i := received s i @ take n (bytes (aUp s ! i)))\<rparr>"

definition look_RdOff :: "u32 \<Rightarrow> (rtt, u32) comp" where
  "look_RdOff i =
     bind (get_up i) (\<lambda>_. bind
       (modify (\<lambda>s. case polls s of [] \<Rightarrow> s | n # ns \<Rightarrow> (host_takes (unat i) n s)\<lparr>polls := ns\<rparr>))
       (\<lambda>_. bind (get_up i) (\<lambda>r. ret (RdOff r))))"

text \<open>The host puts bytes into a down-buffer, as many as there is room for.\<close>

definition put_byte :: "u8 \<Rightarrow> rtt_buffer \<Rightarrow> rtt_buffer" where
  "put_byte c r =
     (case pBuffer r of
        None \<Rightarrow> r
      | Some b \<Rightarrow>
          if used r + 1 < unat (SizeOfBuffer r)
          then r\<lparr>pBuffer := Some (b[unat (WrOff r) := c]),
                 WrOff := of_nat ((unat (WrOff r) + 1) mod unat (SizeOfBuffer r))\<rparr>
          else r)"

definition look_WrOff :: "u32 \<Rightarrow> (rtt, u32) comp" where
  "look_WrOff i =
     bind (get_down i) (\<lambda>_. bind
       (modify (\<lambda>s. case typed s of
                  [] \<Rightarrow> s
                | cs # css \<Rightarrow>
                    s\<lparr>aDown := (aDown s)[unat i := fold put_byte cs (aDown s ! unat i)], typed := css\<rparr>))
       (\<lambda>_. bind (get_down i) (\<lambda>r. ret (WrOff r))))"

text \<open>
  \<open>memcpy\<close> from the caller's data into the storage of an up-buffer.  \<open>overlay b off ds\<close> is \<open>b\<close> with
  the bytes \<open>ds\<close> from position \<open>off\<close> on.
\<close>

definition overlay :: "'a list \<Rightarrow> nat \<Rightarrow> 'a list \<Rightarrow> 'a list" where
  "overlay b off ds = take off b @ ds @ drop (off + length ds) b"

definition memcpy_up :: "u32 \<Rightarrow> u32 \<Rightarrow> u8 list \<Rightarrow> u32 \<Rightarrow> u32 \<Rightarrow> (rtt, unit) comp" where
  "memcpy_up i off pData src n =
     bind (get_up i) (\<lambda>r.
       if n = 0 then ret ()
       else
         case pBuffer r of
           None \<Rightarrow> fail Null_pointer
         | Some b \<Rightarrow>
             if unat off + unat n \<le> length b \<and> unat src + unat n \<le> length pData
             then set_up i (\<lambda>r. r\<lparr>pBuffer := Some (overlay b (unat off) (take (unat n) (drop (unat src) pData)))\<rparr>)
             else fail Out_of_bounds)"

section \<open>Initialisation\<close>

definition blank_buffer :: rtt_buffer where
  "blank_buffer = \<lparr>sName = '''', pBuffer = None, SizeOfBuffer = 0, WrOff = 0, RdOff = 0, Flags = 0\<rparr>"

text \<open>
  The static arrays \<open>_acUpBuffer\<close> and \<open>_acDownBuffer\<close> belong to the channels 0 and to nothing else: what
  they contain is what the descriptor 0 points to, and zeros before the first initialisation.
\<close>

definition static_storage :: "nat \<Rightarrow> rtt_buffer list \<Rightarrow> u8 list" where
  "static_storage n rs =
     (case rs of [] \<Rightarrow> replicate n 0
      | r # _ \<Rightarrow> case pBuffer r of None \<Rightarrow> replicate n 0 | Some b \<Rightarrow> b)"

definition terminal_buffer :: "nat \<Rightarrow> rtt_buffer list \<Rightarrow> rtt_buffer" where
  "terminal_buffer n rs =
     \<lparr>sName = ''Terminal'', pBuffer = Some (static_storage n rs), SizeOfBuffer = of_nat n,
      WrOff = 0, RdOff = 0, Flags = SEGGER_RTT_MODE_NO_BLOCK_SKIP\<rparr>"

definition DoInit :: "(rtt, unit) comp" where
  "DoInit = modify (\<lambda>s. s\<lparr>
     acID := [0x53, 0x45, 0x47, 0x47, 0x45, 0x52, 0x20, 0x52, 0x54, 0x54, 0, 0, 0, 0, 0, 0],
     MaxNumUpBuffers := 2, MaxNumDownBuffers := 2,
     aUp := [terminal_buffer BUFFER_SIZE_UP (aUp s), blank_buffer],
     aDown := [terminal_buffer BUFFER_SIZE_DOWN (aDown s), blank_buffer]\<rparr>)"

definition INIT :: "(rtt, unit) comp" where
  "INIT s = (if acID s ! 0 = 0 then DoInit else ret ()) s"

definition SEGGER_RTT_Init :: "(rtt, unit) comp" where
  "SEGGER_RTT_Init = DoInit"

section \<open>Writing\<close>

definition blocking_chunk :: "rtt_buffer \<Rightarrow> u32 \<Rightarrow> u32 \<Rightarrow> u32 \<Rightarrow> u32" where
  "blocking_chunk r rd wr NumBytes =
     (let n = (if rd > wr then rd - wr - 1 else SizeOfBuffer r - (wr - rd + 1));
          n = min n (SizeOfBuffer r - wr)
      in min n NumBytes)"

definition wrapped_off :: "rtt_buffer \<Rightarrow> u32 \<Rightarrow> u32" where
  "wrapped_off r off = (if off = SizeOfBuffer r then 0 else off)"

partial_function (option) WriteBlocking_loop ::
  "u32 \<Rightarrow> u8 list \<Rightarrow> u32 \<Rightarrow> u32 \<Rightarrow> u32 \<Rightarrow> rtt \<Rightarrow> (fault + u32 \<times> rtt) option" where
  "WriteBlocking_loop i pBuf NumBytesWritten NumBytes wr s =
     bind (look_RdOff i) (\<lambda>rd. bind (get_up i) (\<lambda>r.
     bind (ret (blocking_chunk r rd wr NumBytes)) (\<lambda>n.
     bind (memcpy_up i wr pBuf NumBytesWritten n) (\<lambda>_.
     bind (set_up i (\<lambda>x. x\<lparr>WrOff := wrapped_off r (wr + n)\<rparr>)) (\<lambda>_ s.
       if NumBytes - n \<noteq> 0
       then WriteBlocking_loop i pBuf (NumBytesWritten + n) (NumBytes - n) (wrapped_off r (wr + n)) s
       else ret (NumBytesWritten + n) s))))) s"

definition WriteBlocking :: "u32 \<Rightarrow> u8 list \<Rightarrow> u32 \<Rightarrow> (rtt, u32) comp" where
  "WriteBlocking i pBuf NumBytes = bind (get_up i) (\<lambda>r. WriteBlocking_loop i pBuf 0 NumBytes (WrOff r))"

definition WriteNoCheck :: "u32 \<Rightarrow> u8 list \<Rightarrow> u32 \<Rightarrow> (rtt, unit) comp" where
  "WriteNoCheck i pData NumBytes =
     bind (get_up i) (\<lambda>r.
       let wr = WrOff r; Rem = SizeOfBuffer r - wr
       in if Rem > NumBytes
          then block
                 [memcpy_up i wr pData 0 NumBytes,
                  set_up i (\<lambda>r. r\<lparr>WrOff := wr + NumBytes\<rparr>)]
          else block
                 [memcpy_up i wr pData 0 Rem,
                  memcpy_up i 0 pData Rem (NumBytes - Rem),
                  set_up i (\<lambda>r. r\<lparr>WrOff := NumBytes - Rem\<rparr>)])"

definition PostTerminalSwitch :: "u32 \<Rightarrow> u8 \<Rightarrow> (rtt, unit) comp" where
  "PostTerminalSwitch i TerminalId =
     (if unat TerminalId < length aTerminalId
      then ignore (WriteBlocking i [0xFF, aTerminalId ! unat TerminalId] 2) else fail Out_of_bounds)"

definition GetAvailWriteSpace :: "u32 \<Rightarrow> (rtt, u32) comp" where
  "GetAvailWriteSpace i =
     bind (look_RdOff i) (\<lambda>rd. bind (get_up i) (\<lambda>r.
       ret (if rd \<le> WrOff r then SizeOfBuffer r - 1 - WrOff r + rd else rd - WrOff r - 1)))"

text \<open>\<open>while (pRing->RdOff >= pRing->SizeOfBuffer) pRing->RdOff -= pRing->SizeOfBuffer\<close>\<close>

partial_function (option) reduce_RdOff :: "u32 \<Rightarrow> rtt \<Rightarrow> (fault + unit \<times> rtt) option" where
  "reduce_RdOff i s =
     bind (get_up i) (\<lambda>r s.
       if RdOff r \<ge> SizeOfBuffer r
       then bind (set_up i (\<lambda>x. x\<lparr>RdOff := RdOff x - SizeOfBuffer x\<rparr>)) (\<lambda>_. reduce_RdOff i) s
       else ret () s) s"

partial_function (option) overwrite_loop ::
  "u32 \<Rightarrow> u8 list \<Rightarrow> u32 \<Rightarrow> u32 \<Rightarrow> u32 \<Rightarrow> rtt \<Rightarrow> (fault + unit \<times> rtt) option" where
  "overwrite_loop i pData src NumBytes Avail s =
     bind (get_up i) (\<lambda>r s.
       if Avail > NumBytes
       then block
              [memcpy_up i (WrOff r) pData src NumBytes,
               set_up i (\<lambda>x. x\<lparr>WrOff := WrOff x + NumBytes\<rparr>)] s
       else
         bind (block
                 [memcpy_up i (WrOff r) pData src Avail,
                  set_up i (\<lambda>x. x\<lparr>WrOff := 0\<rparr>)])
           (\<lambda>_ s. if NumBytes - Avail \<noteq> 0
                then overwrite_loop i pData (src + Avail) (NumBytes - Avail) (SizeOfBuffer r - 1) s
                else ret () s) s) s"

definition SEGGER_RTT_WriteWithOverwriteNoLock :: "u32 \<Rightarrow> u8 list \<Rightarrow> u32 \<Rightarrow> (rtt, unit) comp" where
  "SEGGER_RTT_WriteWithOverwriteNoLock BufferIndex pData NumBytes =
     bind (get_up BufferIndex) (\<lambda>r.
       let Avail = (if WrOff r = RdOff r then SizeOfBuffer r - 1
                    else if WrOff r < RdOff r then RdOff r - WrOff r - 1
                    else RdOff r - WrOff r - 1 + SizeOfBuffer r)
       in
         block
           [guarded (NumBytes > Avail)
              (block
                 [set_up BufferIndex (\<lambda>r. r\<lparr>RdOff := RdOff r + (NumBytes - Avail)\<rparr>),
                  reduce_RdOff BufferIndex]),
            overwrite_loop BufferIndex pData 0 NumBytes (SizeOfBuffer r - WrOff r)])"

definition copy_straight :: "u32 \<Rightarrow> u8 list \<Rightarrow> u32 \<Rightarrow> u32 \<Rightarrow> (rtt, u32) comp" where
  "copy_straight i pData NumBytes wr =
     seq [memcpy_up i wr pData 0 NumBytes, set_up i (\<lambda>r. r\<lparr>WrOff := wr + NumBytes\<rparr>)] (ret 1)"

definition SEGGER_RTT_WriteSkipNoLock :: "u32 \<Rightarrow> u8 list \<Rightarrow> u32 \<Rightarrow> (rtt, u32) comp" where
  "SEGGER_RTT_WriteSkipNoLock BufferIndex pData NumBytes =
     bind (look_RdOff BufferIndex) (\<lambda>rd. bind (get_up BufferIndex) (\<lambda>r.
       let wr = WrOff r
       in if rd \<le> wr
          then
            let Avail = SizeOfBuffer r - wr - 1
            in if Avail \<ge> NumBytes then copy_straight BufferIndex pData NumBytes wr
               else if Avail + rd \<ge> NumBytes
               then
                 let Rem = SizeOfBuffer r - wr; NumBytes = NumBytes - Rem
                 in seq
                      [memcpy_up BufferIndex wr pData 0 Rem,
                       guarded (NumBytes \<noteq> 0) (memcpy_up BufferIndex 0 pData Rem NumBytes),
                       set_up BufferIndex (\<lambda>r. r\<lparr>WrOff := NumBytes\<rparr>)]
                      (ret 1)
               else ret 0
          else if rd - wr - 1 \<ge> NumBytes then copy_straight BufferIndex pData NumBytes wr
          else ret 0))"

definition SEGGER_RTT_WriteNoLock :: "u32 \<Rightarrow> u8 list \<Rightarrow> u32 \<Rightarrow> (rtt, u32) comp" where
  "SEGGER_RTT_WriteNoLock BufferIndex pData NumBytes =
     bind (get_up BufferIndex) (\<lambda>r.
       if Flags r = SEGGER_RTT_MODE_NO_BLOCK_SKIP
       then bind (GetAvailWriteSpace BufferIndex) (\<lambda>Avail.
              if Avail < NumBytes then ret 0
              else seq [WriteNoCheck BufferIndex pData NumBytes] (ret NumBytes))
       else if Flags r = SEGGER_RTT_MODE_NO_BLOCK_TRIM
       then bind (GetAvailWriteSpace BufferIndex) (\<lambda>Avail.
              let Status = (if Avail < NumBytes then Avail else NumBytes)
              in seq [WriteNoCheck BufferIndex pData Status] (ret Status))
       else if Flags r = SEGGER_RTT_MODE_BLOCK_IF_FIFO_FULL
       then WriteBlocking BufferIndex pData NumBytes
       else ret 0)"

definition SEGGER_RTT_Write :: "u32 \<Rightarrow> u8 list \<Rightarrow> u32 \<Rightarrow> (rtt, u32) comp" where
  "SEGGER_RTT_Write BufferIndex pBuf NumBytes =
     seq [INIT] (SEGGER_RTT_WriteNoLock BufferIndex pBuf NumBytes)"

text \<open>\<open>STRLEN\<close>: the bytes before the first zero.\<close>

fun STRLEN :: "u8 list \<Rightarrow> u32" where
  "STRLEN [] = 0"
| "STRLEN (c # cs) = (if c = 0 then 0 else STRLEN cs + 1)"

definition SEGGER_RTT_WriteString :: "u32 \<Rightarrow> u8 list \<Rightarrow> (rtt, u32) comp" where
  "SEGGER_RTT_WriteString BufferIndex str = SEGGER_RTT_Write BufferIndex str (STRLEN str)"

text \<open>One character.  \<open>SEGGER_RTT_PutCharSkip\<close> is the same behind \<open>INIT\<close>.\<close>

definition store_char :: "u32 \<Rightarrow> u32 \<Rightarrow> u8 \<Rightarrow> u32 \<Rightarrow> (rtt, u32) comp" where
  "store_char i wr' c rd =
     (if wr' \<noteq> rd
      then bind (get_up i) (\<lambda>r.
             seq [memcpy_up i (WrOff r) [c] 0 1, set_up i (\<lambda>x. x\<lparr>WrOff := wr'\<rparr>)] (ret 1))
      else ret 0)"

definition SEGGER_RTT_PutCharSkipNoLock :: "u32 \<Rightarrow> u8 \<Rightarrow> (rtt, u32) comp" where
  "SEGGER_RTT_PutCharSkipNoLock BufferIndex c =
     bind (get_up BufferIndex) (\<lambda>r.
     bind (look_RdOff BufferIndex) (\<lambda>rd. store_char BufferIndex (wrapped_off r (WrOff r + 1)) c rd))"

definition SEGGER_RTT_PutCharSkip :: "u32 \<Rightarrow> u8 \<Rightarrow> (rtt, u32) comp" where
  "SEGGER_RTT_PutCharSkip BufferIndex c =
     seq [INIT]
       (bind (get_up BufferIndex) (\<lambda>r.
        bind (look_RdOff BufferIndex) (\<lambda>rd. store_char BufferIndex (wrapped_off r (WrOff r + 1)) c rd)))"

text \<open>\<open>while (WrOff == pRing->RdOff) ;\<close>\<close>

partial_function (option) wait_for_room :: "u32 \<Rightarrow> u32 \<Rightarrow> rtt \<Rightarrow> (fault + unit \<times> rtt) option" where
  "wait_for_room i wr' s = bind (look_RdOff i) (\<lambda>rd s. if wr' = rd then wait_for_room i wr' s else ret () s) s"

definition SEGGER_RTT_PutChar :: "u32 \<Rightarrow> u8 \<Rightarrow> (rtt, u32) comp" where
  "SEGGER_RTT_PutChar BufferIndex c =
     seq [INIT]
       (bind (get_up BufferIndex) (\<lambda>r.
          seq [guarded (Flags r = SEGGER_RTT_MODE_BLOCK_IF_FIFO_FULL)
                 (wait_for_room BufferIndex (wrapped_off r (WrOff r + 1)))]
            (bind (look_RdOff BufferIndex)
              (\<lambda>rd. store_char BufferIndex (wrapped_off r (WrOff r + 1)) c rd))))"

section \<open>Reading\<close>

text \<open>\<open>memcpy\<close> out of the storage of a buffer.\<close>

definition memcpy_from :: "rtt_buffer \<Rightarrow> u32 \<Rightarrow> u32 \<Rightarrow> (rtt, u8 list) comp" where
  "memcpy_from r off n =
     (if n = 0 then ret []
      else
        case pBuffer r of
          None \<Rightarrow> fail Null_pointer
        | Some b \<Rightarrow>
            if unat off + unat n \<le> length b then ret (take (unat n) (drop (unat off) b))
            else fail Out_of_bounds)"

text \<open>
  The body that \<open>SEGGER_RTT_ReadNoLock\<close> and \<open>SEGGER_RTT_ReadUpNoLock\<close> have in common: the bytes read
  from the ring \<open>r\<close> and the new read offset.
\<close>

definition read_ring :: "rtt_buffer \<Rightarrow> u32 \<Rightarrow> u32 \<Rightarrow> u32 \<Rightarrow> (rtt, u8 list \<times> u32) comp" where
  "read_ring r rd wr BufferSize =
     bind
       (if rd > wr
        then
          let n = min (SizeOfBuffer r - rd) BufferSize
          in bind (memcpy_from r rd n) (\<lambda>ds.
               ret (ds, BufferSize - n, wrapped_off r (rd + n)))
        else ret ([], BufferSize, rd))
       (\<lambda>(ds, BufferSize, rd).
          let n = min (wr - rd) BufferSize
          in if n > 0 then bind (memcpy_from r rd n) (\<lambda>ds'. ret (ds @ ds', rd + n))
             else ret (ds, rd))"

definition SEGGER_RTT_ReadUpNoLock :: "u32 \<Rightarrow> u32 \<Rightarrow> (rtt, u8 list) comp" where
  "SEGGER_RTT_ReadUpNoLock BufferIndex BufferSize =
     seq [INIT]
       (bind (look_RdOff BufferIndex) (\<lambda>rd. bind (get_up BufferIndex) (\<lambda>r.
        bind (read_ring r rd (WrOff r) BufferSize) (\<lambda>(ds, rd').
          seq [guarded (ds \<noteq> []) (set_up BufferIndex (\<lambda>x. x\<lparr>RdOff := rd'\<rparr>))] (ret ds)))))"

definition SEGGER_RTT_ReadNoLock :: "u32 \<Rightarrow> u32 \<Rightarrow> (rtt, u8 list) comp" where
  "SEGGER_RTT_ReadNoLock BufferIndex BufferSize =
     seq [INIT]
       (bind (look_WrOff BufferIndex) (\<lambda>wr. bind (get_down BufferIndex) (\<lambda>r.
        bind (read_ring r (RdOff r) wr BufferSize) (\<lambda>(ds, rd').
          seq [guarded (ds \<noteq> []) (set_down BufferIndex (\<lambda>x. x\<lparr>RdOff := rd'\<rparr>))] (ret ds)))))"

definition SEGGER_RTT_Read :: "u32 \<Rightarrow> u32 \<Rightarrow> (rtt, u8 list) comp" where
  "SEGGER_RTT_Read BufferIndex BufferSize = SEGGER_RTT_ReadNoLock BufferIndex BufferSize"

definition SEGGER_RTT_GetKey :: "(rtt, u32) comp" where
  "SEGGER_RTT_GetKey =
     bind (SEGGER_RTT_Read 0 1) (\<lambda>ds. ret (if length ds = 1 then ucast (hd ds) else - 1))"

partial_function (option) SEGGER_RTT_WaitKey :: "rtt \<Rightarrow> (fault + u32 \<times> rtt) option" where
  "SEGGER_RTT_WaitKey s =
     bind SEGGER_RTT_GetKey (\<lambda>r s. if r <s 0 then SEGGER_RTT_WaitKey s else ret r s) s"

definition SEGGER_RTT_HasKey :: "(rtt, u32) comp" where
  "SEGGER_RTT_HasKey =
     seq [INIT]
       (bind (get_down 0) (\<lambda>r. bind (look_WrOff 0) (\<lambda>wr. ret (if RdOff r \<noteq> wr then 1 else 0))))"

definition SEGGER_RTT_HasData :: "u32 \<Rightarrow> (rtt, u32) comp" where
  "SEGGER_RTT_HasData BufferIndex =
     bind (look_WrOff BufferIndex) (\<lambda>v. bind (get_down BufferIndex) (\<lambda>r. ret (v - RdOff r)))"

definition SEGGER_RTT_HasDataUp :: "u32 \<Rightarrow> (rtt, u32) comp" where
  "SEGGER_RTT_HasDataUp BufferIndex =
     bind (look_RdOff BufferIndex) (\<lambda>v. bind (get_up BufferIndex) (\<lambda>r. ret (WrOff r - v)))"

section \<open>Configuration\<close>

text \<open>\<open>SEGGER_RTT_AllocDownBuffer\<close> and \<open>SEGGER_RTT_AllocUpBuffer\<close> look for a descriptor without storage.\<close>

partial_function (option) free_down :: "u32 \<Rightarrow> rtt \<Rightarrow> (fault + u32 \<times> rtt) option" where
  "free_down k s =
     bind (get_down k) (\<lambda>r s.
       if pBuffer r = None then ret k s
       else if unat (k + 1) < MaxNumDownBuffers s then free_down (k + 1) s else ret (k + 1) s) s"

partial_function (option) free_up :: "u32 \<Rightarrow> rtt \<Rightarrow> (fault + u32 \<times> rtt) option" where
  "free_up k s =
     bind (get_up k) (\<lambda>r s.
       if pBuffer r = None then ret k s
       else if unat (k + 1) < MaxNumUpBuffers s then free_up (k + 1) s else ret (k + 1) s) s"

definition configured :: "string \<Rightarrow> u8 list option \<Rightarrow> u32 \<Rightarrow> u32 \<Rightarrow> rtt_buffer" where
  "configured name buf bufsize flags =
     \<lparr>sName = name, pBuffer = buf, SizeOfBuffer = bufsize, WrOff = 0, RdOff = 0, Flags = flags\<rparr>"

definition SEGGER_RTT_AllocDownBuffer :: "string \<Rightarrow> u8 list option \<Rightarrow> u32 \<Rightarrow> u32 \<Rightarrow> (rtt, u32) comp" where
  "SEGGER_RTT_AllocDownBuffer name buf BufferSize flags =
     seq [INIT]
       (bind (free_down 0) (\<lambda>k s.
          if unat k < MaxNumDownBuffers s
          then seq [set_down k (\<lambda>_. configured name buf BufferSize flags)] (ret k) s
          else ret (- 1) s))"

definition SEGGER_RTT_AllocUpBuffer :: "string \<Rightarrow> u8 list option \<Rightarrow> u32 \<Rightarrow> u32 \<Rightarrow> (rtt, u32) comp" where
  "SEGGER_RTT_AllocUpBuffer name buf BufferSize flags =
     seq [INIT]
       (bind (free_up 0) (\<lambda>k s.
          if unat k < MaxNumUpBuffers s
          then seq [set_up k (\<lambda>_. configured name buf BufferSize flags)] (ret k) s
          else ret (- 1) s))"

text \<open>Channel 0 keeps its storage: only its flags can be configured.\<close>

definition reconfigured :: "u32 \<Rightarrow> string \<Rightarrow> u8 list option \<Rightarrow> u32 \<Rightarrow> u32 \<Rightarrow> rtt_buffer \<Rightarrow> rtt_buffer" where
  "reconfigured BufferIndex name buf bufsize flags r =
     (if BufferIndex > 0 then configured name buf bufsize flags else r\<lparr>Flags := flags\<rparr>)"

definition SEGGER_RTT_ConfigUpBuffer ::
  "u32 \<Rightarrow> string \<Rightarrow> u8 list option \<Rightarrow> u32 \<Rightarrow> u32 \<Rightarrow> (rtt, u32) comp" where
  "SEGGER_RTT_ConfigUpBuffer BufferIndex name buf BufferSize flags =
     seq [INIT]
       (\<lambda>s. if unat BufferIndex < MaxNumUpBuffers s
            then seq [set_up BufferIndex (reconfigured BufferIndex name buf BufferSize flags)] (ret 0) s
            else ret (- 1) s)"

definition SEGGER_RTT_ConfigDownBuffer ::
  "u32 \<Rightarrow> string \<Rightarrow> u8 list option \<Rightarrow> u32 \<Rightarrow> u32 \<Rightarrow> (rtt, u32) comp" where
  "SEGGER_RTT_ConfigDownBuffer BufferIndex name buf BufferSize flags =
     seq [INIT]
       (\<lambda>s. if unat BufferIndex < MaxNumDownBuffers s
            then seq [set_down BufferIndex (reconfigured BufferIndex name buf BufferSize flags)] (ret 0) s
            else ret (- 1) s)"

definition SEGGER_RTT_SetNameUpBuffer :: "u32 \<Rightarrow> string \<Rightarrow> (rtt, u32) comp" where
  "SEGGER_RTT_SetNameUpBuffer BufferIndex name =
     seq [INIT]
       (\<lambda>s. if unat BufferIndex < MaxNumUpBuffers s
            then seq [set_up BufferIndex (\<lambda>r. r\<lparr>sName := name\<rparr>)] (ret 0) s else ret (- 1) s)"

definition SEGGER_RTT_SetNameDownBuffer :: "u32 \<Rightarrow> string \<Rightarrow> (rtt, u32) comp" where
  "SEGGER_RTT_SetNameDownBuffer BufferIndex name =
     seq [INIT]
       (\<lambda>s. if unat BufferIndex < MaxNumDownBuffers s
            then seq [set_down BufferIndex (\<lambda>r. r\<lparr>sName := name\<rparr>)] (ret 0) s else ret (- 1) s)"

definition SEGGER_RTT_SetFlagsUpBuffer :: "u32 \<Rightarrow> u32 \<Rightarrow> (rtt, u32) comp" where
  "SEGGER_RTT_SetFlagsUpBuffer BufferIndex flags =
     seq [INIT]
       (\<lambda>s. if unat BufferIndex < MaxNumUpBuffers s
            then seq [set_up BufferIndex (\<lambda>r. r\<lparr>Flags := flags\<rparr>)] (ret 0) s else ret (- 1) s)"

definition SEGGER_RTT_SetFlagsDownBuffer :: "u32 \<Rightarrow> u32 \<Rightarrow> (rtt, u32) comp" where
  "SEGGER_RTT_SetFlagsDownBuffer BufferIndex flags =
     seq [INIT]
       (\<lambda>s. if unat BufferIndex < MaxNumDownBuffers s
            then seq [set_down BufferIndex (\<lambda>r. r\<lparr>Flags := flags\<rparr>)] (ret 0) s else ret (- 1) s)"

section \<open>Terminals\<close>

definition SEGGER_RTT_SetTerminal :: "u8 \<Rightarrow> (rtt, u32) comp" where
  "SEGGER_RTT_SetTerminal TerminalId =
     seq [INIT]
       (if unat TerminalId < length aTerminalId
        then
          let ac = [0xFF, aTerminalId ! unat TerminalId];
              activate = modify (\<lambda>s. s\<lparr>ActiveTerminal := TerminalId\<rparr>)
          in bind (get_up 0) (\<lambda>r.
               if Flags r AND SEGGER_RTT_MODE_MASK = SEGGER_RTT_MODE_BLOCK_IF_FIFO_FULL
               then seq [activate, ignore (WriteBlocking 0 ac 2)] (ret 0)
               else bind (GetAvailWriteSpace 0) (\<lambda>Avail.
                      if Avail \<ge> 2 then seq [activate, WriteNoCheck 0 ac 2] (ret 0) else ret (- 1)))
        else ret (- 1))"

text \<open>Switching to a terminal, writing, and switching back.\<close>

definition write_to_terminal :: "u8 \<Rightarrow> u8 list \<Rightarrow> u32 \<Rightarrow> (rtt, u32) comp" where
  "write_to_terminal TerminalId str n =
     seq [PostTerminalSwitch 0 TerminalId]
       (bind (WriteBlocking 0 str n) (\<lambda>Status s.
          seq [PostTerminalSwitch 0 (ActiveTerminal s)] (ret Status) s))"

definition SEGGER_RTT_TerminalOut :: "u8 \<Rightarrow> u8 list \<Rightarrow> (rtt, u32) comp" where
  "SEGGER_RTT_TerminalOut TerminalId str =
     seq [INIT]
       (if unat TerminalId < length aTerminalId
        then
          let FragLen = STRLEN str
          in bind (GetAvailWriteSpace 0) (\<lambda>Avail. bind (get_up 0) (\<lambda>r.
               if Flags r AND SEGGER_RTT_MODE_MASK = SEGGER_RTT_MODE_NO_BLOCK_SKIP
               then if Avail < FragLen + 4 then ret 0 else write_to_terminal TerminalId str FragLen
               else if Flags r AND SEGGER_RTT_MODE_MASK = SEGGER_RTT_MODE_NO_BLOCK_TRIM
               then if Avail < 4 then ret (- 1)
                    else write_to_terminal TerminalId str (if FragLen < Avail - 4 then FragLen else Avail - 4)
               else if Flags r AND SEGGER_RTT_MODE_MASK = SEGGER_RTT_MODE_BLOCK_IF_FIFO_FULL
               then write_to_terminal TerminalId str FragLen
               else ret (- 1)))
        else ret (- 1))"

end
