(* ===== verification/RttSpec.thy ===== *)
theory RttSpec
  imports Rtt
begin

unbundle bit_operations_syntax

text \<open>
  What the debug channel promises: nothing is lost, doubled or reordered between the writer and
  the host, whatever the host does meanwhile; a blocking writer gets done when the host keeps
  reading; what is read was written.
\<close>

section \<open>Rings\<close>

definition ring_ok :: "rtt_buffer \<Rightarrow> bool" where
  "ring_ok r \<longleftrightarrow>
     (\<exists>b. pBuffer r = Some b \<and> length b = unat (SizeOfBuffer r)) \<and>
     unat (WrOff r) < unat (SizeOfBuffer r) \<and> unat (RdOff r) < unat (SizeOfBuffer r)"

abbreviation capacity :: "rtt_buffer \<Rightarrow> nat" where
  "capacity r \<equiv> unat (SizeOfBuffer r) - 1"

lemma used_eq:
  assumes "ring_ok r"
  shows "used r = (if RdOff r \<le> WrOff r then unat (WrOff r) - unat (RdOff r)
    else unat (WrOff r) + unat (SizeOfBuffer r) - unat (RdOff r))"
  using assms by (auto simp: used_def ring_ok_def word_le_nat_alt mod_if)

lemma used_bound: "ring_ok r \<Longrightarrow> used r \<le> capacity r"
  using used_eq [of r] by (auto simp: ring_ok_def word_le_nat_alt)

lemma used_wr: "ring_ok r \<Longrightarrow> (unat (RdOff r) + used r) mod unat (SizeOfBuffer r) = unat (WrOff r)"
  using used_eq [of r] by (auto simp: ring_ok_def word_le_nat_alt mod_if)

lemma length_bytes: "ring_ok r \<Longrightarrow> length (bytes r) = used r"
  by (auto simp: bytes_def ring_ok_def)

text \<open>A ring is determined by its read offset and what it holds behind it.\<close>

lemma used_unique:
  assumes "ring_ok r" and "n < unat (SizeOfBuffer r)"
    and "(unat (RdOff r) + n) mod unat (SizeOfBuffer r) = unat (WrOff r)"
  shows "used r = n"
  using ring_index_inj [of "unat (RdOff r)" "used r" "unat (SizeOfBuffer r)" n] used_wr [OF assms(1)]
    used_bound [OF assms(1)] assms
  by auto

lemma unat_of_nat_mod:
  fixes w :: "'a::len word"
  shows "0 < unat w \<Longrightarrow> unat (of_nat (n mod unat w) :: 'a word) = n mod unat w"
proof -
  assume "0 < unat w"
  then have "n mod unat w < 2 ^ LENGTH('a)"
    using mod_less_divisor [of "unat w" n] unat_less_length [of w] by linarith
  then show ?thesis by (simp add: unat_of_nat)
qed

section \<open>Writing into a ring\<close>

definition written :: "u8 list \<Rightarrow> rtt_buffer \<Rightarrow> rtt_buffer" where
  "written ds r =
     r\<lparr>pBuffer := Some (overlay (the (pBuffer r)) (unat (WrOff r)) ds),
       WrOff := wrapped_off r (WrOff r + of_nat (length ds))\<rparr>"

lemma length_overlay: "off + length ds \<le> length b \<Longrightarrow> length (overlay b off ds) = length b"
  by (simp add: overlay_def)

lemma nth_overlay:
  "off + length ds \<le> length b \<Longrightarrow> j < length b \<Longrightarrow>
   overlay b off ds ! j = (if off \<le> j \<and> j < off + length ds then ds ! (j - off) else b ! j)"
  by (auto simp: overlay_def nth_append min_def)

lemma ring_slice_straight: "i + n \<le> k \<Longrightarrow> ring_slice xs k i n = map (\<lambda>j. xs ! (i + j)) [0..<n]"
  by (auto simp: ring_slice_def)

lemma written_simps [simp]:
  "sName (written ds r) = sName r" "SizeOfBuffer (written ds r) = SizeOfBuffer r"
  "RdOff (written ds r) = RdOff r" "Flags (written ds r) = Flags r"
  by (simp_all add: written_def)

lemma unat_off:
  assumes "unat off + n \<le> unat (sz :: u32)"
  shows "unat (off + of_nat n :: u32) = unat off + n"
  using assms unat_less_length [of sz] by (simp add: unat_word_ariths unat_of_nat)

lemma unat_add:
  assumes "unat off + unat w \<le> unat (sz :: u32)"
  shows "unat (off + w) = unat off + unat (w :: u32)"
  using unat_off [OF assms] by simp

lemma unat_wrapped:
  assumes "unat off + n \<le> unat (SizeOfBuffer r)"
  shows "unat (wrapped_off r (off + of_nat n)) =
    (if unat off + n = unat (SizeOfBuffer r) then 0 else unat off + n)"
  using unat_off [OF assms] by (simp add: wrapped_off_def word_unat_eq_iff)

lemma written_ok:
  assumes ok: "ring_ok r" and n: "used r + length ds \<le> capacity r"
    and fits: "unat (WrOff r) + length ds \<le> unat (SizeOfBuffer r)"
  shows "ring_ok (written ds r)" "used (written ds r) = used r + length ds"
    "bytes (written ds r) = bytes r @ ds"
proof -
  let ?k = "unat (SizeOfBuffer r)" and ?rd = "unat (RdOff r)" and ?wr = "unat (WrOff r)"
  obtain b where b: "pBuffer r = Some b" "length b = ?k" and off: "?wr < ?k" "?rd < ?k"
    using ok by (auto simp: ring_ok_def)
  let ?b = "overlay b ?wr ds"
  have wr: "unat (WrOff (written ds r)) = (?wr + length ds) mod ?k"
    using unat_wrapped [OF fits] off fits by (simp add: written_def)
  show ok': "ring_ok (written ds r)"
    using b off fits wr by (simp add: ring_ok_def) (simp add: written_def length_overlay)
  have u: "used r + length ds < ?k" using n off by linarith
  have "(?rd + (used r + length ds)) mod ?k = ((?rd + used r) mod ?k + length ds) mod ?k"
    by (simp add: mod_simps add.assoc)
  then have "(?rd + (used r + length ds)) mod ?k = (?wr + length ds) mod ?k"
    by (simp add: used_wr [OF ok])
  then show used: "used (written ds r) = used r + length ds"
    using used_unique [OF ok'] u wr by simp
  have "ring_slice ?b ?k ?rd (used r) = ring_slice b ?k ?rd (used r)"
    unfolding ring_slice_def
  proof (intro map_cong refl)
    fix j assume "j \<in> set [0..<used r]"
    then have j: "j < used r" by simp
    have m: "(?rd + j) mod ?k < ?k" using off by simp
    have "\<not> (?wr \<le> (?rd + j) mod ?k \<and> (?rd + j) mod ?k < ?wr + length ds)"
    proof
      assume a: "?wr \<le> (?rd + j) mod ?k \<and> (?rd + j) mod ?k < ?wr + length ds"
      define l where "l = (?rd + j) mod ?k - ?wr"
      have "(?rd + (used r + l)) mod ?k = ((?rd + used r) mod ?k + l) mod ?k"
        by (simp add: mod_simps add.assoc)
      also have "\<dots> = (?rd + j) mod ?k" using a m by (simp add: used_wr [OF ok] l_def)
      finally have "used r + l = j"
        using ring_index_inj [of ?rd "used r + l" ?k j] a u j by (auto simp: l_def)
      with j show False by simp
    qed
    then show "?b ! ((?rd + j) mod ?k) = b ! ((?rd + j) mod ?k)"
      using fits b m by (auto simp: nth_overlay)
  qed
  moreover have "ring_slice ?b ?k ?wr (length ds) = ds"
    using fits b off
    by (auto simp: ring_slice_straight nth_overlay intro!: nth_equalityI)
  moreover have "pBuffer (written ds r) = Some ?b" using b by (simp add: written_def)
  ultimately show "bytes (written ds r) = bytes r @ ds"
    using used b by (simp add: bytes_def ring_slice_add used_wr [OF ok])
qed

text \<open>Writing in one piece or in two, as the end of the storage demands.\<close>

definition put_all :: "u8 list \<Rightarrow> rtt_buffer \<Rightarrow> rtt_buffer" where
  "put_all ds r =
     (let rem = unat (SizeOfBuffer r) - unat (WrOff r)
      in if length ds < rem then written ds r else written (drop rem ds) (written (take rem ds) r))"

lemma put_all_simps [simp]:
  "sName (put_all ds r) = sName r" "SizeOfBuffer (put_all ds r) = SizeOfBuffer r"
  "RdOff (put_all ds r) = RdOff r" "Flags (put_all ds r) = Flags r"
  by (simp_all add: put_all_def Let_def)

lemma put_all_ok:
  assumes ok: "ring_ok r" and n: "used r + length ds \<le> capacity r"
  shows "ring_ok (put_all ds r)" "used (put_all ds r) = used r + length ds"
    "bytes (put_all ds r) = bytes r @ ds"
proof -
  let ?rem = "unat (SizeOfBuffer r) - unat (WrOff r)"
  let ?r = "written (take ?rem ds) r"
  have *: "ring_ok (put_all ds r) \<and> used (put_all ds r) = used r + length ds \<and> bytes (put_all ds r) = bytes r @ ds"
  proof (cases "length ds < ?rem")
    case True
    with written_ok [OF ok n] show ?thesis by (simp add: put_all_def)
  next
    case False
    have off: "unat (WrOff r) < unat (SizeOfBuffer r)" using ok by (simp add: ring_ok_def)
    have l: "length (take ?rem ds) = ?rem" using False by simp
    note w = written_ok [OF ok, of "take ?rem ds"]
    have ok1: "ring_ok ?r" "used ?r = used r + ?rem" "bytes ?r = bytes r @ take ?rem ds"
      using w n l False off by simp_all
    have "unat (WrOff ?r) = 0"
      using unat_wrapped [of "WrOff r" ?rem r] off l by (simp add: written_def)
    then have "ring_ok (written (drop ?rem ds) ?r)"
      "used (written (drop ?rem ds) ?r) = used ?r + length (drop ?rem ds)"
      "bytes (written (drop ?rem ds) ?r) = bytes ?r @ drop ?rem ds"
      using written_ok [OF ok1(1), of "drop ?rem ds"] ok1(2) n False by simp_all
    then show ?thesis using False ok1 by (simp add: put_all_def Let_def)
  qed
  then show "ring_ok (put_all ds r)" "used (put_all ds r) = used r + length ds"
    "bytes (put_all ds r) = bytes r @ ds" by simp_all
qed


section \<open>Taking out of a ring\<close>

lemma taken_simps [simp]:
  "sName (taken n r) = sName r" "pBuffer (taken n r) = pBuffer r"
  "SizeOfBuffer (taken n r) = SizeOfBuffer r" "WrOff (taken n r) = WrOff r" "Flags (taken n r) = Flags r"
  by (simp_all add: taken_def)

lemma taken_ok:
  assumes ok: "ring_ok r"
  shows "ring_ok (taken n r)" "used (taken n r) = used r - n" "bytes (taken n r) = drop n (bytes r)"
proof -
  let ?k = "unat (SizeOfBuffer r)" and ?rd = "unat (RdOff r)" and ?m = "min n (used r)"
  obtain b where b: "pBuffer r = Some b" "length b = ?k" and off: "unat (WrOff r) < ?k" "?rd < ?k"
    using ok by (auto simp: ring_ok_def)
  have rd: "unat (RdOff (taken n r)) = (?rd + ?m) mod ?k"
    using off by (simp add: taken_def unat_of_nat_mod)
  show ok': "ring_ok (taken n r)" using b off rd by (simp add: ring_ok_def)
  have "((?rd + ?m) mod ?k + (used r - ?m)) mod ?k = (?rd + ?m + (used r - ?m)) mod ?k"
    by (rule mod_add_left_eq)
  then have "((?rd + ?m) mod ?k + (used r - ?m)) mod ?k = (?rd + used r) mod ?k" by simp
  then show u: "used (taken n r) = used r - n"
    using used_unique [OF ok', of "used r - ?m"] rd used_wr [OF ok] used_bound [OF ok] off
    by (simp add: min_def split: if_splits)
  have "bytes r = ring_slice b ?k ?rd (?m + (used r - ?m))" using b by (simp add: bytes_def)
  then have "bytes r = ring_slice b ?k ?rd ?m @ ring_slice b ?k ((?rd + ?m) mod ?k) (used r - ?m)"
    by (simp only: ring_slice_add)
  then have "drop ?m (bytes r) = ring_slice b ?k ((?rd + ?m) mod ?k) (used r - ?m)" by simp
  moreover have "drop n (bytes r) = drop ?m (bytes r)" using length_bytes [OF ok] by (auto simp: min_def)
  moreover have "used r - ?m = used r - n" by (auto simp: min_def)
  ultimately show "bytes (taken n r) = drop n (bytes r)" using b u rd by (simp add: bytes_def)
qed

lemma RdOff_taken:
  assumes ok: "ring_ok r" and "unat x = (unat (RdOff r) + min n (used r)) mod unat (SizeOfBuffer r)"
  shows "RdOff (taken n r) = x"
proof -
  have "0 < unat (SizeOfBuffer r)" using ok by (auto simp: ring_ok_def)
  from unat_of_nat_mod [OF this] assms(2) show ?thesis by (simp add: taken_def word_unat_eq_iff)
qed

text \<open>A ring is a first-in first-out buffer of bytes.\<close>

definition take_byte :: "rtt_buffer \<Rightarrow> u8 \<times> rtt_buffer" where
  "take_byte r = (hd (bytes r), taken 1 r)"

lemma put_byte_written:
  assumes "ring_ok r" and "used r < capacity r"
  shows "put_byte c r = written [c] r"
proof -
  let ?k = "unat (SizeOfBuffer r)"
  obtain b where b: "pBuffer r = Some b" "length b = ?k" "unat (WrOff r) < ?k"
    using assms(1) by (auto simp: ring_ok_def)
  have "overlay b (unat (WrOff r)) [c] = b[unat (WrOff r) := c]"
    using b by (simp add: overlay_def upd_conv_take_nth_drop)
  moreover have "wrapped_off r (WrOff r + 1) = of_nat ((unat (WrOff r) + 1) mod ?k)"
    using unat_wrapped [of "WrOff r" 1 r] b unat_of_nat_mod [of "SizeOfBuffer r" "unat (WrOff r) + 1"]
    by (simp add: word_unat_eq_iff mod_if)
  ultimately show ?thesis using assms b by (simp add: put_byte_def written_def)
qed

lemma put_byte_ok:
  "ring_ok r \<Longrightarrow> used r < capacity r \<Longrightarrow>
   ring_ok (put_byte c r) \<and> bytes (put_byte c r) = bytes r @ [c] \<and> capacity (put_byte c r) = capacity r"
  using written_ok [of r "[c]"] by (simp add: put_byte_written) (simp add: ring_ok_def)

interpretation rtt_fifo: fifo put_byte take_byte bytes capacity ring_ok
proof unfold_locales
  fix r c cs v
  assume ok: "ring_ok r"
  show "length (bytes r) \<le> capacity r" using ok length_bytes used_bound by simp
  show "ring_ok (put_byte c r) \<and> bytes (put_byte c r) = bytes r @ [c] \<and> capacity (put_byte c r) = capacity r"
    if "length (bytes r) < capacity r"
    using put_byte_ok [OF ok] that length_bytes [OF ok] by simp
  show "fst (take_byte r) = v \<and> ring_ok (snd (take_byte r)) \<and> bytes (snd (take_byte r)) = cs \<and>
      capacity (snd (take_byte r)) = capacity r" if "bytes r = v # cs"
    using taken_ok [OF ok, of 1] that by (simp add: take_byte_def)
qed

section \<open>The host\<close>

definition channel_ok :: "u32 \<Rightarrow> rtt \<Rightarrow> bool" where
  "channel_ok i s \<longleftrightarrow> unat i < length (aUp s) \<and> ring_ok (aUp s ! unat i)"

abbreviation up :: "u32 \<Rightarrow> rtt \<Rightarrow> rtt_buffer" where
  "up i s \<equiv> aUp s ! unat i"

text \<open>Everything that went into the channel: what the host has taken and what it has not.\<close>

definition stream :: "u32 \<Rightarrow> rtt \<Rightarrow> u8 list" where
  "stream i s = received s (unat i) @ bytes (up i s)"

definition looked :: "u32 \<Rightarrow> rtt \<Rightarrow> rtt" where
  "looked i s = (case polls s of [] \<Rightarrow> s | n # ns \<Rightarrow> (host_takes (unat i) n s)\<lparr>polls := ns\<rparr>)"

definition with_up :: "u32 \<Rightarrow> rtt_buffer \<Rightarrow> rtt \<Rightarrow> rtt" where
  "with_up i r s = s\<lparr>aUp := (aUp s)[unat i := r]\<rparr>"

lemma with_up_simps [simp]:
  "with_up i r (with_up i r' s) = with_up i r s" "received (with_up i r s) = received s"
  "polls (with_up i r s) = polls s" "acID (with_up i r s) = acID s"
  "length (aUp (with_up i r s)) = length (aUp s)"
  "unat i < length (aUp s) \<Longrightarrow> up i (with_up i r s) = r"
  by (simp_all add: with_up_def)

lemma channel_ok_with_up: "channel_ok i s \<Longrightarrow> ring_ok r \<Longrightarrow> channel_ok i (with_up i r s)"
  by (simp add: channel_ok_def with_up_def)

lemma stream_with_up:
  "channel_ok i s \<Longrightarrow> bytes r = bytes (up i s) @ ds \<Longrightarrow> stream i (with_up i r s) = stream i s @ ds"
  by (simp add: stream_def with_up_def channel_ok_def)

lemma host_takes_stream:
  assumes "channel_ok i s"
  shows "channel_ok i (host_takes (unat i) n s)" "stream i (host_takes (unat i) n s) = stream i s"
  using assms taken_ok by (simp_all add: channel_ok_def stream_def host_takes_def)

lemma looked_ok:
  assumes c: "channel_ok i s"
  shows "look_RdOff i s = Some (Inr (RdOff (up i (looked i s)), looked i s))"
    and "channel_ok i (looked i s)" and "stream i (looked i s) = stream i s"
    and "SizeOfBuffer (up i (looked i s)) = SizeOfBuffer (up i s)"
    and "WrOff (up i (looked i s)) = WrOff (up i s)" and "Flags (up i (looked i s)) = Flags (up i s)"
    and "polls (looked i s) = tl (polls s)" and "acID (looked i s) = acID s"
    and "used (up i (looked i s)) = used (up i s) - (case polls s of [] \<Rightarrow> 0 | n # _ \<Rightarrow> n)"
proof -
  have len: "unat i < length (aUp s)" using c by (simp add: channel_ok_def)
  show "look_RdOff i s = Some (Inr (RdOff (up i (looked i s)), looked i s))"
    using len by (simp add: look_RdOff_def get_up_def exec looked_def host_takes_def split: list.split)
  show "channel_ok i (looked i s)" "stream i (looked i s) = stream i s"
    using c host_takes_stream [OF c]
    by (simp_all add: looked_def channel_ok_def stream_def split: list.split)
  show "SizeOfBuffer (up i (looked i s)) = SizeOfBuffer (up i s)"
    "WrOff (up i (looked i s)) = WrOff (up i s)" "Flags (up i (looked i s)) = Flags (up i s)"
    "polls (looked i s) = tl (polls s)" "acID (looked i s) = acID s"
    using len by (simp_all add: looked_def host_takes_def split: list.split)
  show "used (up i (looked i s)) = used (up i s) - (case polls s of [] \<Rightarrow> 0 | n # _ \<Rightarrow> n)"
    using c taken_ok(2) by (simp add: looked_def host_takes_def channel_ok_def split: list.split)
qed


section \<open>The writers\<close>

lemma channel_okE:
  assumes "channel_ok i s"
  obtains b where "unat i < length (aUp s)" "pBuffer (up i s) = Some b" "length b = unat (SizeOfBuffer (up i s))"
    "unat (WrOff (up i s)) < unat (SizeOfBuffer (up i s))" "unat (RdOff (up i s)) < unat (SizeOfBuffer (up i s))"
    "ring_ok (up i s)"
  using assms by (auto simp: channel_ok_def ring_ok_def)

lemma overlay_Nil [simp]: "overlay b off [] = b"
  by (simp add: overlay_def)

lemma with_up_same: "unat i < length (aUp s) \<Longrightarrow> with_up i (up i s) s = s"
  by (simp add: with_up_def)

lemma get_up_eq: "channel_ok i s \<Longrightarrow> get_up i s = Some (Inr (up i s, s))"
  by (simp add: get_up_def channel_ok_def exec)

lemma set_up_eq: "unat i < length (aUp s) \<Longrightarrow> set_up i f s = Some (Inr ((), with_up i (f (up i s)) s))"
  by (simp add: set_up_def exec with_up_def)

lemma memcpy_up_eq:
  assumes c: "channel_ok i s" and "unat off + unat n \<le> unat (SizeOfBuffer (up i s))"
    and "unat src + unat n \<le> length ds"
  shows "memcpy_up i off ds src n s = Some (Inr ((), with_up i ((up i s)\<lparr>pBuffer :=
    Some (overlay (the (pBuffer (up i s))) (unat off) (take (unat n) (drop (unat src) ds)))\<rparr>) s))"
proof -
  obtain b where b: "unat i < length (aUp s)" "pBuffer (up i s) = Some b" "length b = unat (SizeOfBuffer (up i s))"
    by (rule channel_okE [OF c])
  have "with_up i ((up i s)\<lparr>pBuffer := Some b\<rparr>) s = s"
    using with_up_same [OF b(1)] b(2) by (cases "up i s") simp
  then show ?thesis
    using assms b by (simp add: memcpy_up_def get_up_eq [OF c] exec set_up_eq with_up_same)
qed

lemma write_chunk:
  assumes c: "channel_ok i s" and n: "unat (WrOff (up i s)) + unat n \<le> unat (SizeOfBuffer (up i s))"
    and "unat src + unat n \<le> length ds" and sz: "SizeOfBuffer r = SizeOfBuffer (up i s)"
  shows "bind (memcpy_up i (WrOff (up i s)) ds src n)
      (\<lambda>_. bind (set_up i (\<lambda>x. x\<lparr>WrOff := wrapped_off r (WrOff (up i s) + n)\<rparr>)) k) s =
    k () (with_up i (written (take (unat n) (drop (unat src) ds)) (up i s)) s)"
proof -
  have "unat i < length (aUp s)" using c by (simp add: channel_ok_def)
  moreover have "min (length ds - unat src) (unat n) = unat n" using assms(3) by simp
  ultimately show ?thesis using assms
    by (simp add: memcpy_up_eq exec set_up_eq written_def wrapped_off_def)
qed

lemma WriteNoCheck_eq:
  assumes c: "channel_ok i s" and n: "unat n \<le> length ds" "used (up i s) + unat n \<le> capacity (up i s)"
  shows "WriteNoCheck i ds n s = Some (Inr ((), with_up i (put_all (take (unat n) ds) (up i s)) s))"
proof -
  let ?r = "up i s" and ?rem = "SizeOfBuffer (up i s) - WrOff (up i s)"
  from c obtain b where b: "unat i < length (aUp s)" "unat (WrOff ?r) < unat (SizeOfBuffer ?r)" "ring_ok ?r"
    by (rule channel_okE)
  have rem: "unat ?rem = unat (SizeOfBuffer ?r) - unat (WrOff ?r)"
    using b by (simp add: unat_sub word_le_nat_alt)
  show ?thesis
  proof (cases "?rem > n")
    case True
    then have lt: "unat (WrOff ?r) + unat n < unat (SizeOfBuffer ?r)" using rem b by (simp add: word_less_nat_alt)
    then have "wrapped_off ?r (WrOff ?r + n) = WrOff ?r + n"
      using unat_off [of "WrOff ?r" "unat n" "SizeOfBuffer ?r"] by (auto simp: wrapped_off_def)
    then show ?thesis
      using True n lt rem write_chunk [OF c, of n 0 ds ?r ret]
      by (simp add: WriteNoCheck_def get_up_eq [OF c] exec Let_def put_all_def)
        (simp add: memcpy_up_eq [OF c] set_up_eq b exec written_def min_def)
  next
    case False
    then have le: "unat ?rem \<le> unat n" by (simp add: word_less_nat_alt)
    let ?s1 = "with_up i (?r\<lparr>pBuffer := Some (overlay (the (pBuffer ?r)) (unat (WrOff ?r)) (take (unat ?rem) ds))\<rparr>) s"
    have m1: "memcpy_up i (WrOff ?r) ds 0 ?rem s = Some (Inr ((), ?s1))"
      using memcpy_up_eq [OF c, of "WrOff ?r" ?rem 0 ds] le n rem b by simp
    have d: "unat (n - ?rem) = unat n - unat ?rem" using le by (simp add: unat_sub word_le_nat_alt)
    let ?d1 = "take (unat ?rem) ds" and ?d2 = "take (unat (n - ?rem)) (drop (unat ?rem) ds)"
    let ?b1 = "overlay (the (pBuffer ?r)) (unat (WrOff ?r)) ?d1"
    obtain x where x: "pBuffer ?r = Some x" "length x = unat (SizeOfBuffer ?r)"
      using b by (auto simp: ring_ok_def)
    have l1: "length ?d1 = unat ?rem" using le n by simp
    have "length ?b1 = unat (SizeOfBuffer ?r)"
      using x rem b l1 by (simp add: length_overlay)
    then have c1: "channel_ok i ?s1" using c b by (simp add: channel_ok_with_up ring_ok_def)
    have lt: "unat (n - ?rem) < unat (SizeOfBuffer ?r)" using n(2) d b by linarith
    have m2: "memcpy_up i 0 ds ?rem (n - ?rem) ?s1 =
        Some (Inr ((), with_up i (?r\<lparr>pBuffer := Some (overlay ?b1 0 ?d2)\<rparr>) s))"
      using memcpy_up_eq [OF c1, of 0 "n - ?rem" ?rem ds] le lt n(1) d b(1) by simp
    have l2: "length ?d2 = unat (n - ?rem)" using d n(1) le by simp
    have "WrOff ?r + of_nat (length ?d1) = SizeOfBuffer ?r"
      using l1 unat_off [of "WrOff ?r" "unat ?rem" "SizeOfBuffer ?r"] rem b by (simp add: word_unat_eq_iff)
    then have w1: "written ?d1 ?r = ?r\<lparr>pBuffer := Some ?b1, WrOff := 0\<rparr>"
      by (simp add: written_def wrapped_off_def)
    have "n - ?rem \<noteq> SizeOfBuffer ?r" using lt by (metis less_irrefl)
    then have "written ?d2 (written ?d1 ?r) = ?r\<lparr>pBuffer := Some (overlay ?b1 0 ?d2), WrOff := n - ?rem\<rparr>"
      unfolding w1 using l2 by (simp add: written_def wrapped_off_def)
    moreover have "take (unat ?rem) (take (unat n) ds) = ?d1" "drop (unat ?rem) (take (unat n) ds) = ?d2"
      using le d by (simp_all add: take_drop min_def)
    ultimately have "put_all (take (unat n) ds) ?r = ?r\<lparr>pBuffer := Some (overlay ?b1 0 ?d2), WrOff := n - ?rem\<rparr>"
      using le n(1) rem by (simp add: put_all_def Let_def)
    then show ?thesis
      using False m1 m2 b(1)
      by (simp add: WriteNoCheck_def get_up_eq [OF c] exec Let_def set_up_eq)
  qed
qed


lemma unat_free:
  fixes d w k :: u32
  assumes "d \<le> w" and "w < k"
  shows "unat (k - 1 - w + d) = unat k - 1 - (unat w - unat d)"
proof -
  have "unat (w - d) = unat w - unat d" using assms(1) by (simp add: unat_sub word_le_nat_alt)
  moreover have "unat (k - 1) = unat k - 1" using assms(2) by (intro unat_minus_one) auto
  moreover have "w - d \<le> k - 1"
    using assms calculation by (simp add: word_le_nat_alt word_less_nat_alt)
  moreover have "k - 1 - w + d = (k - 1) - (w - d)" by simp
  ultimately show ?thesis by (simp only: unat_sub)
qed

lemma GetAvail_eq:
  assumes c: "channel_ok i s"
  shows "\<exists>a. GetAvailWriteSpace i s = Some (Inr (a, looked i s)) \<and>
    unat a = capacity (up i (looked i s)) - used (up i (looked i s))"
proof -
  let ?r = "up i (looked i s)"
  obtain b where b: "unat (WrOff ?r) < unat (SizeOfBuffer ?r)" "unat (RdOff ?r) < unat (SizeOfBuffer ?r)" "ring_ok ?r"
    by (rule channel_okE [OF looked_ok(2) [OF c]])
  let ?a = "if RdOff ?r \<le> WrOff ?r then SizeOfBuffer ?r - 1 - WrOff ?r + RdOff ?r else RdOff ?r - WrOff ?r - 1"
  have "GetAvailWriteSpace i s = Some (Inr (?a, looked i s))"
    by (simp add: GetAvailWriteSpace_def looked_ok(1) [OF c] get_up_eq [OF looked_ok(2) [OF c]] exec)
  moreover have "unat ?a = capacity ?r - used ?r"
  proof (cases "RdOff ?r \<le> WrOff ?r")
    case True
    then show ?thesis
      using b used_eq [OF b(3)] unat_free [of "RdOff ?r" "WrOff ?r" "SizeOfBuffer ?r"]
      by (simp add: word_less_nat_alt)
  next
    case False
    then have "unat (RdOff ?r - WrOff ?r) = unat (RdOff ?r) - unat (WrOff ?r)"
      by (simp add: unat_sub word_le_nat_alt)
    moreover from this have "RdOff ?r - WrOff ?r \<noteq> 0" using False by auto
    ultimately show ?thesis
      using False b used_eq [OF b(3)] by (simp add: unat_minus_one)
  qed
  ultimately show ?thesis by blast
qed

text \<open>
  The two modes that do not block: the number of bytes written depends on the room \<open>k\<close> there is
  when the writer looks.
\<close>

definition accepted :: "u32 \<Rightarrow> nat \<Rightarrow> nat \<Rightarrow> nat" where
  "accepted flags k n =
     (if flags = SEGGER_RTT_MODE_NO_BLOCK_SKIP then (if n \<le> k then n else 0)
      else if flags = SEGGER_RTT_MODE_NO_BLOCK_TRIM then min k n else 0)"

lemma put_all_Nil: "ring_ok r \<Longrightarrow> put_all [] r = r"
  by (cases r) (auto simp: put_all_def written_def wrapped_off_def ring_ok_def)

lemma WriteNoLock_eq:
  assumes c: "channel_ok i s" and n: "unat n \<le> length ds"
    and m: "Flags (up i s) = SEGGER_RTT_MODE_NO_BLOCK_SKIP \<or> Flags (up i s) = SEGGER_RTT_MODE_NO_BLOCK_TRIM"
    and s1: "s1 = looked i s"
    and a: "a = accepted (Flags (up i s)) (capacity (up i s1) - used (up i s1)) (unat n)"
  shows "SEGGER_RTT_WriteNoLock i ds n s =
    Some (Inr (of_nat a, with_up i (put_all (take a ds) (up i s1)) s1))"
proof -
  have c1: "channel_ok i s1" using looked_ok(2) [OF c] s1 by simp
  then have r1: "ring_ok (up i s1)" "unat i < length (aUp s1)" by (simp_all add: channel_ok_def)
  from GetAvail_eq [OF c] obtain k where k: "GetAvailWriteSpace i s = Some (Inr (k, s1))"
    "unat k = capacity (up i s1) - used (up i s1)" unfolding s1 by blast
  have nc: "WriteNoCheck i ds w s1 = Some (Inr ((), with_up i (put_all (take (unat w) ds) (up i s1)) s1))"
    if "w \<le> k" "w \<le> n" for w
  proof (rule WriteNoCheck_eq [OF c1])
    show "unat w \<le> length ds" using that n by (simp add: word_le_nat_alt)
    show "used (up i s1) + unat w \<le> capacity (up i s1)"
      using that k(2) used_bound [OF r1(1)] by (simp add: word_le_nat_alt)
  qed
  from m show ?thesis
  proof
    assume f: "Flags (up i s) = SEGGER_RTT_MODE_NO_BLOCK_SKIP"
    show ?thesis
    proof (cases "k < n")
      case True
      then have "a = 0" using a f k(2) by (simp add: accepted_def word_less_nat_alt)
      with True f k(1) r1 show ?thesis
        by (simp add: SEGGER_RTT_WriteNoLock_def get_up_eq [OF c] exec put_all_Nil with_up_same)
    next
      case False
      then have "a = unat n" using a f k(2) by (simp add: accepted_def word_less_nat_alt)
      with False f k(1) nc [of n] show ?thesis
        by (simp add: SEGGER_RTT_WriteNoLock_def get_up_eq [OF c] exec)
    qed
  next
    assume f: "Flags (up i s) = SEGGER_RTT_MODE_NO_BLOCK_TRIM"
    let ?w = "if k < n then k else n"
    have "a = unat ?w" using a f k(2) by (simp add: accepted_def word_less_nat_alt)
    moreover have "?w \<le> k" "?w \<le> n" by auto
    ultimately show ?thesis using f k(1) nc [of ?w]
      by (simp add: SEGGER_RTT_WriteNoLock_def get_up_eq [OF c] exec Let_def)
  qed
qed

lemma INIT_done: "acID s ! 0 \<noteq> 0 \<Longrightarrow> seq [INIT] m s = m s"
  by (simp add: seq_def INIT_def exec)

text \<open>
  A channel for examples: a ring of eight bytes that holds three and has room for four, with the
  configured \<open>flags\<close>; the host takes \<open>ps\<close> bytes at its turns and types six characters.
\<close>

definition example_ring :: "u32 \<Rightarrow> rtt_buffer" where
  "example_ring flags =
     \<lparr>sName = ''example'', pBuffer = Some [1, 2, 3, 4, 5, 6, 7, 8], SizeOfBuffer = 8, WrOff = 6, RdOff = 3,
      Flags = flags\<rparr>"

definition example_rtt :: "u32 \<Rightarrow> nat list \<Rightarrow> rtt" where
  "example_rtt flags ps =
     \<lparr>acID = [0x53], MaxNumUpBuffers = 1, MaxNumDownBuffers = 1, aUp = [example_ring flags],
      aDown = [example_ring flags], ActiveTerminal = 0, polls = ps, typed = [[10, 11, 12]], received = (\<lambda>_. [])\<rparr>"

lemma example_ring_ok: "ring_ok (example_ring flags)"
  by (simp add: ring_ok_def example_ring_def)

lemma example_ring_used: "used (example_ring flags) = 3" "SizeOfBuffer (example_ring flags) = 8"
  "Flags (example_ring flags) = flags"
  by (simp_all add: used_def example_ring_def)

lemma example_ring_bytes: "bytes (example_ring flags) = [4, 5, 6]"
  using example_ring_used by (simp add: bytes_def example_ring_def ring_slice_def upt_rec)

lemma example_channel: "channel_ok 0 (example_rtt flags ps)"
  by (simp add: channel_ok_def example_rtt_def example_ring_ok)

lemma example_stream: "stream 0 (example_rtt flags ps) = [4, 5, 6]"
  by (simp add: stream_def example_rtt_def example_ring_bytes)

text \<open>
  C18: writing without blocking, whatever the host does meanwhile: the bytes written are a prefix of the data
  and stand behind everything that went into the channel before, nothing is lost or doubled.
  In skip mode it is all or nothing, in trim mode as much as there is room for, in both all of
  the data when there was room for it before.
\<close>

theorem rtt_write_appends:
  assumes c: "channel_ok i s" and "acID s ! 0 \<noteq> 0" and n: "unat n \<le> length ds"
    and m: "Flags (up i s) = SEGGER_RTT_MODE_NO_BLOCK_SKIP \<or> Flags (up i s) = SEGGER_RTT_MODE_NO_BLOCK_TRIM"
  shows "\<exists>k s'. SEGGER_RTT_Write i ds n s = Some (Inr (k, s')) \<and> channel_ok i s' \<and> k \<le> n \<and>
    stream i s' = stream i s @ take (unat k) ds \<and>
    (Flags (up i s) = SEGGER_RTT_MODE_NO_BLOCK_SKIP \<longrightarrow> k = 0 \<or> k = n) \<and>
    (Flags (up i s) = SEGGER_RTT_MODE_NO_BLOCK_TRIM \<longrightarrow> k = n \<or> used (up i s') = capacity (up i s')) \<and>
    (used (up i s) + unat n \<le> capacity (up i s) \<longrightarrow> k = n)"
proof -
  note l = looked_ok [OF c]
  let ?s1 = "looked i s"
  define a where "a = accepted (Flags (up i s)) (capacity (up i ?s1) - used (up i ?s1)) (unat n)"
  let ?s' = "with_up i (put_all (take a ds) (up i ?s1)) ?s1"
  have an: "a \<le> unat n" "a \<le> capacity (up i ?s1) - used (up i ?s1)"
    by (auto simp: a_def accepted_def min_def)
  then have ua: "unat (of_nat a :: u32) = a"
    using unat_less_length [of n] by (simp add: unat_of_nat)
  have r1: "ring_ok (up i ?s1)" "unat i < length (aUp ?s1)" using l(2) by (simp_all add: channel_ok_def)
  have la: "length (take a ds) = a" using an n by simp
  have p: "ring_ok (put_all (take a ds) (up i ?s1))" "used (put_all (take a ds) (up i ?s1)) = used (up i ?s1) + a"
    "bytes (put_all (take a ds) (up i ?s1)) = bytes (up i ?s1) @ take a ds"
    using put_all_ok [OF r1(1), of "take a ds"] la an(2) used_bound [OF r1(1)] by simp_all
  have "SEGGER_RTT_Write i ds n s = Some (Inr (of_nat a, ?s'))"
    using WriteNoLock_eq [OF c n m refl a_def] assms(2) by (simp add: SEGGER_RTT_Write_def INIT_done)
  moreover have "channel_ok i ?s'" using l(2) p(1) by (rule channel_ok_with_up)
  moreover have "stream i ?s' = stream i s @ take a ds"
    using stream_with_up [OF l(2) p(3)] l(3) by simp
  moreover have "(of_nat a :: u32) \<le> n" using an(1) ua by (simp add: word_le_nat_alt)
  moreover have "of_nat a = n \<longleftrightarrow> a = unat n" using ua by (auto simp: word_unat_eq_iff)
  moreover have "used (up i s) + unat n \<le> capacity (up i s) \<longrightarrow> a = unat n"
    using m l(4,9) by (auto simp: a_def accepted_def)
  moreover have "Flags (up i s) = SEGGER_RTT_MODE_NO_BLOCK_TRIM \<longrightarrow> a = unat n \<or> used (up i ?s') = capacity (up i ?s')"
    using r1(2) p(2) used_bound [OF r1(1)] by (auto simp: a_def accepted_def min_def)
  moreover have "Flags (up i s) = SEGGER_RTT_MODE_NO_BLOCK_SKIP \<longrightarrow> a = 0 \<or> a = unat n"
    by (simp add: a_def accepted_def)
  ultimately show ?thesis using ua by (intro exI [of _ "of_nat a"] exI [of _ ?s']) auto
qed


theorem rtt_write_appends_witness:
  "\<exists>k s'. SEGGER_RTT_Write 0 [20, 21, 22] 3 (example_rtt 1 [1]) = Some (Inr (k, s')) \<and> k = 3 \<and>
    stream 0 s' = [4, 5, 6, 20, 21, 22]"
  using rtt_write_appends [of 0 "example_rtt 1 [1]" 3 "[20, 21, 22]"] example_channel [of 1 "[1]"]
    example_stream [of 1 "[1]"]
  by (auto simp: example_rtt_def example_ring_used)


section \<open>The blocking writer\<close>

lemma unat_chunk:
  assumes "ring_ok r"
  shows "unat (blocking_chunk r (RdOff r) (WrOff r) n) =
    min (min (capacity r - used r) (unat (SizeOfBuffer r) - unat (WrOff r))) (unat n)"
proof -
  have off: "unat (WrOff r) < unat (SizeOfBuffer r)" "unat (RdOff r) < unat (SizeOfBuffer r)"
    using assms by (auto simp: ring_ok_def)
  have umin: "unat (min x y) = min (unat x) (unat y)" for x y :: u32
    by (simp add: min_def word_le_nat_alt)
  have "unat (if RdOff r > WrOff r then RdOff r - WrOff r - 1
      else SizeOfBuffer r - (WrOff r - RdOff r + 1)) = capacity r - used r"
  proof (cases "RdOff r > WrOff r")
    case True
    then have "unat (RdOff r - WrOff r) = unat (RdOff r) - unat (WrOff r)"
      by (simp add: unat_sub word_le_nat_alt word_less_nat_alt)
    moreover have "RdOff r - WrOff r \<noteq> 0" using True by auto
    ultimately show ?thesis
      using True off used_eq [OF assms] by (simp add: unat_minus_one word_le_nat_alt word_less_nat_alt)
  next
    case False
    then have le: "RdOff r \<le> WrOff r" by simp
    have e: "SizeOfBuffer r - (WrOff r - RdOff r + 1) = SizeOfBuffer r - 1 - WrOff r + RdOff r" by simp
    have "unat (SizeOfBuffer r - 1 - WrOff r + RdOff r) = capacity r - (unat (WrOff r) - unat (RdOff r))"
      using unat_free [OF le, of "SizeOfBuffer r"] off by (simp add: word_less_nat_alt)
    moreover have "used r = unat (WrOff r) - unat (RdOff r)" using used_eq [OF assms] le by simp
    ultimately show ?thesis by (simp only: if_not_P [OF False] e)
  qed
  moreover have "unat (SizeOfBuffer r - WrOff r) = unat (SizeOfBuffer r) - unat (WrOff r)"
    using off by (simp add: unat_sub word_le_nat_alt)
  ultimately show ?thesis by (simp add: blocking_chunk_def umin Let_def)
qed

lemma bind_returns: "m s = Some (Inr (a, s')) \<Longrightarrow> bind m f s = f a s'"
  by (simp add: bind_def)

text \<open>One turn of the loop, with \<open>again\<close> for what follows it.\<close>

definition WriteBlocking_body ::
  "(u32 \<Rightarrow> u8 list \<Rightarrow> u32 \<Rightarrow> u32 \<Rightarrow> u32 \<Rightarrow> rtt \<Rightarrow> (fault + u32 \<times> rtt) option) \<Rightarrow>
   u32 \<Rightarrow> u8 list \<Rightarrow> u32 \<Rightarrow> u32 \<Rightarrow> u32 \<Rightarrow> rtt \<Rightarrow> (fault + u32 \<times> rtt) option" where
  "WriteBlocking_body again i pBuf NumBytesWritten NumBytes wr s =
     bind (look_RdOff i) (\<lambda>rd. bind (get_up i) (\<lambda>r.
     bind (ret (blocking_chunk r rd wr NumBytes)) (\<lambda>n.
     bind (memcpy_up i wr pBuf NumBytesWritten n) (\<lambda>_.
     bind (set_up i (\<lambda>x. x\<lparr>WrOff := wrapped_off r (wr + n)\<rparr>)) (\<lambda>_ s.
       if NumBytes - n \<noteq> 0
       then again i pBuf (NumBytesWritten + n) (NumBytes - n) (wrapped_off r (wr + n)) s
       else ret (NumBytesWritten + n) s))))) s"

lemma WriteBlocking_loop_body: "WriteBlocking_loop = WriteBlocking_body WriteBlocking_loop"
  by (intro ext) (subst WriteBlocking_loop.simps, simp only: WriteBlocking_body_def)

lemma WriteBlocking_turn:
  assumes c: "channel_ok i s" and wr: "wr = WrOff (up i s)" and len: "unat pos + unat n \<le> length ds"
    and s1: "s1 = looked i s"
    and ch: "w = blocking_chunk (up i s1) (RdOff (up i s1)) wr n"
    and s2: "s2 = with_up i (written (take (unat w) (drop (unat pos) ds)) (up i s1)) s1"
  shows "WriteBlocking_body again i ds pos n wr s =
      (if n - w \<noteq> 0 then again i ds (pos + w) (n - w) (WrOff (up i s2)) s2
       else Some (Inr (pos + w, s2)))"
    and "channel_ok i s2" "stream i s2 = stream i s @ take (unat w) (drop (unat pos) ds)"
    and "used (up i s2) = used (up i s1) + unat w" "unat w \<le> unat n"
    and "unat w = min (min (capacity (up i s1) - used (up i s1))
      (unat (SizeOfBuffer (up i s1)) - unat (WrOff (up i s1)))) (unat n)"
proof -
  note l = looked_ok [OF c]
  let ?r = "up i s1" and ?d = "take (unat w) (drop (unat pos) ds)"
  have c1: "channel_ok i s1" and wr1: "wr = WrOff ?r" using l(2,5) s1 wr by simp_all
  then have r1: "ring_ok ?r" "unat i < length (aUp s1)" by (simp_all add: channel_ok_def)
  show uw: "unat w = min (min (capacity ?r - used ?r) (unat (SizeOfBuffer ?r) - unat (WrOff ?r))) (unat n)"
    using unat_chunk [OF r1(1)] ch wr1 by simp
  then show wn: "unat w \<le> unat n" by simp
  have ld: "length ?d = unat w" using len wn by simp
  have fits: "unat (WrOff ?r) + unat w \<le> unat (SizeOfBuffer ?r)"
    using uw r1(1) by (auto simp: ring_ok_def)
  have room: "used ?r + unat w \<le> capacity ?r"
    using uw used_bound [OF r1(1)] by linarith
  have w: "ring_ok (written ?d ?r)" "used (written ?d ?r) = used ?r + unat w"
    "bytes (written ?d ?r) = bytes ?r @ ?d"
    using written_ok [OF r1(1), of ?d] room fits by (simp_all only: ld)
  show "channel_ok i s2" using c1 w(1) s2 by (simp add: channel_ok_with_up)
  show "stream i s2 = stream i s @ ?d" using stream_with_up [OF c1 w(3)] l(3) s1 s2 by simp
  show "used (up i s2) = used ?r + unat w" using w(2) r1(2) s2 by simp
  let ?K = "\<lambda>_ s. if n - w \<noteq> 0
    then again i ds (pos + w) (n - w) (wrapped_off ?r (wr + w)) s else ret (pos + w) s"
  have "WriteBlocking_body again i ds pos n wr s =
      bind (memcpy_up i wr ds pos w) (\<lambda>_. bind (set_up i (\<lambda>x. x\<lparr>WrOff := wrapped_off ?r (wr + w)\<rparr>)) ?K) s1"
    by (simp only: WriteBlocking_body_def bind_returns [of "look_RdOff i" s, OF l(1), folded s1]
        bind_returns [of "get_up i" s1, OF get_up_eq [OF c1]] bind_ret ch)
  also have "\<dots> = ?K () s2"
    using write_chunk [OF c1 fits, of pos ds ?r ?K] len wn by (simp only: wr1 s2)
  also have "wrapped_off ?r (wr + w) = WrOff (up i s2)"
    using r1(2) ld wr1 s2 by (simp add: written_def)
  finally show "WriteBlocking_body again i ds pos n wr s =
      (if n - w \<noteq> 0 then again i ds (pos + w) (n - w) (WrOff (up i s2)) s2
       else Some (Inr (pos + w, s2)))"
    by (simp add: ret_apply)
qed


text \<open>When the host takes at least one byte before each look, every turn writes at least one.\<close>

lemma WriteBlocking_done:
  assumes "channel_ok i s" and "wr = WrOff (up i s)" and "unat pos + unat n \<le> length ds" and "n \<noteq> 0"
    and "unat (pos + n) = unat pos + unat n"
    and "1 < unat (SizeOfBuffer (up i s))" and "\<forall>p\<in>set (polls s). 0 < p" and "unat n \<le> length (polls s)"
  shows "\<exists>s'. WriteBlocking_loop i ds pos n wr s = Some (Inr (pos + n, s')) \<and> channel_ok i s' \<and>
    stream i s' = stream i s @ take (unat n) (drop (unat pos) ds)"
  using assms
proof (induction "unat n" arbitrary: pos n wr s rule: less_induct)
  case less
  note c = less.prems(1) and l = looked_ok [OF less.prems(1)]
  define s1 where "s1 = looked i s"
  define w where "w = blocking_chunk (up i s1) (RdOff (up i s1)) wr n"
  define s2 where "s2 = with_up i (written (take (unat w) (drop (unat pos) ds)) (up i s1)) s1"
  note turn = WriteBlocking_turn(1) [OF c less.prems(2,3) s1_def w_def s2_def,
      of WriteBlocking_loop, folded WriteBlocking_loop_body]
    WriteBlocking_turn(2-6) [OF c less.prems(2,3) s1_def w_def s2_def]
  have r1: "ring_ok (up i s1)" using l(2) by (simp add: s1_def channel_ok_def)
  obtain p ps where ps: "polls s = p # ps" "0 < p"
    using less.prems(4,7,8) by (cases "polls s") (auto simp: unat_eq_zero)
  have "used (up i s1) = used (up i s) - p" using l(9) ps(1) by (simp add: s1_def)
  moreover have "used (up i s) \<le> capacity (up i s)" using c used_bound by (simp add: channel_ok_def)
  ultimately have free: "0 < capacity (up i s1) - used (up i s1)"
    using ps(2) less.prems(6) l(4) by (simp add: s1_def)
  then have pos: "0 < unat w"
    using turn(6) less.prems(4) r1 by (simp add: ring_ok_def unat_gt_0)
  show ?case
  proof (cases "n - w = 0")
    case True
    then have "w = n" by simp
    with turn(1-3) show ?thesis by (intro exI [of _ s2]) simp
  next
    case False
    have nw: "unat (n - w) = unat n - unat w" using turn(5) by (simp add: unat_sub word_le_nat_alt)
    have pw: "unat (pos + w) = unat pos + unat w"
      using less.prems(5) turn(5) unat_less_length [of "pos + n"] by (simp add: unat_word_ariths)
    have polls: "polls s2 = ps" using l(7) ps(1) by (simp add: s1_def s2_def)
    have "SizeOfBuffer (up i s2) = SizeOfBuffer (up i s)"
      using r1 l(2,4) by (simp add: s2_def s1_def channel_ok_def)
    then have sz: "1 < unat (SizeOfBuffer (up i s2))" using less.prems(6) by simp
    have small: "unat (n - w) < unat n" "unat (n - w) \<le> length (polls s2)"
      using nw pos turn(5) less.prems(8) ps(1) polls by simp_all
    have len: "unat (pos + w) + unat (n - w) \<le> length ds"
      "unat (pos + w + (n - w)) = unat (pos + w) + unat (n - w)"
      using less.prems(3,5) nw pw turn(5) by simp_all
    have "\<forall>p\<in>set (polls s2). 0 < p" using less.prems(7) ps(1) polls by simp
    with less.hyps [OF small(1) turn(2) refl len(1) False len(2) sz] small(2) obtain s' where s':
      "WriteBlocking_loop i ds (pos + w) (n - w) (WrOff (up i s2)) s2 = Some (Inr (pos + w + (n - w), s'))"
      "channel_ok i s'"
      "stream i s' = stream i s2 @ take (unat (n - w)) (drop (unat (pos + w)) ds)"
      by blast
    have "pos + w + (n - w) = pos + n" by simp
    moreover have "stream i s' = stream i s @ take (unat n) (drop (unat pos) ds)"
    proof -
      have "take (unat n) (drop (unat pos) ds) =
          take (unat w) (drop (unat pos) ds) @ take (unat (n - w)) (drop (unat (pos + w)) ds)"
        using take_add [of "unat w" "unat (n - w)" "drop (unat pos) ds"] turn(5)
        unfolding pw nw by (simp add: add.commute)
      then show ?thesis using s'(3) turn(3) by simp
    qed
    ultimately show ?thesis using s' turn(1) False by (intro exI [of _ s']) simp
  qed
qed

text \<open>When the host stands still and the data do not fit, the loop goes on for ever.\<close>

lemma WriteBlocking_stuck:
  assumes "WriteBlocking_loop i ds pos n wr s = Some y"
  shows "\<not> (channel_ok i s \<and> wr = WrOff (up i s) \<and> unat pos + unat n \<le> length ds \<and>
    unat (pos + n) = unat pos + unat n \<and> polls s = [] \<and> capacity (up i s) < used (up i s) + unat n)"
proof (rule WriteBlocking_loop.raw_induct
    [where P = "\<lambda>i ds pos n wr s y. \<not> (channel_ok i s \<and> wr = WrOff (up i s) \<and>
       unat pos + unat n \<le> length ds \<and> unat (pos + n) = unat pos + unat n \<and> polls s = [] \<and>
       capacity (up i s) < used (up i s) + unat n)", OF _ assms], intro notI, elim conjE)
  fix again i ds pos n wr s y
  assume ih: "\<And>i ds pos n wr s y. again i ds pos n wr s = Some y \<Longrightarrow>
      \<not> (channel_ok i s \<and> wr = WrOff (up i s) \<and> unat pos + unat n \<le> length ds \<and>
        unat (pos + n) = unat pos + unat n \<and> polls s = [] \<and> capacity (up i s) < used (up i s) + unat n)"
    and body: "bind (look_RdOff i) (\<lambda>rd. bind (get_up i) (\<lambda>r.
       bind (ret (blocking_chunk r rd wr n)) (\<lambda>w.
       bind (memcpy_up i wr ds pos w) (\<lambda>_.
       bind (set_up i (\<lambda>x. x\<lparr>WrOff := wrapped_off r (wr + w)\<rparr>)) (\<lambda>_ s.
         if n - w \<noteq> 0 then again i ds (pos + w) (n - w) (wrapped_off r (wr + w)) s
         else ret (pos + w) s))))) s = Some y"
    and c: "channel_ok i s" and wr: "wr = WrOff (up i s)" and len: "unat pos + unat n \<le> length ds"
    and sum: "unat (pos + n) = unat pos + unat n" and idle: "polls s = []"
    and full: "capacity (up i s) < used (up i s) + unat n"
  have l: "looked i s = s" using idle by (simp add: looked_def)
  define w where "w = blocking_chunk (up i s) (RdOff (up i s)) wr n"
  define s2 where "s2 = with_up i (written (take (unat w) (drop (unat pos) ds)) (up i s)) s"
  note turn = WriteBlocking_turn(1) [OF c wr len l [symmetric] w_def s2_def, of again]
    WriteBlocking_turn(2-6) [OF c wr len l [symmetric] w_def s2_def]
  have r: "used (up i s) \<le> capacity (up i s)" using c used_bound by (simp add: channel_ok_def)
  have nw: "unat (n - w) = unat n - unat w" using turn(5) by (simp add: unat_sub word_le_nat_alt)
  have room: "used (up i s) + unat w \<le> capacity (up i s)" using turn(6) r by linarith
  then have "n - w \<noteq> 0" using nw full by auto
  then have a: "again i ds (pos + w) (n - w) (WrOff (up i s2)) s2 = Some y"
    using body turn(1) by (simp add: WriteBlocking_body_def)
  have "unat (pos + w) = unat pos + unat w"
    using sum turn(5) unat_less_length [of "pos + n"] by (simp add: unat_word_ariths)
  moreover have "polls s2 = []" "SizeOfBuffer (up i s2) = SizeOfBuffer (up i s)"
    using idle c by (simp_all add: s2_def channel_ok_def)
  ultimately show False using ih [OF a] turn(2,4,5) nw len sum full by simp
qed

text \<open>
  C19: in the blocking mode a write gets done whenever the host keeps reading, however little it takes at a
  time: it returns the number of bytes, and all of them stand, in order, behind everything that
  went into the channel before.  When the host stands still and the data do not fit, the write
  never returns, with the interrupts locked out.
\<close>

theorem rtt_blocking_write_completes:
  assumes c: "channel_ok i s" and "acID s ! 0 \<noteq> 0" and n: "unat n \<le> length ds" "n \<noteq> 0"
    and m: "Flags (up i s) = SEGGER_RTT_MODE_BLOCK_IF_FIFO_FULL" and sz: "1 < unat (SizeOfBuffer (up i s))"
  shows "((\<forall>p\<in>set (polls s). 0 < p) \<and> unat n \<le> length (polls s) \<longrightarrow>
      (\<exists>s'. SEGGER_RTT_Write i ds n s = Some (Inr (n, s')) \<and> channel_ok i s' \<and>
        stream i s' = stream i s @ take (unat n) ds)) \<and>
    (polls s = [] \<and> capacity (up i s) < used (up i s) + unat n \<longrightarrow> SEGGER_RTT_Write i ds n s = None)"
proof -
  have w: "SEGGER_RTT_Write i ds n s = WriteBlocking_loop i ds 0 n (WrOff (up i s)) s"
    unfolding SEGGER_RTT_Write_def INIT_done [OF assms(2)]
    using m by (simp add: SEGGER_RTT_WriteNoLock_def WriteBlocking_def bind_returns [of "get_up i" s, OF get_up_eq [OF c]])
  show ?thesis unfolding w
  proof (intro conjI impI)
    assume "(\<forall>p\<in>set (polls s). 0 < p) \<and> unat n \<le> length (polls s)"
    then show "\<exists>s'. WriteBlocking_loop i ds 0 n (WrOff (up i s)) s = Some (Inr (n, s')) \<and> channel_ok i s' \<and>
        stream i s' = stream i s @ take (unat n) ds"
      using WriteBlocking_done [OF c refl, of 0 n ds] n sz by simp
  next
    assume "polls s = [] \<and> capacity (up i s) < used (up i s) + unat n"
    then show "WriteBlocking_loop i ds 0 n (WrOff (up i s)) s = None"
      using WriteBlocking_stuck [of i ds 0 n "WrOff (up i s)" s] c n(1)
      by (cases "WriteBlocking_loop i ds 0 n (WrOff (up i s)) s") simp_all
  qed
qed


theorem rtt_blocking_write_completes_witness:
  "(\<exists>s'. SEGGER_RTT_Write 0 [20, 21, 22] 3 (example_rtt 2 [1, 1, 2]) = Some (Inr (3, s')) \<and>
      stream 0 s' = [4, 5, 6, 20, 21, 22]) \<and>
   SEGGER_RTT_Write 0 [20, 21, 22, 23, 24] 5 (example_rtt 2 []) = None"
  using rtt_blocking_write_completes [of 0 "example_rtt 2 [1, 1, 2]" 3 "[20, 21, 22]"]
    rtt_blocking_write_completes [of 0 "example_rtt 2 []" 5 "[20, 21, 22, 23, 24]"]
    example_channel [of 2] example_stream [of 2]
  by (auto simp: example_rtt_def example_ring_used)

section \<open>The skipping writer\<close>

lemma get_up_in: "unat i < length (aUp s) \<Longrightarrow> get_up i s = Some (Inr (up i s, s))"
  by (simp add: get_up_def exec)

lemma memcpy_up_none: "unat i < length (aUp s) \<Longrightarrow> memcpy_up i off ds src 0 s = Some (Inr ((), s))"
  by (simp add: memcpy_up_def bind_returns [of "get_up i" s, OF get_up_in] ret_apply)

lemma memcpy_up_length: "memcpy_up i off ds src n s = Some (Inr ((), s')) \<Longrightarrow> length (aUp s') = length (aUp s)"
  by (auto simp: memcpy_up_def get_up_def set_up_def exec split: if_splits option.splits)

lemma skip_straight:
  assumes "unat i < length (aUp s)" and "n < SizeOfBuffer (up i s) - WrOff (up i s)"
  shows "copy_straight i ds n (WrOff (up i s)) s = bind (WriteNoCheck i ds n) (\<lambda>_. ret 1) s"
  using assms by (simp add: copy_straight_def WriteNoCheck_def seq_def bind_assoc Let_def
      bind_returns [of "get_up i" s, OF get_up_in])

lemma skip_around:
  assumes i: "unat i < length (aUp s)" and n: "\<not> n < SizeOfBuffer (up i s) - WrOff (up i s)"
    and rem: "rem = SizeOfBuffer (up i s) - WrOff (up i s)"
  shows "seq
      [memcpy_up i (WrOff (up i s)) ds 0 rem, guarded (n - rem \<noteq> 0) (memcpy_up i 0 ds rem (n - rem)),
       set_up i (\<lambda>r. r\<lparr>WrOff := n - rem\<rparr>)]
      (ret 1) s = bind (WriteNoCheck i ds n) (\<lambda>_. ret 1) s"
proof -
  let ?m = "memcpy_up i (WrOff (up i s)) ds 0 rem" and ?k = "set_up i (\<lambda>r. r\<lparr>WrOff := n - rem\<rparr>)"
  have g: "guarded (n - rem \<noteq> 0) (memcpy_up i 0 ds rem (n - rem)) s' = memcpy_up i 0 ds rem (n - rem) s'"
    if "?m s = Some (Inr ((), s'))" for s'
    using memcpy_up_length [OF that] i memcpy_up_none by (auto simp: guarded_apply)
  have "bind ?m (\<lambda>_. bind (guarded (n - rem \<noteq> 0) (memcpy_up i 0 ds rem (n - rem))) (\<lambda>_. ?k)) s =
      bind ?m (\<lambda>_. bind (memcpy_up i 0 ds rem (n - rem)) (\<lambda>_. ?k)) s"
    using g by (simp add: bind_def split: option.split sum.split prod.split)
  then have "block [?m, guarded (n - rem \<noteq> 0) (memcpy_up i 0 ds rem (n - rem)), ?k] s = WriteNoCheck i ds n s"
    using n rem by (simp add: WriteNoCheck_def Let_def bind_returns [of "get_up i" s, OF get_up_in [OF i]]
        block.simps bind_laws)
  then show ?thesis by (simp add: seq_def bind_def)
qed

lemma WriteSkip_run:
  assumes c: "channel_ok i s" and s1: "s1 = looked i s"
    and k: "unat k = capacity (up i s1) - used (up i s1)"
  shows "SEGGER_RTT_WriteSkipNoLock i ds n s =
    (if k < n then Some (Inr (0, s1)) else bind (WriteNoCheck i ds n) (\<lambda>_. ret 1) s1)"
proof -
  let ?r = "up i s1"
  have c1: "channel_ok i s1" and l: "look_RdOff i s = Some (Inr (RdOff ?r, s1))"
    using looked_ok(1,2) [OF c] by (simp_all add: s1)
  obtain b where b: "unat i < length (aUp s1)" "unat (WrOff ?r) < unat (SizeOfBuffer ?r)"
    "unat (RdOff ?r) < unat (SizeOfBuffer ?r)" "ring_ok ?r"
    by (rule channel_okE [OF c1])
  have rem: "unat (SizeOfBuffer ?r - WrOff ?r) = unat (SizeOfBuffer ?r) - unat (WrOff ?r)"
    using b by (simp add: unat_sub word_le_nat_alt)
  show ?thesis
  proof (cases "RdOff ?r \<le> WrOff ?r")
    case True
    let ?rem = "SizeOfBuffer ?r - WrOff ?r"
    have a: "unat (?rem - 1) = unat ?rem - 1" using b(2) by (intro unat_minus_one) auto
    have "?rem - 1 + RdOff ?r = SizeOfBuffer ?r - 1 - WrOff ?r + RdOff ?r" by simp
    then have kk: "?rem - 1 + RdOff ?r = k"
      using k unat_free [OF True, of "SizeOfBuffer ?r"] used_eq [OF b(4)] True b(2)
      by (simp add: word_unat_eq_iff word_less_nat_alt)
    have le: "?rem - 1 \<le> k"
      using a k used_eq [OF b(4)] True rem b(2) by (simp add: word_le_nat_alt)
    have lt: "n < ?rem \<longleftrightarrow> n \<le> ?rem - 1"
      using a rem b(2) by (auto simp: word_le_nat_alt word_less_nat_alt)
    have "SEGGER_RTT_WriteSkipNoLock i ds n s =
        (if n \<le> ?rem - 1 then copy_straight i ds n (WrOff ?r) s1
         else if n \<le> k
         then seq [memcpy_up i (WrOff ?r) ds 0 ?rem,
                   guarded (n - ?rem \<noteq> 0) (memcpy_up i 0 ds ?rem (n - ?rem)),
                   set_up i (\<lambda>r. r\<lparr>WrOff := n - ?rem\<rparr>)] (ret 1) s1
         else Some (Inr (0, s1)))"
      using True by (simp only: SEGGER_RTT_WriteSkipNoLock_def Let_def
          bind_returns [of "look_RdOff i" s, OF l] bind_returns [of "get_up i" s1, OF get_up_in [OF b(1)]]
          kk if_True if_comp_apply ret_apply)
    then show ?thesis
      using skip_straight [OF b(1), of n ds] skip_around [OF b(1) _ refl, of n ds] le lt by auto
  next
    case False
    have "RdOff ?r - WrOff ?r - 1 = k"
    proof -
      have "unat (RdOff ?r - WrOff ?r) = unat (RdOff ?r) - unat (WrOff ?r)"
        using False by (simp add: unat_sub word_le_nat_alt)
      moreover have "RdOff ?r - WrOff ?r \<noteq> 0" using False by auto
      ultimately show ?thesis
        using k used_eq [OF b(4)] False b by (simp add: word_unat_eq_iff unat_minus_one)
    qed
    moreover have "n < SizeOfBuffer ?r - WrOff ?r" if "n \<le> k"
      using that k used_eq [OF b(4)] False b rem by (simp add: word_le_nat_alt word_less_nat_alt)
    ultimately show ?thesis
      using False skip_straight [OF b(1), of n ds]
      by (simp add: SEGGER_RTT_WriteSkipNoLock_def Let_def
          bind_returns [of "look_RdOff i" s, OF l] bind_returns [of "get_up i" s1, OF get_up_in [OF b(1)]]
          ret_apply if_comp_apply) auto
  qed
qed

text \<open>
  C37: \<open>SEGGER_RTT_WriteSkipNoLock\<close>, the version of the skip mode tuned for speed, does to the channel what
  \<open>SEGGER_RTT_WriteNoLock\<close> does in that mode, and answers 1 where that answers with the number of
  bytes.
\<close>

theorem rtt_skip_equivalent:
  assumes c: "channel_ok i s" and n: "n \<noteq> 0" and m: "Flags (up i s) = SEGGER_RTT_MODE_NO_BLOCK_SKIP"
  shows "SEGGER_RTT_WriteSkipNoLock i ds n s =
    (case SEGGER_RTT_WriteNoLock i ds n s of
       None \<Rightarrow> None
     | Some (Inl e) \<Rightarrow> Some (Inl e)
     | Some (Inr (k, s')) \<Rightarrow> Some (Inr (if k = 0 then 0 else 1, s')))"
proof -
  define s1 where "s1 = looked i s"
  let ?r = "up i s1"
  obtain k where k: "GetAvailWriteSpace i s = Some (Inr (k, s1))" "unat k = capacity ?r - used ?r"
    using GetAvail_eq [OF c] unfolding s1_def by blast
  have "SEGGER_RTT_WriteSkipNoLock i ds n s =
      (if k < n then Some (Inr (0, s1)) else bind (WriteNoCheck i ds n) (\<lambda>_. ret 1) s1)"
    by (rule WriteSkip_run [OF c s1_def k(2)])
  moreover have "SEGGER_RTT_WriteNoLock i ds n s =
      (if k < n then Some (Inr (0, s1)) else bind (WriteNoCheck i ds n) (\<lambda>_. ret n) s1)"
    using m by (simp add: SEGGER_RTT_WriteNoLock_def bind_returns [of "get_up i" s, OF get_up_eq [OF c]]
        bind_returns [of "GetAvailWriteSpace i" s, OF k(1)] ret_apply if_comp_apply seq_def block.simps bind_laws)
  ultimately show ?thesis
    using n by (simp add: bind_def ret_apply split: option.split sum.split prod.split)
qed

theorem rtt_skip_equivalent_witness:
  "SEGGER_RTT_WriteSkipNoLock 0 [20, 21, 22] 3 (example_rtt 0 [1]) =
    (case SEGGER_RTT_WriteNoLock 0 [20, 21, 22] 3 (example_rtt 0 [1]) of
       None \<Rightarrow> None
     | Some (Inl e) \<Rightarrow> Some (Inl e)
     | Some (Inr (k, s')) \<Rightarrow> Some (Inr (if k = 0 then 0 else 1, s')))"
  using rtt_skip_equivalent [of 0 "example_rtt 0 [1]" 3 "[20, 21, 22]"] example_channel [of 0 "[1]"]
  by (simp add: example_rtt_def example_ring_used)

end
