(* ===== verification/RttRead.thy ===== *)
theory RttRead
  imports RttSpec
begin

text \<open>
  Reading from the rings of the debug channel, and the overwriting writer.
\<close>

section \<open>Reading\<close>

lemma slice_straight: "i + n \<le> length b \<Longrightarrow> i + n \<le> k \<Longrightarrow> ring_slice b k i n = take n (drop i b)"
  by (auto simp: ring_slice_straight intro!: nth_equalityI)

lemma bytes_eq:
  assumes ok: "ring_ok r" and b: "pBuffer r = Some b"
  shows "bytes r = (if RdOff r \<le> WrOff r then take (unat (WrOff r) - unat (RdOff r)) (drop (unat (RdOff r)) b)
    else drop (unat (RdOff r)) b @ take (unat (WrOff r)) b)"
proof -
  let ?k = "unat (SizeOfBuffer r)" and ?rd = "unat (RdOff r)" and ?wr = "unat (WrOff r)"
  have l: "length b = ?k" "?wr < ?k" "?rd < ?k" using assms by (auto simp: ring_ok_def)
  show ?thesis
  proof (cases "RdOff r \<le> WrOff r")
    case True
    then have "used r = ?wr - ?rd" using used_eq [OF ok] by simp
    with True l b show ?thesis by (simp add: bytes_def slice_straight word_le_nat_alt)
  next
    case False
    then have u: "used r = (?k - ?rd) + ?wr" using used_eq [OF ok] l by simp
    have "bytes r = ring_slice b ?k ?rd (?k - ?rd) @ ring_slice b ?k ((?rd + (?k - ?rd)) mod ?k) ?wr"
      unfolding bytes_def u by (simp only: b option.case ring_slice_add)
    with False l show ?thesis by (simp add: slice_straight)
  qed
qed

lemma memcpy_from_eq:
  "pBuffer r = Some b \<Longrightarrow> unat off + unat n \<le> length b \<Longrightarrow>
   memcpy_from r off n s = Some (Inr (take (unat n) (drop (unat off) b), s))"
  by (auto simp: memcpy_from_def exec)

lemma min_wrap:
  fixes n k rd wr :: nat
  shows "k - rd \<le> n \<Longrightarrow> rd < k \<Longrightarrow> rd + min n ((k - rd) + wr) = k + min wr (n - (k - rd))"
  by linarith

lemma read_ring_eq:
  assumes ok: "ring_ok r"
  shows "read_ring r (RdOff r) (WrOff r) n s =
    Some (Inr ((take (unat n) (bytes r), RdOff (taken (unat n) r)), s))"
proof -
  let ?k = "unat (SizeOfBuffer r)" and ?rd = "unat (RdOff r)" and ?wr = "unat (WrOff r)"
  obtain b where b: "pBuffer r = Some b" "length b = ?k" and off: "?wr < ?k" "?rd < ?k"
    using ok by (auto simp: ring_ok_def)
  have umin: "unat (min x y) = min (unat x) (unat y)" for x y :: u32
    by (simp add: min_def word_le_nat_alt)
  show ?thesis
  proof (cases "RdOff r \<le> WrOff r")
    case True
    let ?n = "min (WrOff r - RdOff r) n"
    have n: "unat ?n = min (?wr - ?rd) (unat n)" using True by (simp add: umin unat_sub word_le_nat_alt)
    have u: "used r = ?wr - ?rd" using used_eq [OF ok] True by simp
    have lt: "?rd + unat ?n < ?k" using n off True by (simp add: word_le_nat_alt)
    then have "unat (RdOff r + ?n) = ?rd + unat ?n" using unat_add [of "RdOff r" ?n "SizeOfBuffer r"] by simp
    then have "RdOff (taken (unat n) r) = RdOff r + ?n"
      using n u lt by (intro RdOff_taken [OF ok]) (simp add: min.commute)
    moreover have "take (unat ?n) (drop ?rd b) = take (unat n) (bytes r)"
      using bytes_eq [OF ok b(1)] True n by (simp add: min.commute)
    moreover have "memcpy_from r (RdOff r) ?n s = Some (Inr (take (unat ?n) (drop ?rd b), s))"
      using memcpy_from_eq [OF b(1), of "RdOff r" ?n] n b off True by (simp add: word_le_nat_alt)
    ultimately show ?thesis
      using True by (auto simp: read_ring_def exec Let_def memcpy_from_def word_neq_0_conv [symmetric])
  next
    case False
    let ?n = "min (SizeOfBuffer r - RdOff r) n"
    have n: "unat ?n = min (?k - ?rd) (unat n)" using off by (simp add: umin unat_sub word_le_nat_alt)
    have u: "used r = (?k - ?rd) + ?wr" using used_eq [OF ok] False off by simp
    have "memcpy_from r (RdOff r) ?n s = Some (Inr (take (unat ?n) (drop ?rd b), s))"
      using memcpy_from_eq [OF b(1), of "RdOff r" ?n] n b off by simp
    then have first: "read_ring r (RdOff r) (WrOff r) n s =
        (let rd = wrapped_off r (RdOff r + ?n); m = min (WrOff r - rd) (n - ?n)
         in if m > 0
            then bind (memcpy_from r rd m) (\<lambda>ds'. ret (take (unat ?n) (drop ?rd b) @ ds', rd + m)) s
            else Some (Inr ((take (unat ?n) (drop ?rd b), rd), s)))"
    proof -
      assume m: "memcpy_from r (RdOff r) ?n s = Some (Inr (take (unat ?n) (drop ?rd b), s))"
      have lt: "WrOff r < RdOff r" using False by simp
      show ?thesis
        unfolding read_ring_def if_P [OF lt] Let_def bind_assoc bind_ret
          bind_returns [of "memcpy_from r (RdOff r) ?n" s, OF m]
        by (simp only: prod.case if_comp_apply ret_apply)
    qed
    have bs: "bytes r = drop ?rd b @ take ?wr b" using bytes_eq [OF ok b(1)] False by simp
    have sum: "unat (RdOff r + ?n) = ?rd + unat ?n"
      using unat_add [of "RdOff r" ?n "SizeOfBuffer r"] n off by simp
    show ?thesis
    proof (cases "?k - ?rd \<le> unat n")
      case True
      then have "RdOff r + ?n = SizeOfBuffer r" using n sum off by (simp add: word_unat_eq_iff)
      then have rd: "wrapped_off r (RdOff r + ?n) = 0" by (simp add: wrapped_off_def)
      let ?m = "min (WrOff r) (n - ?n)"
      have m: "unat ?m = min ?wr (unat n - (?k - ?rd))"
        using True n by (simp add: umin unat_sub word_le_nat_alt)
      have "RdOff (taken (unat n) r) = ?m"
      proof (rule RdOff_taken [OF ok])
        have "?rd + min (unat n) (used r) = ?k + unat ?m"
          unfolding m u using True off(2) by (rule min_wrap)
        moreover have "unat ?m < ?k" using m off by simp
        ultimately show "unat ?m = (?rd + min (unat n) (used r)) mod ?k" by simp
      qed
      moreover have "memcpy_from r 0 ?m s = Some (Inr (take (unat ?m) b, s))"
        using memcpy_from_eq [OF b(1), of 0 ?m] m b off by simp
      moreover have "take (unat n) (bytes r) = drop ?rd b @ take (unat ?m) b"
        using bs True m b by (simp add: min.commute)
      moreover have "take (unat ?n) (drop ?rd b) = drop ?rd b" using n True b by simp
      ultimately show ?thesis
        using first rd by (cases "?m = 0") (simp_all add: Let_def bind_def ret_apply word_neq_0_conv)
    next
      case less: False
      then have "unat ?n = unat n" using n by simp
      then have nn: "?n = n" by (simp add: word_unat_eq_iff)
      have "RdOff r + n \<noteq> SizeOfBuffer r" using sum less off nn by (auto simp: word_unat_eq_iff)
      then have rd: "wrapped_off r (RdOff r + n) = RdOff r + n" by (simp add: wrapped_off_def)
      have "RdOff (taken (unat n) r) = RdOff r + n"
        using sum nn less u off by (intro RdOff_taken [OF ok]) simp
      moreover have "take (unat n) (bytes r) = take (unat n) (drop ?rd b)" using bs less b by simp
      ultimately show ?thesis using first rd nn by (simp add: Let_def)
    qed
  qed
qed

section \<open>The reader\<close>

abbreviation down :: "u32 \<Rightarrow> rtt \<Rightarrow> rtt_buffer" where
  "down i s \<equiv> aDown s ! unat i"

definition down_ok :: "u32 \<Rightarrow> rtt \<Rightarrow> bool" where
  "down_ok i s \<longleftrightarrow> unat i < length (aDown s) \<and> ring_ok (down i s)"

text \<open>What the host puts in before the next look: as much as there is room for.\<close>

definition arriving :: "u32 \<Rightarrow> rtt \<Rightarrow> u8 list" where
  "arriving i s =
     (case typed s of [] \<Rightarrow> [] | cs # _ \<Rightarrow> take (capacity (down i s) - used (down i s)) cs)"

lemma put_byte_full: "ring_ok r \<Longrightarrow> used r = capacity r \<Longrightarrow> put_byte c r = r"
  by (auto simp: put_byte_def ring_ok_def)

lemma put_bytes_ok:
  "ring_ok r \<Longrightarrow>
   ring_ok (fold put_byte cs r) \<and> capacity (fold put_byte cs r) = capacity r \<and>
   bytes (fold put_byte cs r) = bytes r @ take (capacity r - used r) cs"
proof (induction cs arbitrary: r)
  case (Cons c cs)
  show ?case
  proof (cases "used r = capacity r")
    case True
    with Cons put_byte_full show ?thesis by simp
  next
    case False
    then have lt: "used r < capacity r" using used_bound [OF Cons.prems] by simp
    note p = put_byte_ok [OF Cons.prems lt, of c]
    then have "used (put_byte c r) = Suc (used r)"
      using length_bytes [of "put_byte c r"] length_bytes [OF Cons.prems] by simp
    then have c: "capacity r - used r = Suc (capacity (put_byte c r) - used (put_byte c r))"
      using p lt by simp
    have "take (capacity r - used r) (c # cs) = c # take (capacity (put_byte c r) - used (put_byte c r)) cs"
      unfolding c by simp
    with p Cons.IH [of "put_byte c r"] show ?thesis by (simp del: take_Cons')
  qed
qed simp

definition with_down :: "u32 \<Rightarrow> rtt_buffer \<Rightarrow> rtt \<Rightarrow> rtt" where
  "with_down i r s = s\<lparr>aDown := (aDown s)[unat i := r]\<rparr>"

lemma look_WrOff_ok:
  assumes d: "down_ok i s"
  obtains s' where "look_WrOff i s = Some (Inr (WrOff (down i s'), s'))" and "down_ok i s'"
    and "bytes (down i s') = bytes (down i s) @ arriving i s" and "typed s' = tl (typed s)"
    and "acID s' = acID s" and "aUp s' = aUp s"
proof -
  have len: "unat i < length (aDown s)" and ok: "ring_ok (down i s)" using d by (simp_all add: down_ok_def)
  let ?s = "case typed s of [] \<Rightarrow> s
    | cs # css \<Rightarrow> s\<lparr>aDown := (aDown s)[unat i := fold put_byte cs (down i s)], typed := css\<rparr>"
  have "look_WrOff i s = Some (Inr (WrOff (down i ?s), ?s))"
    using len by (simp add: look_WrOff_def get_down_def exec split: list.split)
  moreover have "down_ok i ?s" "bytes (down i ?s) = bytes (down i s) @ arriving i s"
    using d put_bytes_ok [OF ok] by (simp_all add: down_ok_def arriving_def split: list.split)
  moreover have "typed ?s = tl (typed s)" "acID ?s = acID s" "aUp ?s = aUp s"
    by (simp_all split: list.split)
  ultimately show ?thesis using that by blast
qed

text \<open>
  C20: what the host types is what the target reads: \<open>SEGGER_RTT_Read\<close> hands over the oldest bytes of
  the channel in their order, as many as were asked for or are there, those that arrive at the
  last moment included; the rest stays in the channel for the next call, and nothing is lost
  as long as it fits into the ring.
\<close>

theorem rtt_read_in_order:
  assumes d: "down_ok i s" and init: "acID s ! 0 \<noteq> 0"
  shows "\<exists>ds s'. returns (SEGGER_RTT_Read i n) s ds s' \<and>
    ds @ bytes (down i s') = bytes (down i s) @ arriving i s \<and>
    length ds = min (unat n) (length (bytes (down i s) @ arriving i s)) \<and>
    down_ok i s' \<and> typed s' = tl (typed s) \<and> acID s' = acID s \<and> aUp s' = aUp s"
proof -
  obtain s1 where look: "look_WrOff i s = Some (Inr (WrOff (down i s1), s1))" and d1: "down_ok i s1"
    and b1: "bytes (down i s1) = bytes (down i s) @ arriving i s" and t1: "typed s1 = tl (typed s)"
    "acID s1 = acID s" "aUp s1 = aUp s"
    using look_WrOff_ok [OF d] .
  let ?r = "down i s1"
  have ok: "ring_ok ?r" and len: "unat i < length (aDown s1)" using d1 by (simp_all add: down_ok_def)
  let ?ds = "take (unat n) (bytes ?r)"
  let ?s2 = "with_down i (taken (unat n) ?r) s1"
  have g: "get_down i s1 = Some (Inr (?r, s1))" using len by (simp add: get_down_def exec)
  have run: "SEGGER_RTT_Read i n s =
      seq [guarded (?ds \<noteq> []) (set_down i (\<lambda>x. x\<lparr>RdOff := RdOff (taken (unat n) ?r)\<rparr>))] (ret ?ds) s1"
    unfolding SEGGER_RTT_Read_def SEGGER_RTT_ReadNoLock_def INIT_done [OF init]
      bind_returns [of "look_WrOff i" s, OF look] bind_returns [of "get_down i" s1, OF g]
      bind_returns [of "read_ring ?r (RdOff ?r) (WrOff ?r) n" s1, OF read_ring_eq [OF ok]] prod.case ..
  have same: "taken (unat n) ?r = ?r" if "?ds = []"
  proof -
    have "min (unat n) (used ?r) = 0" using that length_bytes [OF ok] by (auto simp: min_def)
    with RdOff_taken [OF ok, of "RdOff ?r" "unat n"] have "RdOff (taken (unat n) ?r) = RdOff ?r"
      using ok by (simp add: ring_ok_def)
    then show ?thesis by (simp add: taken_def)
  qed
  have set_r: "?r\<lparr>RdOff := RdOff (taken (unat n) ?r)\<rparr> = taken (unat n) ?r" by (simp add: taken_def)
  have "guarded (?ds \<noteq> []) (set_down i (\<lambda>x. x\<lparr>RdOff := RdOff (taken (unat n) ?r)\<rparr>)) s1 = Some (Inr ((), ?s2))"
  proof (cases "?ds = []")
    case True
    then show ?thesis by (simp only: guarded_apply same with_down_def list_update_id) simp
  next
    case False
    then show ?thesis using len
      by (simp only: guarded_apply set_down_def if_True if_P not_False_eq_True set_r with_down_def modify_apply)
  qed
  then have "returns (SEGGER_RTT_Read i n) s ?ds ?s2"
    unfolding run returns_def seq_apply block_apply by (simp only: bind_def option.case sum.case prod.case ret_apply)
  moreover have "bytes (down i ?s2) = drop (unat n) (bytes ?r)" "down_ok i ?s2"
    "typed ?s2 = typed s1" "acID ?s2 = acID s1" "aUp ?s2 = aUp s1"
    using taken_ok [OF ok] len by (simp_all add: with_down_def down_ok_def)
  moreover have "length ?ds = min (unat n) (length (bytes ?r))" by simp
  moreover have "?ds @ drop (unat n) (bytes ?r) = bytes ?r" by (rule append_take_drop_id)
  ultimately show ?thesis using b1 t1 by metis
qed

theorem rtt_read_in_order_witness:
  "\<exists>ds s'. returns (SEGGER_RTT_Read 0 2) (example_rtt 0 [1]) ds s' \<and>
    ds @ bytes (down 0 s') = [4, 5, 6, 10, 11, 12]"
proof -
  have "down_ok 0 (example_rtt 0 [1])" by (simp add: down_ok_def example_rtt_def example_ring_ok)
  then obtain ds s' where "returns (SEGGER_RTT_Read 0 2) (example_rtt 0 [1]) ds s'"
    "ds @ bytes (down 0 s') = bytes (down 0 (example_rtt 0 [1])) @ arriving 0 (example_rtt 0 [1])"
    using rtt_read_in_order [of 0 "example_rtt 0 [1]" 2] by (auto simp: example_rtt_def)
  then show ?thesis
    by (intro exI [of _ ds] exI [of _ s'])
      (simp add: example_rtt_def example_ring_bytes example_ring_used arriving_def)
qed

end
