(* ===== verification/RttSafe.thy ===== *)
theory RttSafe
  imports RttRead
begin

unbundle bit_operations_syntax

text \<open>
  The control block of the debug channel as a type: what is well-formed, and that the calls of
  \<open>src/src/segger/SEGGER_RTT.c\<close> neither touch memory outside the buffers nor spoil it, in any order, whatever
  the host does.
\<close>

section \<open>Weakest preconditions\<close>

text \<open>\<open>wp m Q s\<close>: started in \<open>s\<close>, \<open>m\<close> does not fault, and what it returns, if it does, satisfies \<open>Q\<close>.\<close>

definition outcome :: "('a \<Rightarrow> 's \<Rightarrow> bool) \<Rightarrow> fault + 'a \<times> 's \<Rightarrow> bool" where
  "outcome Q y = (case y of Inl e \<Rightarrow> False | Inr (a, s) \<Rightarrow> Q a s)"

definition wp :: "('s, 'a) comp \<Rightarrow> ('a \<Rightarrow> 's \<Rightarrow> bool) \<Rightarrow> 's \<Rightarrow> bool" where
  "wp m Q s = (case m s of None \<Rightarrow> True | Some y \<Rightarrow> outcome Q y)"

lemma wp_bind: "wp (bind m f) Q = wp m (\<lambda>a. wp (f a) Q)"
  by (rule ext) (simp add: wp_def outcome_def bind_def split: option.split sum.split prod.split)

lemma wp_ret: "wp (ret a) Q = Q a"
  by (rule ext) (simp add: wp_def outcome_def exec)

lemma wp_modify: "wp (modify f) Q s = Q () (f s)"
  by (simp add: wp_def outcome_def exec)

lemma wp_if: "wp (if b then m else k) Q = (if b then wp m Q else wp k Q)"
  by simp

lemma wp_seq:
  "wp (seq [] k) Q = wp k Q" "wp (seq (m # ms) k) Q = wp m (\<lambda>_. wp (seq ms k) Q)"
  by (simp_all add: seq_def block.simps bind_laws wp_bind [symmetric])

lemma wp_block:
  "wp (block []) Q = Q ()" "wp (block (m # ms)) Q = wp m (\<lambda>_. wp (block ms) Q)"
  by (simp_all add: block.simps wp_bind wp_ret)

lemma wp_guarded: "wp (guarded b m) Q = (if b then wp m Q else Q ())"
  by (simp add: guarded_def wp_ret)

lemma wp_ignore: "wp (ignore m) Q = wp m (\<lambda>_. Q ())"
  by (simp add: ignore_def wp_bind wp_ret)

lemma wp_fail: "wp (fail e) Q s = False"
  by (simp add: wp_def outcome_def exec)

lemmas wp_simps = wp_bind wp_ret wp_modify wp_if wp_seq wp_block wp_guarded wp_ignore wp_fail

lemma wp_mono: "wp m P s \<Longrightarrow> (\<And>a s. P a s \<Longrightarrow> Q a s) \<Longrightarrow> wp m Q s"
  by (auto simp: wp_def outcome_def split: option.splits sum.splits)

lemma wp_result:
  "wp m P s \<Longrightarrow> (\<And>a s'. m s = Some (Inr (a, s')) \<Longrightarrow> P a s' \<Longrightarrow> Q a s') \<Longrightarrow> wp m Q s"
  by (auto simp: wp_def outcome_def split: option.splits sum.splits)

lemma wp_some: "(\<And>y. m s = Some y \<Longrightarrow> outcome Q y) \<Longrightarrow> wp m Q s"
  by (simp add: wp_def split: option.split)

lemma wp_returns: "m s = Some (Inr (a, s')) \<Longrightarrow> wp m Q s = Q a s'"
  by (simp add: wp_def outcome_def)

section \<open>Well-formed control blocks\<close>

text \<open>A descriptor is a ring, or has no storage; the channels 0 always are rings.\<close>

definition buffer_ok :: "rtt_buffer \<Rightarrow> bool" where
  "buffer_ok r \<longleftrightarrow> ring_ok r \<or> pBuffer r = None \<and> SizeOfBuffer r = 0 \<and> WrOff r = 0 \<and> RdOff r = 0"

definition buffers_ok :: "rtt_buffer list \<Rightarrow> nat \<Rightarrow> bool" where
  "buffers_ok rs n \<longleftrightarrow> rs \<noteq> [] \<and> length rs = n \<and> n < 2 ^ 32 \<and> (\<forall>r\<in>set rs. buffer_ok r) \<and> ring_ok (rs ! 0)"

definition rtt_ok :: "rtt \<Rightarrow> bool" where
  "rtt_ok s \<longleftrightarrow> acID s ! 0 \<noteq> 0 \<and> unat (ActiveTerminal s) < length aTerminalId \<and>
     buffers_ok (aUp s) (MaxNumUpBuffers s) \<and> buffers_ok (aDown s) (MaxNumDownBuffers s)"

lemma buffers_ok_update:
  "buffers_ok rs n \<Longrightarrow> buffer_ok r \<Longrightarrow> (k = 0 \<Longrightarrow> ring_ok r) \<Longrightarrow> buffers_ok (rs[k := r]) n"
proof -
  assume b: "buffers_ok rs n" and r: "buffer_ok r" "k = 0 \<Longrightarrow> ring_ok r"
  have "set (rs[k := r]) \<subseteq> insert r (set rs)" by (rule set_update_subset_insert)
  then have "\<forall>x\<in>set (rs[k := r]). buffer_ok x" using b r(1) by (auto simp: buffers_ok_def)
  moreover have "ring_ok (rs[k := r] ! 0)" using b r(2) by (cases "k = 0") (auto simp: buffers_ok_def)
  ultimately show ?thesis using b by (simp add: buffers_ok_def)
qed

lemma buffers_ok_nth: "buffers_ok rs n \<Longrightarrow> k < length rs \<Longrightarrow> buffer_ok (rs ! k)"
  by (simp add: buffers_ok_def)

lemma rtt_ok_with_up:
  "rtt_ok s \<Longrightarrow> buffer_ok r \<Longrightarrow> (unat i = 0 \<Longrightarrow> ring_ok r) \<Longrightarrow> rtt_ok (with_up i r s)"
  by (simp add: rtt_ok_def with_up_def buffers_ok_update)

lemma rtt_ok_ring: "rtt_ok s \<Longrightarrow> ring_ok r \<Longrightarrow> rtt_ok (with_up i r s)"
  by (simp add: rtt_ok_with_up buffer_ok_def)

lemma rtt_ok_with_down:
  "rtt_ok s \<Longrightarrow> buffer_ok r \<Longrightarrow> (unat i = 0 \<Longrightarrow> ring_ok r) \<Longrightarrow> rtt_ok (with_down i r s)"
  by (simp add: rtt_ok_def with_down_def buffers_ok_update)

lemma rtt_ok_ring_down: "rtt_ok s \<Longrightarrow> ring_ok r \<Longrightarrow> rtt_ok (with_down i r s)"
  by (simp add: rtt_ok_with_down buffer_ok_def)

lemma channel_zero: "rtt_ok s \<Longrightarrow> channel_ok 0 s"
  by (cases "aUp s") (auto simp: rtt_ok_def buffers_ok_def channel_ok_def)

text \<open>A channel that can be written to.\<close>

definition open_up :: "u32 \<Rightarrow> rtt \<Rightarrow> bool" where
  "open_up i s \<longleftrightarrow> unat i < length (aUp s) \<and> pBuffer (up i s) \<noteq> None"

lemma open_channel: "rtt_ok s \<Longrightarrow> open_up i s \<Longrightarrow> channel_ok i s"
  using buffers_ok_nth [of "aUp s" "MaxNumUpBuffers s" "unat i"]
  by (auto simp: rtt_ok_def open_up_def channel_ok_def buffer_ok_def)

lemma wp_get_up: "unat i < length (aUp s) \<Longrightarrow> wp (get_up i) Q s = Q (up i s) s"
  by (simp add: wp_def outcome_def get_up_def exec)

lemma wp_get_down: "unat i < length (aDown s) \<Longrightarrow> wp (get_down i) Q s = Q (down i s) s"
  by (simp add: wp_def outcome_def get_down_def exec)

lemma wp_set_up: "unat i < length (aUp s) \<Longrightarrow> wp (set_up i f) Q s = Q () (with_up i (f (up i s)) s)"
  by (simp add: wp_def outcome_def set_up_def exec with_up_def)

lemma wp_set_down: "unat i < length (aDown s) \<Longrightarrow> wp (set_down i f) Q s = Q () (with_down i (f (down i s)) s)"
  by (simp add: wp_def outcome_def set_down_def exec with_down_def)

lemma wp_INIT: "rtt_ok s \<Longrightarrow> wp INIT Q s = Q () s"
  by (simp add: wp_def outcome_def INIT_def rtt_ok_def exec)

text \<open>The host keeps the descriptors well-formed.\<close>

lemma taken_buffer_ok: "buffer_ok r \<Longrightarrow> buffer_ok (taken n r)"
  unfolding buffer_ok_def using taken_ok(1) [of r n] by (auto simp: taken_def used_def)

lemma rtt_ok_looked:
  assumes "rtt_ok s" and "unat i < length (aUp s)"
  shows "rtt_ok (looked i s)"
proof -
  have "buffers_ok ((aUp s)[unat i := taken n (up i s)]) (MaxNumUpBuffers s)" for n
  proof (rule buffers_ok_update)
    show "buffers_ok (aUp s) (MaxNumUpBuffers s)" using assms(1) by (simp add: rtt_ok_def)
    then show "buffer_ok (taken n (up i s))" using assms(2) buffers_ok_nth taken_buffer_ok by blast
    show "unat i = 0 \<Longrightarrow> ring_ok (taken n (up i s))"
      using assms(1) taken_ok(1) by (simp add: rtt_ok_def buffers_ok_def)
  qed
  then show ?thesis
    using assms(1) by (simp add: looked_def host_takes_def rtt_ok_def split: list.split)
qed

lemma looked_length: "length (aUp (looked i s)) = length (aUp s)"
  by (simp add: looked_def host_takes_def split: list.split)

lemma wp_look_RdOff:
  "unat i < length (aUp s) \<Longrightarrow> wp (look_RdOff i) Q s = Q (RdOff (up i (looked i s))) (looked i s)"
  by (simp add: look_RdOff_def wp_simps wp_get_up looked_def host_takes_def split: list.split)

definition host_types :: "u32 \<Rightarrow> rtt \<Rightarrow> rtt" where
  "host_types i s = (case typed s of [] \<Rightarrow> s
     | cs # css \<Rightarrow> (with_down i (fold put_byte cs (down i s)) s)\<lparr>typed := css\<rparr>)"

lemma wp_look_WrOff:
  "unat i < length (aDown s) \<Longrightarrow> wp (look_WrOff i) Q s = Q (WrOff (down i (host_types i s))) (host_types i s)"
  by (simp add: look_WrOff_def wp_simps wp_get_down host_types_def with_down_def split: list.split)

lemma host_types_length: "length (aDown (host_types i s)) = length (aDown s)"
  by (simp add: host_types_def with_down_def split: list.split)

lemma put_bytes_buffer_ok: "buffer_ok r \<Longrightarrow> buffer_ok (fold put_byte cs r)"
proof (induction cs arbitrary: r)
  case (Cons c cs)
  have "buffer_ok (put_byte c r)"
  proof (cases "ring_ok r")
    case True
    then show ?thesis using put_bytes_ok [of r "[c]"] by (simp add: buffer_ok_def)
  next
    case False
    then have "pBuffer r = None" using Cons.prems by (simp add: buffer_ok_def)
    then have "put_byte c r = r" by (simp add: put_byte_def)
    then show ?thesis using Cons.prems by simp
  qed
  then show ?case using Cons.IH by simp
qed simp

lemma rtt_ok_typed: "rtt_ok (s\<lparr>typed := x\<rparr>) = rtt_ok s"
  by (simp add: rtt_ok_def)

lemma rtt_ok_host_types:
  assumes "rtt_ok s" and "unat i < length (aDown s)"
  shows "rtt_ok (host_types i s)"
proof -
  have "rtt_ok (with_down i (fold put_byte cs (down i s)) s)" for cs
  proof (rule rtt_ok_with_down [OF assms(1)])
    show "buffer_ok (fold put_byte cs (down i s))"
      using assms buffers_ok_nth put_bytes_buffer_ok unfolding rtt_ok_def by blast
    show "unat i = 0 \<Longrightarrow> ring_ok (fold put_byte cs (down i s))"
      using assms(1) put_bytes_ok [of "down i s" cs] by (simp add: rtt_ok_def buffers_ok_def)
  qed
  then show ?thesis
    using assms(1) by (simp add: host_types_def rtt_ok_typed split: list.split)
qed

section \<open>Writing\<close>

lemma wp_WriteNoCheck:
  assumes ok: "rtt_ok s" and c: "channel_ok i s" and n: "unat n \<le> length ds"
    and room: "used (up i s) + unat n \<le> capacity (up i s)"
  shows "wp (WriteNoCheck i ds n) (\<lambda>_. rtt_ok) s"
proof -
  have "ring_ok (put_all (take (unat n) ds) (up i s))"
    using put_all_ok(1) [of "up i s" "take (unat n) ds"] c n room by (simp add: channel_ok_def)
  then show ?thesis
    unfolding wp_returns [of "WriteNoCheck i ds n" s, OF WriteNoCheck_eq [OF c n room]] by (rule rtt_ok_ring [OF ok])
qed

lemma wp_GetAvail:
  assumes "channel_ok i s"
    and "\<And>a. unat a = capacity (up i (looked i s)) - used (up i (looked i s)) \<Longrightarrow> Q a (looked i s)"
  shows "wp (GetAvailWriteSpace i) Q s"
  using GetAvail_eq [OF assms(1)] assms(2) wp_returns [of "GetAvailWriteSpace i" s] by metis

lemma looked_both: "rtt_ok s \<Longrightarrow> channel_ok i s \<Longrightarrow> rtt_ok (looked i s) \<and> channel_ok i (looked i s)"
  using looked_ok(2) rtt_ok_looked by (auto simp: channel_ok_def)

lemma WriteBlocking_loop_safe:
  assumes "WriteBlocking_loop i ds pos n wr s = Some y"
  shows "rtt_ok s \<and> channel_ok i s \<and> wr = WrOff (up i s) \<and> unat pos + unat n \<le> length ds \<and>
    unat (pos + n) = unat pos + unat n \<longrightarrow> outcome (\<lambda>_ s'. rtt_ok s' \<and> channel_ok i s') y"
proof (rule WriteBlocking_loop.raw_induct
    [where P = "\<lambda>i ds pos n wr s y. rtt_ok s \<and> channel_ok i s \<and> wr = WrOff (up i s) \<and>
       unat pos + unat n \<le> length ds \<and> unat (pos + n) = unat pos + unat n \<longrightarrow>
       outcome (\<lambda>_ s'. rtt_ok s' \<and> channel_ok i s') y", OF _ assms], intro impI, elim conjE)
  fix again i ds pos n wr s y
  assume ih: "\<And>i ds pos n wr s y. again i ds pos n wr s = Some y \<Longrightarrow>
      rtt_ok s \<and> channel_ok i s \<and> wr = WrOff (up i s) \<and> unat pos + unat n \<le> length ds \<and>
      unat (pos + n) = unat pos + unat n \<longrightarrow> outcome (\<lambda>_ s'. rtt_ok s' \<and> channel_ok i s') y"
    and body: "bind (look_RdOff i) (\<lambda>rd. bind (get_up i) (\<lambda>r.
       bind (ret (blocking_chunk r rd wr n)) (\<lambda>w.
       bind (memcpy_up i wr ds pos w) (\<lambda>_.
       bind (set_up i (\<lambda>x. x\<lparr>WrOff := wrapped_off r (wr + w)\<rparr>)) (\<lambda>_ s.
         if n - w \<noteq> 0 then again i ds (pos + w) (n - w) (wrapped_off r (wr + w)) s
         else ret (pos + w) s))))) s = Some y"
    and ok: "rtt_ok s" and c: "channel_ok i s" and wr: "wr = WrOff (up i s)"
    and len: "unat pos + unat n \<le> length ds" and sum: "unat (pos + n) = unat pos + unat n"
  define s1 where "s1 = looked i s"
  define w where "w = blocking_chunk (up i s1) (RdOff (up i s1)) wr n"
  define s2 where "s2 = with_up i (written (take (unat w) (drop (unat pos) ds)) (up i s1)) s1"
  note turn = WriteBlocking_turn(1) [OF c wr len s1_def w_def s2_def, of again]
    WriteBlocking_turn(2-6) [OF c wr len s1_def w_def s2_def]
  have "rtt_ok s1" using looked_both [OF ok c] by (simp add: s1_def)
  moreover have "unat i < length (aUp s1)" using looked_both [OF ok c] by (simp add: s1_def channel_ok_def)
  then have "up i s2 = written (take (unat w) (drop (unat pos) ds)) (up i s1)" by (simp add: s2_def)
  moreover have "ring_ok (up i s2)" using turn(2) by (simp add: channel_ok_def)
  ultimately have ok2: "rtt_ok s2" unfolding s2_def by (simp add: rtt_ok_ring)
  have nw: "unat (n - w) = unat n - unat w" using turn(5) by (simp add: unat_sub word_le_nat_alt)
  have pw: "unat (pos + w) = unat pos + unat w"
    using sum turn(5) unat_less_length [of "pos + n"] by (simp add: unat_word_ariths)
  from body have run: "(if n - w \<noteq> 0 then again i ds (pos + w) (n - w) (WrOff (up i s2)) s2
       else Some (Inr (pos + w, s2))) = Some y"
    using turn(1) by (simp add: WriteBlocking_body_def)
  show "outcome (\<lambda>_ s'. rtt_ok s' \<and> channel_ok i s') y"
  proof (cases "n - w = 0")
    case True
    then show ?thesis using run ok2 turn(2) by (auto simp: outcome_def)
  next
    case False
    then have a: "again i ds (pos + w) (n - w) (WrOff (up i s2)) s2 = Some y" using run by simp
    have "pos + w + (n - w) = pos + n" by simp
    then show ?thesis using ih [OF a] ok2 turn(2,5) nw pw len sum by simp
  qed
qed

lemma wp_WriteBlocking:
  assumes "rtt_ok s" and c: "channel_ok i s" and "unat n \<le> length ds"
  shows "wp (WriteBlocking i ds n) (\<lambda>_ s'. rtt_ok s' \<and> channel_ok i s') s"
proof -
  have "unat i < length (aUp s)" using c by (simp add: channel_ok_def)
  moreover have "wp (WriteBlocking_loop i ds 0 n (WrOff (up i s))) (\<lambda>_ s'. rtt_ok s' \<and> channel_ok i s') s"
    by (rule wp_some, drule WriteBlocking_loop_safe) (use assms in simp)
  ultimately show ?thesis by (simp add: WriteBlocking_def wp_bind wp_get_up)
qed

lemma wp_WriteNoLock:
  assumes ok: "rtt_ok s" and c: "channel_ok i s" and n: "unat n \<le> length ds"
  shows "wp (SEGGER_RTT_WriteNoLock i ds n) (\<lambda>_. rtt_ok) s"
proof -
  have len: "unat i < length (aUp s)" using c by (simp add: channel_ok_def)
  note l = looked_both [OF ok c]
  have used: "used (up i (looked i s)) \<le> capacity (up i (looked i s))"
    using l used_bound by (simp add: channel_ok_def)
  have put: "wp (WriteNoCheck i ds k) (\<lambda>_. rtt_ok) (looked i s)"
    if "unat a = capacity (up i (looked i s)) - used (up i (looked i s))" "k \<le> a" "k \<le> n" for a k
    using wp_WriteNoCheck [of "looked i s" i k ds] l that n used by (simp add: word_le_nat_alt)
  have "wp (GetAvailWriteSpace i) (\<lambda>a. wp (if a < n then ret 0 else seq [WriteNoCheck i ds n] (ret n)) (\<lambda>_. rtt_ok)) s"
    using put l by (intro wp_GetAvail [OF c]) (simp add: wp_simps)
  moreover have "wp (GetAvailWriteSpace i) (\<lambda>a. wp (let Status = (if a < n then a else n)
      in seq [WriteNoCheck i ds Status] (ret Status)) (\<lambda>_. rtt_ok)) s"
    using put l by (intro wp_GetAvail [OF c]) (simp add: wp_simps Let_def)
  moreover have "wp (WriteBlocking i ds n) (\<lambda>_. rtt_ok) s"
    by (rule wp_mono [OF wp_WriteBlocking [OF ok c n]]) simp
  ultimately show ?thesis
    using ok by (auto simp only: SEGGER_RTT_WriteNoLock_def wp_bind wp_get_up [OF len] wp_if wp_ret split: if_split)
qed

lemma full_wrap:
  assumes ok: "ring_ok r" and "wrapped_off r (WrOff r + 1) \<noteq> RdOff r"
  shows "used r < capacity r"
proof (rule ccontr)
  assume "\<not> used r < capacity r"
  then have u: "used r = capacity r" using used_bound [OF ok] by simp
  have off: "unat (WrOff r) < unat (SizeOfBuffer r)" "unat (RdOff r) < unat (SizeOfBuffer r)"
    using ok by (simp_all add: ring_ok_def)
  have "unat (wrapped_off r (WrOff r + of_nat 1)) =
      (if unat (WrOff r) + 1 = unat (SizeOfBuffer r) then 0 else unat (WrOff r) + 1)"
    using off by (intro unat_wrapped) simp
  moreover have "unat (RdOff r) = (if unat (WrOff r) + 1 = unat (SizeOfBuffer r) then 0 else unat (WrOff r) + 1)"
    using u used_eq [OF ok] off by (auto simp: word_le_nat_alt split: if_splits)
  ultimately show False using assms(2) by (simp add: word_unat_eq_iff)
qed

lemma wp_store_char:
  assumes ok: "rtt_ok s" and c: "channel_ok i s" and wr: "wr = wrapped_off (up i s) (WrOff (up i s) + 1)"
  shows "wp (store_char i wr b (RdOff (up i s))) (\<lambda>_. rtt_ok) s"
proof (cases "wr = RdOff (up i s)")
  case True
  then show ?thesis using ok by (simp add: store_char_def wp_simps)
next
  case False
  let ?r = "up i s"
  have r: "ring_ok ?r" and len: "unat i < length (aUp s)" using c by (simp_all add: channel_ok_def)
  then have room: "used ?r < capacity ?r" using full_wrap False wr by blast
  have fits: "unat (WrOff ?r) + unat (1 :: u32) \<le> unat (SizeOfBuffer ?r)" using r by (simp add: ring_ok_def Suc_le_eq)
  have w: "ring_ok (written [b] ?r)" using written_ok(1) [OF r, of "[b]"] room fits by simp
  have "store_char i wr b (RdOff ?r) s = Some (Inr (1, with_up i (written [b] ?r) s))"
    using False wr write_chunk [OF c fits, of 0 "[b]" ?r "\<lambda>_. ret 1"] len
    by (simp add: store_char_def bind_returns [of "get_up i" s, OF get_up_eq [OF c]] seq_def block.simps bind_laws ret_apply)
  then show ?thesis using rtt_ok_ring [OF ok w] by (simp add: wp_returns)
qed

lemma wp_put_char:
  assumes ok: "rtt_ok s" and c: "channel_ok i s"
    and r: "SizeOfBuffer r = SizeOfBuffer (up i s)" "WrOff r = WrOff (up i s)"
  shows "wp (bind (look_RdOff i) (\<lambda>rd. store_char i (wrapped_off r (WrOff r + 1)) b rd)) (\<lambda>_. rtt_ok) s"
proof -
  have len: "unat i < length (aUp s)" using c by (simp add: channel_ok_def)
  note l = looked_both [OF ok c] looked_ok(4,5) [OF c]
  have "wrapped_off r (WrOff r + 1) = wrapped_off (up i (looked i s)) (WrOff (up i (looked i s)) + 1)"
    using l(2,3) r by (simp add: wrapped_off_def)
  then show ?thesis
    using wp_store_char [of "looked i s" i] l(1) by (simp add: wp_bind wp_look_RdOff [OF len])
qed

lemma wp_PutCharSkipNoLock:
  assumes "rtt_ok s" and c: "channel_ok i s"
  shows "wp (SEGGER_RTT_PutCharSkipNoLock i b) (\<lambda>_. rtt_ok) s"
proof -
  have "unat i < length (aUp s)" using c by (simp add: channel_ok_def)
  then show ?thesis
    unfolding SEGGER_RTT_PutCharSkipNoLock_def wp_bind [of "get_up i"]
    by (simp only: wp_get_up) (rule wp_put_char [OF assms refl refl])
qed

lemma wait_for_room_safe:
  assumes "wait_for_room i wr s = Some y"
  shows "rtt_ok s \<and> channel_ok i s \<and> SizeOfBuffer (up i s) = sz \<and> WrOff (up i s) = off \<longrightarrow>
    outcome (\<lambda>_ s'. rtt_ok s' \<and> channel_ok i s' \<and> SizeOfBuffer (up i s') = sz \<and> WrOff (up i s') = off) y"
proof (rule wait_for_room.raw_induct
    [where P = "\<lambda>i wr s y. rtt_ok s \<and> channel_ok i s \<and> SizeOfBuffer (up i s) = sz \<and> WrOff (up i s) = off \<longrightarrow>
       outcome (\<lambda>_ s'. rtt_ok s' \<and> channel_ok i s' \<and> SizeOfBuffer (up i s') = sz \<and> WrOff (up i s') = off) y",
     OF _ assms], intro impI, elim conjE)
  fix again i wr s y
  assume ih: "\<And>i wr s y. again i wr s = Some y \<Longrightarrow>
      rtt_ok s \<and> channel_ok i s \<and> SizeOfBuffer (up i s) = sz \<and> WrOff (up i s) = off \<longrightarrow>
      outcome (\<lambda>_ s'. rtt_ok s' \<and> channel_ok i s' \<and> SizeOfBuffer (up i s') = sz \<and> WrOff (up i s') = off) y"
    and body: "bind (look_RdOff i) (\<lambda>rd s. if wr = rd then again i wr s else ret () s) s = Some y"
    and ok: "rtt_ok s" and c: "channel_ok i s" and sz: "SizeOfBuffer (up i s) = sz" "WrOff (up i s) = off"
  note l = looked_both [OF ok c] looked_ok(1,4,5) [OF c]
  from body have run: "(if wr = RdOff (up i (looked i s)) then again i wr (looked i s) else ret () (looked i s)) = Some y"
    unfolding bind_returns [of "look_RdOff i" s, OF l(2)] .
  show "outcome (\<lambda>_ s'. rtt_ok s' \<and> channel_ok i s' \<and> SizeOfBuffer (up i s') = sz \<and> WrOff (up i s') = off) y"
  proof (cases "wr = RdOff (up i (looked i s))")
    case True
    then show ?thesis using ih [of i wr "looked i s" y] run l sz by simp
  next
    case False
    then show ?thesis using run l sz by (auto simp: outcome_def ret_apply)
  qed
qed

lemma wp_PutChar:
  assumes ok: "rtt_ok s" and c: "channel_ok i s"
  shows "wp (SEGGER_RTT_PutChar i b) (\<lambda>_. rtt_ok) s"
proof -
  let ?r = "up i s"
  have len: "unat i < length (aUp s)" using c by (simp add: channel_ok_def)
  let ?m = "bind (look_RdOff i) (\<lambda>rd. store_char i (wrapped_off ?r (WrOff ?r + 1)) b rd)"
  have "wp (wait_for_room i (wrapped_off ?r (WrOff ?r + 1))) (\<lambda>_ s'. rtt_ok s' \<and> channel_ok i s' \<and>
      SizeOfBuffer (up i s') = SizeOfBuffer ?r \<and> WrOff (up i s') = WrOff ?r) s"
    using wait_for_room_safe [where sz = "SizeOfBuffer ?r" and off = "WrOff ?r"] ok c by (intro wp_some) blast
  then have "wp (wait_for_room i (wrapped_off ?r (WrOff ?r + 1))) (\<lambda>_. wp ?m (\<lambda>_. rtt_ok)) s"
    by (rule wp_mono) (simp add: wp_put_char)
  then show ?thesis
    using wp_put_char [OF ok c refl refl]
    unfolding SEGGER_RTT_PutChar_def wp_seq wp_INIT [OF ok] wp_bind [of "get_up i"] wp_get_up [OF len] wp_guarded
    by simp
qed

lemma wp_PutCharSkip:
  assumes ok: "rtt_ok s" and c: "channel_ok i s"
  shows "wp (SEGGER_RTT_PutCharSkip i b) (\<lambda>_. rtt_ok) s"
proof -
  have len: "unat i < length (aUp s)" using c by (simp add: channel_ok_def)
  show ?thesis
    unfolding SEGGER_RTT_PutCharSkip_def wp_seq wp_INIT [OF ok] wp_bind [of "get_up i"] wp_get_up [OF len]
    by (rule wp_put_char [OF assms refl refl])
qed

lemma wp_WriteSkip:
  assumes ok: "rtt_ok s" and c: "channel_ok i s" and n: "unat n \<le> length ds"
  shows "wp (SEGGER_RTT_WriteSkipNoLock i ds n) (\<lambda>_. rtt_ok) s"
proof -
  define s1 where "s1 = looked i s"
  have l: "rtt_ok s1" "channel_ok i s1" using looked_both [OF ok c] by (simp_all add: s1_def)
  then have u: "used (up i s1) \<le> capacity (up i s1)" using used_bound by (simp add: channel_ok_def)
  obtain k :: u32 where k: "unat k = capacity (up i s1) - used (up i s1)"
    using GetAvail_eq [OF c] by (auto simp: s1_def)
  have "wp (bind (WriteNoCheck i ds n) (\<lambda>_. ret 1)) (\<lambda>_. rtt_ok) s1" if "\<not> k < n"
    unfolding wp_bind wp_ret using wp_WriteNoCheck [OF l n] k u that by (simp add: word_less_nat_alt)
  then show ?thesis
    unfolding wp_def WriteSkip_run [OF c s1_def k] using l(1) by (cases "k < n") (simp_all add: outcome_def)
qed

section \<open>The overwriting writer\<close>

text \<open>All of a ring but its read offset.\<close>

definition loose :: "u32 \<Rightarrow> rtt \<Rightarrow> bool" where
  "loose i s \<longleftrightarrow> unat i < length (aUp s) \<and> ring_ok ((up i s)\<lparr>RdOff := 0\<rparr>) \<and> rtt_ok (with_up i ((up i s)\<lparr>RdOff := 0\<rparr>) s)"

lemma loose_RdOff: "loose i s \<Longrightarrow> loose i (with_up i ((up i s)\<lparr>RdOff := x\<rparr>) s)"
  by (simp add: loose_def)

lemma loose_ok:
  assumes "loose i s" and "RdOff (up i s) < SizeOfBuffer (up i s)"
  shows "rtt_ok s" "channel_ok i s"
proof -
  have len: "unat i < length (aUp s)" using assms(1) by (simp add: loose_def)
  have r: "ring_ok (up i s)" using assms by (auto simp: loose_def ring_ok_def word_less_nat_alt)
  then show "channel_ok i s" using len by (simp add: channel_ok_def)
  have "rtt_ok (with_up i (up i s) (with_up i ((up i s)\<lparr>RdOff := 0\<rparr>) s))"
    by (rule rtt_ok_ring) (use assms(1) r in \<open>simp_all add: loose_def\<close>)
  then show "rtt_ok s" by (simp add: with_up_same [OF len])
qed

lemma reduce_RdOff_safe:
  assumes "reduce_RdOff i s = Some y"
  shows "loose i s \<and> SizeOfBuffer (up i s) = sz \<and> WrOff (up i s) = off \<longrightarrow>
      outcome (\<lambda>_ s'. rtt_ok s' \<and> channel_ok i s' \<and> SizeOfBuffer (up i s') = sz \<and> WrOff (up i s') = off) y"
proof (rule reduce_RdOff.raw_induct
    [where P = "\<lambda>i s y. loose i s \<and> SizeOfBuffer (up i s) = sz \<and> WrOff (up i s) = off \<longrightarrow>
      outcome (\<lambda>_ s'. rtt_ok s' \<and> channel_ok i s' \<and> SizeOfBuffer (up i s') = sz \<and> WrOff (up i s') = off) y", OF _ assms], intro impI, elim conjE)
  fix again i s y
  assume ih: "\<And>i s y. again i s = Some y \<Longrightarrow> loose i s \<and> SizeOfBuffer (up i s) = sz \<and> WrOff (up i s) = off \<longrightarrow>
      outcome (\<lambda>_ s'. rtt_ok s' \<and> channel_ok i s' \<and> SizeOfBuffer (up i s') = sz \<and> WrOff (up i s') = off) y"
    and body: "bind (get_up i) (\<lambda>r s. if RdOff r \<ge> SizeOfBuffer r
       then bind (set_up i (\<lambda>x. x\<lparr>RdOff := RdOff x - SizeOfBuffer x\<rparr>)) (\<lambda>_. again i) s
       else ret () s) s = Some y"
    and lo: "loose i s" and sz: "SizeOfBuffer (up i s) = sz" "WrOff (up i s) = off"
  have len: "unat i < length (aUp s)" using lo by (simp add: loose_def)
  show "outcome (\<lambda>_ s'. rtt_ok s' \<and> channel_ok i s' \<and> SizeOfBuffer (up i s') = sz \<and> WrOff (up i s') = off) y"
  proof (cases "RdOff (up i s) \<ge> SizeOfBuffer (up i s)")
    case True
    let ?s = "with_up i ((up i s)\<lparr>RdOff := RdOff (up i s) - SizeOfBuffer (up i s)\<rparr>) s"
    have "again i ?s = Some y"
      using body True by (simp add: bind_returns [of "get_up i" s, OF get_up_in [OF len]]
          bind_returns [of "set_up i f" s for f, OF set_up_eq [OF len]])
    then show ?thesis using ih [of i ?s y] loose_RdOff [OF lo] sz len by simp
  next
    case False
    then show ?thesis
      using body loose_ok [OF lo] sz by (auto simp: bind_returns [of "get_up i" s, OF get_up_in [OF len]] ret_apply outcome_def)
  qed
qed

lemma overwrite_part:
  assumes ok: "rtt_ok s" and c: "channel_ok i s"
    and fits: "unat (WrOff (up i s)) + unat n \<le> unat (SizeOfBuffer (up i s))" and len: "unat src + unat n \<le> length ds"
    and off: "unat w < unat (SizeOfBuffer (up i s))"
  shows "\<exists>s'. block [memcpy_up i (WrOff (up i s)) ds src n, set_up i (\<lambda>x. x\<lparr>WrOff := w' x\<rparr>)] s = Some (Inr ((), s')) \<and>
    (w' (up i s\<lparr>pBuffer := pBuffer (up i s')\<rparr>) = w \<longrightarrow> rtt_ok s' \<and> channel_ok i s' \<and> WrOff (up i s') = w \<and>
      SizeOfBuffer (up i s') = SizeOfBuffer (up i s))"
proof -
  have i: "unat i < length (aUp s)" and r: "ring_ok (up i s)" using c by (simp_all add: channel_ok_def)
  let ?b = "overlay (the (pBuffer (up i s))) (unat (WrOff (up i s))) (take (unat n) (drop (unat src) ds))"
  let ?r = "(up i s)\<lparr>pBuffer := Some ?b\<rparr>"
  let ?s = "with_up i (?r\<lparr>WrOff := w' ?r\<rparr>) s"
  have "block [memcpy_up i (WrOff (up i s)) ds src n, set_up i (\<lambda>x. x\<lparr>WrOff := w' x\<rparr>)] s = Some (Inr ((), ?s))"
    using i by (simp add: block.simps bind_laws bind_returns [of "memcpy_up i (WrOff (up i s)) ds src n" s,
        OF memcpy_up_eq [OF c fits len]] set_up_eq)
  moreover have "length ?b = unat (SizeOfBuffer (up i s))"
    using r fits len by (auto simp: ring_ok_def length_overlay)
  then have "w' ?r = w \<Longrightarrow> ring_ok (?r\<lparr>WrOff := w' ?r\<rparr>)" using r off by (simp add: ring_ok_def)
  then have "w' ?r = w \<Longrightarrow> rtt_ok ?s \<and> channel_ok i ?s \<and> WrOff (up i ?s) = w \<and> SizeOfBuffer (up i ?s) = SizeOfBuffer (up i s)"
    using rtt_ok_ring [OF ok] channel_ok_with_up [OF c] i by simp
  ultimately show ?thesis using i by (intro exI [of _ ?s]) simp
qed

lemma overwrite_loop_safe:
  assumes "overwrite_loop i ds src n av s = Some y"
  shows "rtt_ok s \<and> channel_ok i s \<and> unat src + unat n \<le> length ds \<and> unat (src + n) = unat src + unat n \<and>
    unat (WrOff (up i s)) + unat av \<le> unat (SizeOfBuffer (up i s)) \<longrightarrow> outcome (\<lambda>_. rtt_ok) y"
proof (rule overwrite_loop.raw_induct
    [where P = "\<lambda>i ds src n av s y. rtt_ok s \<and> channel_ok i s \<and> unat src + unat n \<le> length ds \<and>
       unat (src + n) = unat src + unat n \<and> unat (WrOff (up i s)) + unat av \<le> unat (SizeOfBuffer (up i s)) \<longrightarrow>
       outcome (\<lambda>_. rtt_ok) y", OF _ assms], intro impI, elim conjE)
  fix again i ds src n av s y
  assume ih: "\<And>i ds src n av s y. again i ds src n av s = Some y \<Longrightarrow>
      rtt_ok s \<and> channel_ok i s \<and> unat src + unat n \<le> length ds \<and> unat (src + n) = unat src + unat n \<and>
      unat (WrOff (up i s)) + unat av \<le> unat (SizeOfBuffer (up i s)) \<longrightarrow> outcome (\<lambda>_. rtt_ok) y"
    and body: "bind (get_up i) (\<lambda>r s.
       if av > n
       then block [memcpy_up i (WrOff r) ds src n, set_up i (\<lambda>x. x\<lparr>WrOff := WrOff x + n\<rparr>)] s
       else
         bind (block [memcpy_up i (WrOff r) ds src av, set_up i (\<lambda>x. x\<lparr>WrOff := 0\<rparr>)])
           (\<lambda>_ s. if n - av \<noteq> 0 then again i ds (src + av) (n - av) (SizeOfBuffer r - 1) s else ret () s) s) s = Some y"
    and ok: "rtt_ok s" and c: "channel_ok i s" and len: "unat src + unat n \<le> length ds"
    and sum: "unat (src + n) = unat src + unat n"
    and av: "unat (WrOff (up i s)) + unat av \<le> unat (SizeOfBuffer (up i s))"
  let ?r = "up i s"
  have i: "unat i < length (aUp s)" and sz: "0 < unat (SizeOfBuffer ?r)"
    using c by (auto simp: channel_ok_def ring_ok_def)
  note g = bind_returns [of "get_up i" s, OF get_up_in [OF i]]
  show "outcome (\<lambda>_. rtt_ok) y"
  proof (cases "av > n")
    case True
    then have lt: "unat (WrOff ?r) + unat n < unat (SizeOfBuffer ?r)" using av by (simp add: word_less_nat_alt)
    then have w: "unat (WrOff ?r + n) < unat (SizeOfBuffer ?r)" using unat_add [of "WrOff ?r" n "SizeOfBuffer ?r"] by simp
    obtain s' where s': "block [memcpy_up i (WrOff ?r) ds src n, set_up i (\<lambda>x. x\<lparr>WrOff := WrOff x + n\<rparr>)] s = Some (Inr ((), s'))"
      "rtt_ok s'"
      using overwrite_part [OF ok c _ len w, of "\<lambda>x. WrOff x + n"] lt by auto
    then show ?thesis using body True by (auto simp: g outcome_def)
  next
    case False
    then have le: "unat av \<le> unat n" by (simp add: word_less_nat_alt)
    then have len': "unat src + unat av \<le> length ds" using len by simp
    obtain s' where s': "block [memcpy_up i (WrOff ?r) ds src av, set_up i (\<lambda>x. x\<lparr>WrOff := 0\<rparr>)] s = Some (Inr ((), s'))"
      "rtt_ok s'" "channel_ok i s'" "WrOff (up i s') = 0" "SizeOfBuffer (up i s') = SizeOfBuffer ?r"
      using overwrite_part [OF ok c av len', of 0 "\<lambda>_. 0"] sz by auto
    from body False have run: "(if n - av \<noteq> 0 then again i ds (src + av) (n - av) (SizeOfBuffer ?r - 1) s' else ret () s') = Some y"
      by (simp add: g bind_returns [of "block ms" s for ms, OF s'(1)])
    show ?thesis
    proof (cases "n - av = 0")
      case True
      then show ?thesis using run s'(2) by (auto simp: ret_apply outcome_def)
    next
      case False
      have nw: "unat (n - av) = unat n - unat av" using le by (simp add: unat_sub word_le_nat_alt)
      have pw: "unat (src + av) = unat src + unat av"
        using sum le unat_less_length [of "src + n"] by (simp add: unat_word_ariths)
      have "src + av + (n - av) = src + n" by simp
      moreover have "unat (SizeOfBuffer ?r - 1) \<le> unat (SizeOfBuffer ?r)"
        using sz unat_minus_one [of "SizeOfBuffer ?r"] by (cases "SizeOfBuffer ?r = 0") simp_all
      ultimately show ?thesis
        using ih [of i ds "src + av" "n - av" "SizeOfBuffer ?r - 1" s' y] run False s' nw pw le len sum by simp
    qed
  qed
qed

lemma wp_WriteWithOverwrite:
  assumes ok: "rtt_ok s" and c: "channel_ok i s" and n: "unat n \<le> length ds"
  shows "wp (SEGGER_RTT_WriteWithOverwriteNoLock i ds n) (\<lambda>_. rtt_ok) s"
proof -
  let ?r = "up i s"
  let ?same = "\<lambda>s'. rtt_ok s' \<and> channel_ok i s' \<and> SizeOfBuffer (up i s') = SizeOfBuffer ?r \<and> WrOff (up i s') = WrOff ?r"
  have i: "unat i < length (aUp s)" and r: "ring_ok ?r" using c by (simp_all add: channel_ok_def)
  have av: "unat (WrOff ?r) + unat (SizeOfBuffer ?r - WrOff ?r) \<le> unat (SizeOfBuffer ?r)"
    using r by (simp add: ring_ok_def unat_sub word_le_nat_alt)
  have rest: "wp (overwrite_loop i ds 0 n (SizeOfBuffer ?r - WrOff ?r)) (\<lambda>_. rtt_ok) s'" if "?same s'" for s'
    by (rule wp_some, drule overwrite_loop_safe) (use that av n in simp)
  have "?r\<lparr>RdOff := 0\<rparr> = up i (with_up i (?r\<lparr>RdOff := 0\<rparr>) s)" using i by simp
  have lo: "loose i s" using i r rtt_ok_ring [OF ok, of "?r\<lparr>RdOff := 0\<rparr>" i] by (auto simp: loose_def ring_ok_def)
  have "wp (reduce_RdOff i) (\<lambda>_. ?same) (with_up i (?r\<lparr>RdOff := x\<rparr>) s)" for x
  proof (rule wp_some)
    fix y
    assume "reduce_RdOff i (with_up i (?r\<lparr>RdOff := x\<rparr>) s) = Some y"
    from reduce_RdOff_safe [OF this] show "outcome (\<lambda>_. ?same) y" using loose_RdOff [OF lo, of x] i by simp
  qed
  then have red: "wp (reduce_RdOff i) (\<lambda>_. wp (overwrite_loop i ds 0 n (SizeOfBuffer ?r - WrOff ?r)) (\<lambda>_. rtt_ok))
      (with_up i (?r\<lparr>RdOff := x\<rparr>) s)" for x
    by (rule wp_mono) (rule rest)
  show ?thesis
    unfolding SEGGER_RTT_WriteWithOverwriteNoLock_def Let_def wp_bind wp_get_up [OF i] wp_block wp_guarded
    using red rest [of s] ok c by (simp add: wp_set_up [OF i] wp_block)
qed

section \<open>Reading\<close>

lemma read_ring_returns:
  assumes "buffer_ok r"
  shows "\<exists>ds rd. read_ring r (RdOff r) (WrOff r) n s = Some (Inr ((ds, rd), s)) \<and>
    (ds \<noteq> [] \<longrightarrow> ring_ok (r\<lparr>RdOff := rd\<rparr>))"
proof (cases "ring_ok r")
  case True
  have "r\<lparr>RdOff := RdOff (taken (unat n) r)\<rparr> = taken (unat n) r" by (simp add: taken_def)
  then have "ring_ok (r\<lparr>RdOff := RdOff (taken (unat n) r)\<rparr>)" using taken_ok(1) [OF True, of "unat n"] by (simp only:)
  then show ?thesis using read_ring_eq [OF True, of n s] by blast
next
  case False
  then have "RdOff r = 0" "WrOff r = 0" using assms by (simp_all add: buffer_ok_def)
  then show ?thesis by (simp add: read_ring_def exec)
qed

lemma wp_ReadUp:
  assumes ok: "rtt_ok s" and i: "unat i < length (aUp s)"
  shows "wp (SEGGER_RTT_ReadUpNoLock i n) (\<lambda>_. rtt_ok) s"
proof -
  let ?s = "looked i s" and ?r = "up i (looked i s)"
  have ok1: "rtt_ok ?s" using rtt_ok_looked [OF ok i] .
  have i1: "unat i < length (aUp ?s)" using i by (simp add: looked_length)
  then have "buffer_ok ?r" using ok1 buffers_ok_nth unfolding rtt_ok_def by blast
  then obtain ds rd where rd: "read_ring ?r (RdOff ?r) (WrOff ?r) n ?s = Some (Inr ((ds, rd), ?s))"
    "ds \<noteq> [] \<longrightarrow> ring_ok (?r\<lparr>RdOff := rd\<rparr>)"
    using read_ring_returns by blast
  have "ds \<noteq> [] \<Longrightarrow> rtt_ok (with_up i (?r\<lparr>RdOff := rd\<rparr>) ?s)" using rd(2) rtt_ok_ring [OF ok1] by blast
  then show ?thesis
    unfolding SEGGER_RTT_ReadUpNoLock_def wp_seq wp_INIT [OF ok] wp_bind wp_look_RdOff [OF i] wp_get_up [OF i1]
      wp_returns [of "read_ring ?r (RdOff ?r) (WrOff ?r) n" ?s, OF rd(1)] prod.case wp_guarded
    using ok1 by (simp add: wp_set_up [OF i1] wp_ret)
qed

lemma wp_Read:
  assumes ok: "rtt_ok s" and i: "unat i < length (aDown s)"
  shows "wp (SEGGER_RTT_Read i n) (\<lambda>_. rtt_ok) s"
proof -
  let ?s = "host_types i s" and ?r = "down i (host_types i s)"
  have ok1: "rtt_ok ?s" using rtt_ok_host_types [OF ok i] .
  have i1: "unat i < length (aDown ?s)" using i by (simp add: host_types_length)
  then have "buffer_ok ?r" using ok1 buffers_ok_nth unfolding rtt_ok_def by blast
  then obtain ds rd where rd: "read_ring ?r (RdOff ?r) (WrOff ?r) n ?s = Some (Inr ((ds, rd), ?s))"
    "ds \<noteq> [] \<longrightarrow> ring_ok (?r\<lparr>RdOff := rd\<rparr>)"
    using read_ring_returns by blast
  have "ds \<noteq> [] \<Longrightarrow> rtt_ok (with_down i (?r\<lparr>RdOff := rd\<rparr>) ?s)"
    using rd(2) rtt_ok_ring_down [OF ok1] by blast
  then show ?thesis
    unfolding SEGGER_RTT_Read_def SEGGER_RTT_ReadNoLock_def wp_seq wp_INIT [OF ok] wp_bind wp_look_WrOff [OF i]
      wp_get_down [OF i1] wp_returns [of "read_ring ?r (RdOff ?r) (WrOff ?r) n" ?s, OF rd(1)] prod.case wp_guarded
    using ok1 by (simp add: wp_set_down [OF i1] wp_ret)
qed

lemma down_zero: "rtt_ok s \<Longrightarrow> unat 0 < length (aDown s)"
  by (cases "aDown s") (auto simp: rtt_ok_def buffers_ok_def)

lemma wp_GetKey: "rtt_ok s \<Longrightarrow> wp SEGGER_RTT_GetKey (\<lambda>_. rtt_ok) s"
  unfolding SEGGER_RTT_GetKey_def wp_bind wp_ret by (rule wp_Read [OF _ down_zero])

lemma WaitKey_safe:
  assumes "SEGGER_RTT_WaitKey s = Some y"
  shows "rtt_ok s \<longrightarrow> outcome (\<lambda>_. rtt_ok) y"
proof (rule SEGGER_RTT_WaitKey.raw_induct [where P = "\<lambda>s y. rtt_ok s \<longrightarrow> outcome (\<lambda>_. rtt_ok) y", OF _ assms], intro impI)
  fix again s y
  assume ih: "\<And>s y. again s = Some y \<Longrightarrow> rtt_ok s \<longrightarrow> outcome (\<lambda>_. rtt_ok) y"
    and body: "bind SEGGER_RTT_GetKey (\<lambda>r s. if r <s 0 then again s else ret r s) s = Some y"
    and ok: "rtt_ok s"
  from wp_GetKey [OF ok] obtain r s' where k: "SEGGER_RTT_GetKey s = Some (Inr (r, s'))" "rtt_ok s'"
    using body by (auto simp: wp_def outcome_def bind_def split: option.splits sum.splits)
  with body ih show "outcome (\<lambda>_. rtt_ok) y"
    by (cases "r <s 0") (auto simp: bind_returns [of SEGGER_RTT_GetKey s, OF k(1)] ret_apply outcome_def)
qed

lemma wp_peek:
  assumes ok: "rtt_ok s"
  shows "wp SEGGER_RTT_HasKey (\<lambda>_. rtt_ok) s"
    and "unat i < length (aDown s) \<Longrightarrow> wp (SEGGER_RTT_HasData i) (\<lambda>_. rtt_ok) s"
    and "unat i < length (aUp s) \<Longrightarrow> wp (SEGGER_RTT_HasDataUp i) (\<lambda>_. rtt_ok) s"
  using rtt_ok_host_types [OF ok] rtt_ok_looked [OF ok] ok down_zero [OF ok]
  by (simp_all add: SEGGER_RTT_HasKey_def SEGGER_RTT_HasData_def SEGGER_RTT_HasDataUp_def wp_simps wp_INIT
      wp_get_down wp_get_up wp_look_WrOff wp_look_RdOff looked_length host_types_length)

section \<open>Configuration\<close>

definition storage_ok :: "u8 list option \<Rightarrow> u32 \<Rightarrow> bool" where
  "storage_ok buf bufsize \<longleftrightarrow> (case buf of None \<Rightarrow> bufsize = 0 | Some b \<Rightarrow> length b = unat bufsize \<and> b \<noteq> [])"

lemma configured_ok:
  "storage_ok buf bufsize \<Longrightarrow> buffer_ok (configured name buf bufsize flags)"
  "storage_ok (Some b) bufsize \<Longrightarrow> ring_ok (configured name (Some b) bufsize flags)"
  by (auto simp: storage_ok_def configured_def buffer_ok_def ring_ok_def length_greater_0_conv [symmetric]
      simp del: length_greater_0_conv split: option.splits)

lemma described_ok [simp]:
  "ring_ok (r\<lparr>sName := name\<rparr>) = ring_ok r" "buffer_ok (r\<lparr>sName := name\<rparr>) = buffer_ok r"
  "ring_ok (r\<lparr>Flags := flags\<rparr>) = ring_ok r" "buffer_ok (r\<lparr>Flags := flags\<rparr>) = buffer_ok r"
  by (simp_all add: ring_ok_def buffer_ok_def)

lemma reconfigured_ok:
  assumes "rs \<noteq> []" "buffer_ok (rs ! unat i)" "ring_ok (rs ! 0)" "storage_ok buf bufsize"
  shows "buffer_ok (reconfigured i name buf bufsize flags (rs ! unat i))"
    and "unat i = 0 \<Longrightarrow> ring_ok (reconfigured i name buf bufsize flags (rs ! unat i))"
  using assms configured_ok(1) by (auto simp: reconfigured_def word_gt_0 unat_eq_0)

lemma up_buffer:
  "rtt_ok s \<Longrightarrow> unat i < length (aUp s) \<Longrightarrow> buffer_ok (up i s) \<and> (unat i = 0 \<longrightarrow> ring_ok (up i s))"
  using buffers_ok_nth by (auto simp: rtt_ok_def buffers_ok_def)

lemma down_buffer:
  "rtt_ok s \<Longrightarrow> unat i < length (aDown s) \<Longrightarrow> buffer_ok (down i s) \<and> (unat i = 0 \<longrightarrow> ring_ok (down i s))"
  using buffers_ok_nth by (auto simp: rtt_ok_def buffers_ok_def)

lemma Max_eq: "rtt_ok s \<Longrightarrow> MaxNumUpBuffers s = length (aUp s) \<and> MaxNumDownBuffers s = length (aDown s)"
  by (simp add: rtt_ok_def buffers_ok_def)

lemma wp_describe_up:
  assumes ok: "rtt_ok s" and "storage_ok buf bufsize"
  shows "wp (SEGGER_RTT_ConfigUpBuffer i name buf bufsize flags) (\<lambda>_. rtt_ok) s"
    and "wp (SEGGER_RTT_SetNameUpBuffer i name) (\<lambda>_. rtt_ok) s"
    and "wp (SEGGER_RTT_SetFlagsUpBuffer i flags) (\<lambda>_. rtt_ok) s"
proof -
  have *: "wp (\<lambda>s. if unat i < MaxNumUpBuffers s then seq [set_up i f] (ret 0) s else ret (- 1) s) (\<lambda>_. rtt_ok) s"
    if "unat i < length (aUp s) \<Longrightarrow> buffer_ok (f (up i s)) \<and> (unat i = 0 \<longrightarrow> ring_ok (f (up i s)))" for f
  proof (cases "unat i < length (aUp s)")
    case True
    then have "rtt_ok (with_up i (f (up i s)) s)" using that [OF True] by (simp add: rtt_ok_with_up [OF ok])
    then have "wp (seq [set_up i f] (ret 0)) (\<lambda>_. rtt_ok) s"
      by (simp only: wp_seq wp_set_up [OF True] wp_ret)
    then show ?thesis using True Max_eq [OF ok] by (simp add: wp_def)
  next
    case False
    then show ?thesis using ok Max_eq [OF ok] by (simp add: wp_def outcome_def ret_apply)
  qed
  note b = up_buffer [OF ok]
  have ne: "aUp s \<noteq> []" "ring_ok (aUp s ! 0)" using ok by (simp_all add: rtt_ok_def buffers_ok_def)
  have "unat i < length (aUp s) \<Longrightarrow>
      buffer_ok (reconfigured i name buf bufsize flags (up i s)) \<and>
      (unat i = 0 \<longrightarrow> ring_ok (reconfigured i name buf bufsize flags (up i s)))"
    using b reconfigured_ok [OF ne(1) _ ne(2) assms(2)] by blast
  then show "wp (SEGGER_RTT_ConfigUpBuffer i name buf bufsize flags) (\<lambda>_. rtt_ok) s"
    unfolding SEGGER_RTT_ConfigUpBuffer_def wp_seq wp_INIT [OF ok] by (rule *)
  show "wp (SEGGER_RTT_SetNameUpBuffer i name) (\<lambda>_. rtt_ok) s"
    unfolding SEGGER_RTT_SetNameUpBuffer_def wp_seq wp_INIT [OF ok] by (rule *, unfold described_ok) (use b in blast)
  show "wp (SEGGER_RTT_SetFlagsUpBuffer i flags) (\<lambda>_. rtt_ok) s"
    unfolding SEGGER_RTT_SetFlagsUpBuffer_def wp_seq wp_INIT [OF ok] by (rule *, unfold described_ok) (use b in blast)
qed

lemma wp_describe_down:
  assumes ok: "rtt_ok s" and "storage_ok buf bufsize"
  shows "wp (SEGGER_RTT_ConfigDownBuffer i name buf bufsize flags) (\<lambda>_. rtt_ok) s"
    and "wp (SEGGER_RTT_SetNameDownBuffer i name) (\<lambda>_. rtt_ok) s"
    and "wp (SEGGER_RTT_SetFlagsDownBuffer i flags) (\<lambda>_. rtt_ok) s"
proof -
  have *: "wp (\<lambda>s. if unat i < MaxNumDownBuffers s then seq [set_down i f] (ret 0) s else ret (- 1) s) (\<lambda>_. rtt_ok) s"
    if "unat i < length (aDown s) \<Longrightarrow> buffer_ok (f (down i s)) \<and> (unat i = 0 \<longrightarrow> ring_ok (f (down i s)))" for f
  proof (cases "unat i < length (aDown s)")
    case True
    then have "rtt_ok (with_down i (f (down i s)) s)" using that [OF True] by (simp add: rtt_ok_with_down [OF ok])
    then have "wp (seq [set_down i f] (ret 0)) (\<lambda>_. rtt_ok) s"
      by (simp only: wp_seq wp_set_down [OF True] wp_ret)
    then show ?thesis using True Max_eq [OF ok] by (simp add: wp_def)
  next
    case False
    then show ?thesis using ok Max_eq [OF ok] by (simp add: wp_def outcome_def ret_apply)
  qed
  note b = down_buffer [OF ok]
  have ne: "aDown s \<noteq> []" "ring_ok (aDown s ! 0)" using ok by (simp_all add: rtt_ok_def buffers_ok_def)
  have "unat i < length (aDown s) \<Longrightarrow>
      buffer_ok (reconfigured i name buf bufsize flags (down i s)) \<and>
      (unat i = 0 \<longrightarrow> ring_ok (reconfigured i name buf bufsize flags (down i s)))"
    using b reconfigured_ok [OF ne(1) _ ne(2) assms(2)] by blast
  then show "wp (SEGGER_RTT_ConfigDownBuffer i name buf bufsize flags) (\<lambda>_. rtt_ok) s"
    unfolding SEGGER_RTT_ConfigDownBuffer_def wp_seq wp_INIT [OF ok] by (rule *)
  show "wp (SEGGER_RTT_SetNameDownBuffer i name) (\<lambda>_. rtt_ok) s"
    unfolding SEGGER_RTT_SetNameDownBuffer_def wp_seq wp_INIT [OF ok] by (rule *, unfold described_ok) (use b in blast)
  show "wp (SEGGER_RTT_SetFlagsDownBuffer i flags) (\<lambda>_. rtt_ok) s"
    unfolding SEGGER_RTT_SetFlagsDownBuffer_def wp_seq wp_INIT [OF ok] by (rule *, unfold described_ok) (use b in blast)
qed

lemma free_up_returns:
  "rtt_ok s \<Longrightarrow> unat k < length (aUp s) \<Longrightarrow> \<exists>k'. free_up k s = Some (Inr (k', s))"
proof (induction "length (aUp s) - unat k" arbitrary: k rule: less_induct)
  case less
  have "unat (k + 1) = unat k + 1"
    using less.prems by (simp add: unat_word_ariths rtt_ok_def buffers_ok_def)
  then have "unat (k + 1) < length (aUp s) \<Longrightarrow> \<exists>k'. free_up (k + 1) s = Some (Inr (k', s))"
    using less by simp
  then show ?case
    by (subst free_up.simps)
      (auto simp: bind_returns [of "get_up k" s, OF get_up_in [OF less.prems(2)]] ret_apply Max_eq [OF less.prems(1)])
qed

lemma free_down_returns:
  "rtt_ok s \<Longrightarrow> unat k < length (aDown s) \<Longrightarrow> \<exists>k'. free_down k s = Some (Inr (k', s))"
proof (induction "length (aDown s) - unat k" arbitrary: k rule: less_induct)
  case less
  have "get_down k s = Some (Inr (down k s, s))" using less.prems(2) by (simp add: get_down_def exec)
  moreover have "unat (k + 1) = unat k + 1"
    using less.prems by (simp add: unat_word_ariths rtt_ok_def buffers_ok_def)
  then have "unat (k + 1) < length (aDown s) \<Longrightarrow> \<exists>k'. free_down (k + 1) s = Some (Inr (k', s))"
    using less by simp
  ultimately show ?case
    by (subst free_down.simps) (auto simp: bind_returns [of "get_down k" s] ret_apply Max_eq [OF less.prems(1)])
qed

lemma wp_Alloc:
  assumes ok: "rtt_ok s" and b: "storage_ok (Some b) bufsize"
  shows "wp (SEGGER_RTT_AllocUpBuffer name (Some b) bufsize flags) (\<lambda>_. rtt_ok) s"
    and "wp (SEGGER_RTT_AllocDownBuffer name (Some b) bufsize flags) (\<lambda>_. rtt_ok) s"
proof -
  note r = configured_ok(2) [OF b, of name flags]
  have z: "unat 0 < length (aUp s)" "unat 0 < length (aDown s)"
    using channel_zero [OF ok] down_zero [OF ok] by (simp_all add: channel_ok_def)
  obtain k where k: "free_up 0 s = Some (Inr (k, s))" using free_up_returns [OF ok z(1)] by blast
  obtain l where l: "free_down 0 s = Some (Inr (l, s))" using free_down_returns [OF ok z(2)] by blast
  show "wp (SEGGER_RTT_AllocUpBuffer name (Some b) bufsize flags) (\<lambda>_. rtt_ok) s"
    unfolding SEGGER_RTT_AllocUpBuffer_def wp_seq wp_INIT [OF ok] wp_bind wp_returns [of "free_up 0" s, OF k]
    using rtt_ok_ring [OF ok r, of k] Max_eq [OF ok] ok
    by (simp add: wp_def outcome_def seq_apply block_apply bind_def set_up_def with_up_def exec)
  show "wp (SEGGER_RTT_AllocDownBuffer name (Some b) bufsize flags) (\<lambda>_. rtt_ok) s"
    unfolding SEGGER_RTT_AllocDownBuffer_def wp_seq wp_INIT [OF ok] wp_bind wp_returns [of "free_down 0" s, OF l]
    using rtt_ok_ring_down [OF ok r, of l] Max_eq [OF ok] ok
    by (simp add: wp_def outcome_def seq_apply block_apply bind_def set_down_def with_down_def exec)
qed

section \<open>Terminals\<close>

lemma length_STRLEN: "unat (STRLEN cs) \<le> length cs"
proof (induction cs)
  case (Cons c cs)
  have "unat (STRLEN cs + 1) \<le> unat (STRLEN cs) + 1" by (simp add: unat_word_ariths)
  with Cons show ?case by simp
qed simp

lemma wp_PostTerminalSwitch:
  assumes ok: "rtt_ok s" and "unat t < length aTerminalId"
  shows "wp (PostTerminalSwitch 0 t) (\<lambda>_. rtt_ok) s"
  using wp_mono [OF wp_WriteBlocking [OF ok channel_zero [OF ok], of 2 "[0xFF, aTerminalId ! unat t]"], of "\<lambda>_. rtt_ok"] assms(2)
  by (simp add: PostTerminalSwitch_def wp_simps)

lemma active: "rtt_ok s \<Longrightarrow> unat (ActiveTerminal s) < length aTerminalId"
  by (simp add: rtt_ok_def)

lemma wp_write_to_terminal:
  assumes ok: "rtt_ok s" and t: "unat t < length aTerminalId" and n: "unat n \<le> length str"
  shows "wp (write_to_terminal t str n) (\<lambda>_. rtt_ok) s"
proof -
  have restore: "wp (\<lambda>s. seq [PostTerminalSwitch 0 (ActiveTerminal s)] (ret x) s) (\<lambda>_. rtt_ok) s"
    if ok: "rtt_ok s" for x :: u32 and s
  proof -
    have "wp (seq [PostTerminalSwitch 0 (ActiveTerminal s)] (ret x)) (\<lambda>_. rtt_ok) s"
      using wp_PostTerminalSwitch [OF ok, of "ActiveTerminal s"] active [OF ok] by (simp add: wp_simps)
    then show ?thesis by (simp add: wp_def)
  qed
  have "wp (bind (WriteBlocking 0 str n) (\<lambda>x s. seq [PostTerminalSwitch 0 (ActiveTerminal s)] (ret x) s)) (\<lambda>_. rtt_ok) s"
    if "rtt_ok s" for s
    unfolding wp_bind by (rule wp_mono [OF wp_WriteBlocking [OF that channel_zero [OF that] n]]) (use restore in blast)
  then show ?thesis
    unfolding write_to_terminal_def wp_seq by (intro wp_mono [OF wp_PostTerminalSwitch [OF ok t]])
qed

lemma rtt_ok_terminal: "rtt_ok s \<Longrightarrow> unat t < length aTerminalId \<Longrightarrow> rtt_ok (s\<lparr>ActiveTerminal := t\<rparr>)"
  by (simp add: rtt_ok_def)

lemma wp_SetTerminal:
  assumes ok: "rtt_ok s"
  shows "wp (SEGGER_RTT_SetTerminal t) (\<lambda>_. rtt_ok) s"
proof (cases "unat t < length aTerminalId")
  case True
  let ?ac = "[0xFF, aTerminalId ! unat t]"
  have c: "channel_ok 0 s" by (rule channel_zero [OF ok])
  have i: "unat (0 :: u32) < length (aUp s)" using c by (simp add: channel_ok_def)
  have block: "wp (WriteBlocking 0 ?ac 2) (\<lambda>_. rtt_ok) (s\<lparr>ActiveTerminal := t\<rparr>)"
    by (rule wp_mono [OF wp_WriteBlocking [OF rtt_ok_terminal [OF ok True]]])
      (use c in \<open>simp_all add: channel_ok_def\<close>)
  have post: "wp (WriteNoCheck 0 ?ac 2) (\<lambda>_. rtt_ok) ((looked 0 s)\<lparr>ActiveTerminal := t\<rparr>)"
    if "unat a = capacity (up 0 (looked 0 s)) - used (up 0 (looked 0 s))" "2 \<le> a" for a :: u32
    using that looked_both [OF ok c]
    by (intro wp_WriteNoCheck rtt_ok_terminal True) (simp_all add: channel_ok_def word_le_nat_alt)
  have "wp (GetAvailWriteSpace 0) (\<lambda>a. wp (if 2 \<le> a
      then seq [modify (\<lambda>s. s\<lparr>ActiveTerminal := t\<rparr>), WriteNoCheck 0 ?ac 2] (ret 0) else ret (- 1 :: u32)) (\<lambda>_. rtt_ok)) s"
    using post looked_both [OF ok c] by (intro wp_GetAvail [OF c]) (simp add: wp_simps)
  then show ?thesis
    unfolding SEGGER_RTT_SetTerminal_def wp_seq wp_INIT [OF ok] if_P [OF True] Let_def wp_bind wp_get_up [OF i] wp_if
    using block by (simp add: wp_simps)
next
  case False
  then show ?thesis
    unfolding SEGGER_RTT_SetTerminal_def wp_seq wp_INIT [OF ok] using ok by (simp add: wp_ret)
qed

lemma wp_TerminalOut:
  assumes ok: "rtt_ok s"
  shows "wp (SEGGER_RTT_TerminalOut t str) (\<lambda>_. rtt_ok) s"
proof (cases "unat t < length aTerminalId")
  case True
  have c: "channel_ok 0 s" by (rule channel_zero [OF ok])
  have l: "rtt_ok (looked 0 s)" "channel_ok 0 (looked 0 s)" using looked_both [OF ok c] by simp_all
  have i: "unat (0 :: u32) < length (aUp (looked 0 s))" using l(2) by (simp add: channel_ok_def)
  have out: "wp (write_to_terminal t str n) (\<lambda>_. rtt_ok) (looked 0 s)" if "n \<le> STRLEN str" for n
    using that length_STRLEN [of str] by (intro wp_write_to_terminal [OF l(1) True]) (simp add: word_le_nat_alt)
  show ?thesis
    unfolding SEGGER_RTT_TerminalOut_def wp_seq wp_INIT [OF ok] if_P [OF True] Let_def wp_bind
    by (rule wp_GetAvail [OF c]) (simp add: wp_get_up [OF i, simplified] out l(1) wp_if wp_ret)
next
  case False
  then show ?thesis
    unfolding SEGGER_RTT_TerminalOut_def wp_seq wp_INIT [OF ok] using ok by (simp add: wp_ret)
qed

lemma wp_Init:
  assumes "unat (ActiveTerminal s) < length aTerminalId"
    and "length (static_storage BUFFER_SIZE_UP (aUp s)) = BUFFER_SIZE_UP"
    and "length (static_storage BUFFER_SIZE_DOWN (aDown s)) = BUFFER_SIZE_DOWN"
  shows "wp SEGGER_RTT_Init (\<lambda>_. rtt_ok) s"
  using assms
  by (simp add: SEGGER_RTT_Init_def DoInit_def wp_modify rtt_ok_def buffers_ok_def buffer_ok_def ring_ok_def
      terminal_buffer_def blank_buffer_def)

section \<open>Any calls in any order\<close>

datatype rtt_call =
    Write u32 "u8 list" u32
  | Write_string u32 "u8 list"
  | Write_skip u32 "u8 list" u32
  | Write_overwriting u32 "u8 list" u32
  | Put_char u32 u8
  | Put_char_skip u32 u8
  | Put_char_skip_unlocked u32 u8
  | Read u32 u32
  | Read_up u32 u32
  | Get_key
  | Wait_key
  | Has_key
  | Has_data u32
  | Has_data_up u32
  | Alloc_up string "u8 list" u32 u32
  | Alloc_down string "u8 list" u32 u32
  | Config_up u32 string "u8 list option" u32 u32
  | Config_down u32 string "u8 list option" u32 u32
  | Name_up u32 string
  | Name_down u32 string
  | Flags_up u32 u32
  | Flags_down u32 u32
  | Set_terminal u8
  | Terminal_out u8 "u8 list"

fun run_call :: "rtt_call \<Rightarrow> (rtt, unit) comp" where
  "run_call (Write i ds n) = ignore (SEGGER_RTT_Write i ds n)"
| "run_call (Write_string i str) = ignore (SEGGER_RTT_WriteString i str)"
| "run_call (Write_skip i ds n) = ignore (SEGGER_RTT_WriteSkipNoLock i ds n)"
| "run_call (Write_overwriting i ds n) = SEGGER_RTT_WriteWithOverwriteNoLock i ds n"
| "run_call (Put_char i b) = ignore (SEGGER_RTT_PutChar i b)"
| "run_call (Put_char_skip i b) = ignore (SEGGER_RTT_PutCharSkip i b)"
| "run_call (Put_char_skip_unlocked i b) = ignore (SEGGER_RTT_PutCharSkipNoLock i b)"
| "run_call (Read i n) = ignore (SEGGER_RTT_Read i n)"
| "run_call (Read_up i n) = ignore (SEGGER_RTT_ReadUpNoLock i n)"
| "run_call Get_key = ignore SEGGER_RTT_GetKey"
| "run_call Wait_key = ignore SEGGER_RTT_WaitKey"
| "run_call Has_key = ignore SEGGER_RTT_HasKey"
| "run_call (Has_data i) = ignore (SEGGER_RTT_HasData i)"
| "run_call (Has_data_up i) = ignore (SEGGER_RTT_HasDataUp i)"
| "run_call (Alloc_up name b n flags) = ignore (SEGGER_RTT_AllocUpBuffer name (Some b) n flags)"
| "run_call (Alloc_down name b n flags) = ignore (SEGGER_RTT_AllocDownBuffer name (Some b) n flags)"
| "run_call (Config_up i name b n flags) = ignore (SEGGER_RTT_ConfigUpBuffer i name b n flags)"
| "run_call (Config_down i name b n flags) = ignore (SEGGER_RTT_ConfigDownBuffer i name b n flags)"
| "run_call (Name_up i name) = ignore (SEGGER_RTT_SetNameUpBuffer i name)"
| "run_call (Name_down i name) = ignore (SEGGER_RTT_SetNameDownBuffer i name)"
| "run_call (Flags_up i flags) = ignore (SEGGER_RTT_SetFlagsUpBuffer i flags)"
| "run_call (Flags_down i flags) = ignore (SEGGER_RTT_SetFlagsDownBuffer i flags)"
| "run_call (Set_terminal t) = ignore (SEGGER_RTT_SetTerminal t)"
| "run_call (Terminal_out t str) = ignore (SEGGER_RTT_TerminalOut t str)"

text \<open>
  What the functions rely on without checking it: channels that exist, storage behind the ones written to,
  at least as many bytes as are announced, and buffers of the size they are said to have.
\<close>

fun sound_call :: "rtt_call \<Rightarrow> rtt \<Rightarrow> bool" where
  "sound_call (Write i ds n) s \<longleftrightarrow> open_up i s \<and> unat n \<le> length ds"
| "sound_call (Write_string i str) s \<longleftrightarrow> open_up i s"
| "sound_call (Write_skip i ds n) s \<longleftrightarrow> open_up i s \<and> unat n \<le> length ds"
| "sound_call (Write_overwriting i ds n) s \<longleftrightarrow> open_up i s \<and> unat n \<le> length ds"
| "sound_call (Put_char i b) s \<longleftrightarrow> open_up i s"
| "sound_call (Put_char_skip i b) s \<longleftrightarrow> open_up i s"
| "sound_call (Put_char_skip_unlocked i b) s \<longleftrightarrow> open_up i s"
| "sound_call (Read i n) s \<longleftrightarrow> unat i < length (aDown s)"
| "sound_call (Read_up i n) s \<longleftrightarrow> unat i < length (aUp s)"
| "sound_call (Has_data i) s \<longleftrightarrow> unat i < length (aDown s)"
| "sound_call (Has_data_up i) s \<longleftrightarrow> unat i < length (aUp s)"
| "sound_call (Alloc_up name b n flags) s \<longleftrightarrow> storage_ok (Some b) n"
| "sound_call (Alloc_down name b n flags) s \<longleftrightarrow> storage_ok (Some b) n"
| "sound_call (Config_up i name b n flags) s \<longleftrightarrow> storage_ok b n"
| "sound_call (Config_down i name b n flags) s \<longleftrightarrow> storage_ok b n"
| "sound_call _ s \<longleftrightarrow> True"

lemma wp_Write:
  assumes "rtt_ok s" and "open_up i s" and "unat n \<le> length ds"
  shows "wp (SEGGER_RTT_Write i ds n) (\<lambda>_. rtt_ok) s"
  unfolding SEGGER_RTT_Write_def wp_seq wp_INIT [OF assms(1)]
  by (rule wp_WriteNoLock [OF assms(1) open_channel [OF assms(1,2)] assms(3)])

lemma call_keeps:
  assumes ok: "rtt_ok s" and "sound_call c s"
  shows "wp (run_call c) (\<lambda>_. rtt_ok) s"
proof -
  have "storage_ok None 0" by (simp add: storage_ok_def)
  note describe = wp_describe_up(2,3) [OF ok this] wp_describe_down(2,3) [OF ok this]
  note wait = wp_some [of SEGGER_RTT_WaitKey s "\<lambda>_. rtt_ok"] WaitKey_safe [of s] ok
  show ?thesis
    using assms(2)
  proof (cases c)
    case Wait_key
    then show ?thesis using wait by (simp add: wp_ignore)
  qed (simp_all add: wp_ignore wp_Write [OF ok] SEGGER_RTT_WriteString_def length_STRLEN open_channel [OF ok]
      wp_WriteSkip [OF ok] wp_WriteWithOverwrite [OF ok] wp_PutChar [OF ok] wp_PutCharSkip [OF ok]
      wp_PutCharSkipNoLock [OF ok] wp_Read [OF ok] wp_ReadUp [OF ok] wp_GetKey [OF ok] wp_peek [OF ok]
      wp_Alloc [OF ok] wp_describe_up [OF ok] wp_describe_down [OF ok] describe wp_SetTerminal [OF ok] wp_TerminalOut [OF ok])
qed

fun run_calls :: "rtt_call list \<Rightarrow> (rtt, unit) comp" where
  "run_calls [] = ret ()"
| "run_calls (c # cs) = bind (run_call c) (\<lambda>_. run_calls cs)"

fun sound_calls :: "rtt_call list \<Rightarrow> rtt \<Rightarrow> bool" where
  "sound_calls [] s \<longleftrightarrow> True"
| "sound_calls (c # cs) s \<longleftrightarrow> sound_call c s \<and>
     (case run_call c s of Some (Inr (_, s')) \<Rightarrow> sound_calls cs s' | _ \<Rightarrow> True)"

lemma runs_keep: "rtt_ok s \<Longrightarrow> sound_calls cs s \<Longrightarrow> wp (run_calls cs) (\<lambda>_. rtt_ok) s"
proof (induction cs arbitrary: s)
  case (Cons c cs)
  then have "wp (run_call c) (\<lambda>_. rtt_ok) s" by (simp add: call_keeps)
  then show ?case
    unfolding run_calls.simps wp_bind by (rule wp_result) (use Cons in simp)
qed (simp add: wp_ret)

text \<open>
  C17: the control block is a type that the code keeps.  Initialising makes it well-formed.  From
  then on any sequence of calls that announce what they pass, whatever the host takes and types meanwhile,
  never reads or writes outside a buffer and never follows \<open>NULL\<close>; when it ends, for a blocking writer may wait for ever,
  the offsets lie within their buffers again, and the buffers have the sizes the descriptors say.
\<close>

theorem rtt_calls_keep_control_block:
  assumes "unat (ActiveTerminal s) < length aTerminalId" and "aUp s = []" and "aDown s = []"
  shows "\<exists>s0. returns SEGGER_RTT_Init s () s0 \<and> rtt_ok s0 \<and>
    (\<forall>cs. sound_calls cs s0 \<longrightarrow>
      (case run_calls cs s0 of None \<Rightarrow> True | Some (Inl e) \<Rightarrow> False | Some (Inr (_, s')) \<Rightarrow> rtt_ok s'))"
proof -
  obtain s0 where init: "SEGGER_RTT_Init s = Some (Inr ((), s0))"
    by (simp add: SEGGER_RTT_Init_def DoInit_def exec)
  have "wp SEGGER_RTT_Init (\<lambda>_. rtt_ok) s" using assms by (intro wp_Init) (simp_all add: static_storage_def)
  then have ok: "rtt_ok s0" by (simp only: wp_returns [of SEGGER_RTT_Init s, OF init])
  have "case run_calls cs s0 of None \<Rightarrow> True | Some (Inl e) \<Rightarrow> False | Some (Inr (_, s')) \<Rightarrow> rtt_ok s'"
    if "sound_calls cs s0" for cs
    using runs_keep [OF ok that] by (simp add: wp_def outcome_def split: option.splits sum.splits)
  with init ok show ?thesis by (auto simp: returns_def)
qed

definition example_reset :: rtt where
  "example_reset =
     \<lparr>acID = replicate 16 0, MaxNumUpBuffers = 0, MaxNumDownBuffers = 0, aUp = [], aDown = [], ActiveTerminal = 0,
      polls = [3, 0, 1000], typed = [[10, 11]], received = (\<lambda>_. [])\<rparr>"

definition example_calls :: "rtt_call list" where
  "example_calls =
     [Write 0 [104, 105] 2, Set_terminal 3, Terminal_out 4 [104, 105], Flags_up 0 2, Get_key, Name_down 1 ''keys'']"

theorem rtt_calls_keep_control_block_witness:
  "\<exists>s0. returns SEGGER_RTT_Init example_reset () s0 \<and>
    (case run_calls example_calls s0 of None \<Rightarrow> True | Some (Inl e) \<Rightarrow> False | Some (Inr (_, s')) \<Rightarrow> rtt_ok s')"
proof -
  obtain s0 where s0: "returns SEGGER_RTT_Init example_reset () s0" and
    keep: "\<forall>cs. sound_calls cs s0 \<longrightarrow>
      (case run_calls cs s0 of None \<Rightarrow> True | Some (Inl e) \<Rightarrow> False | Some (Inr (_, s')) \<Rightarrow> rtt_ok s')"
    using rtt_calls_keep_control_block [of example_reset] by (auto simp: example_reset_def aTerminalId_def)
  have "open_up 0 s0"
    using s0 by (auto simp: returns_def SEGGER_RTT_Init_def DoInit_def exec open_up_def terminal_buffer_def)
  then have "sound_calls example_calls s0" by (simp add: example_calls_def split: option.split sum.split)
  with keep s0 show ?thesis by blast
qed

text \<open>
  One of the things not checked: a channel without storage.  Its size is 0, so the free space is computed
  as the largest number, and the first byte is written through \<open>NULL\<close>.
\<close>

lemma write_without_storage:
  assumes ok: "rtt_ok s" and i: "unat i < length (aUp s)" and none: "pBuffer (up i s) = None"
    and m: "Flags (up i s) = SEGGER_RTT_MODE_NO_BLOCK_SKIP" and n: "n \<noteq> 0"
  shows "SEGGER_RTT_Write i ds n s = Some (Inl Null_pointer)"
proof -
  let ?s = "looked i s"
  have i1: "unat i < length (aUp ?s)" using i by (simp add: looked_length)
  have b: "SizeOfBuffer (up i s) = 0" "WrOff (up i s) = 0" "RdOff (up i s) = 0"
    using up_buffer [OF ok i] none by (auto simp: buffer_ok_def ring_ok_def)
  then have b1: "pBuffer (up i ?s) = None" "SizeOfBuffer (up i ?s) = 0" "WrOff (up i ?s) = 0" "RdOff (up i ?s) = 0"
    using i none by (simp_all add: looked_def host_takes_def taken_def used_def split: list.split)
  have l: "look_RdOff i s = Some (Inr (RdOff (up i ?s), ?s))"
    using i by (simp add: look_RdOff_def get_up_def exec looked_def host_takes_def split: list.split)
  have a: "GetAvailWriteSpace i s = Some (Inr (- 1, ?s))"
    using b1 by (simp add: GetAvailWriteSpace_def bind_returns [of "look_RdOff i" s, OF l]
        bind_returns [of "get_up i" ?s, OF get_up_in [OF i1]] ret_apply)
  have w: "WriteNoCheck i ds n ?s = Some (Inl Null_pointer)"
    using b1 n by (simp add: WriteNoCheck_def bind_returns [of "get_up i" ?s, OF get_up_in [OF i1]] Let_def exec
        memcpy_up_none [OF i1]) (simp add: memcpy_up_def exec get_up_in [OF i1])
  have max: "\<not> (- 1 :: u32) < n" by (simp add: not_less)
  have init: "acID s ! 0 \<noteq> 0" using ok by (simp add: rtt_ok_def)
  have "seq [WriteNoCheck i ds n] (ret n) ?s = Some (Inl Null_pointer)"
    using w by (simp add: seq_def block.simps bind_def)
  then show ?thesis
    using max unfolding SEGGER_RTT_Write_def INIT_done [OF init] SEGGER_RTT_WriteNoLock_def
      bind_returns [of "get_up i" s, OF get_up_in [OF i]] if_P [OF m] bind_returns [of "GetAvailWriteSpace i" s, OF a]
    by simp
qed

end
