(* ===== verification/TinyPrintf.thy ===== *)
theory TinyPrintf
  imports PrintfSpec
begin

unbundle bit_operations_syntax

text \<open>
  The second formatter, \<open>src/src/segger/tiny_printf.c\<close>, which \<open>SEGGER_RTT_printf\<close> uses.  It is
  \<open>src/src/printf.cpp\<close> with a switch, \<open>TINY_PRINTF_FEATURES_SMALL\<close>, that leaves out \<open>long long\<close>,
  \<open>ptrdiff_t\<close> and floating point numbers: the parameter \<open>small\<close>.  The functions the switch does not
  reach are the same in both files, token by token, and are not repeated.
\<close>

section \<open>The formatter with its switch\<close>

definition tiny_length :: "bool \<Rightarrow> u32 \<Rightarrow> string \<Rightarrow> u32 \<times> string" where
  "tiny_length small flags format =
     (if current format = CHR ''l''
      then let flags = flags OR FLAGS_LONG; format = tl format
           in if current format = CHR ''l'' then (flags OR FLAGS_LONG_LONG, tl format) else (flags, format)
      else if current format = CHR ''h''
      then let flags = flags OR FLAGS_SHORT; format = tl format
           in if current format = CHR ''h'' then (flags OR FLAGS_CHAR, tl format) else (flags, format)
      else if current format = CHR ''t'' \<and> \<not> small then (flags OR FLAGS_LONG, tl format)
      else if current format = CHR ''j'' then (flags OR FLAGS_LONG_LONG, tl format)
      else if current format = CHR ''z'' then (flags OR FLAGS_LONG, tl format)
      else (flags, format))"

text \<open>Without \<open>long long\<close>, nothing is printed for one and its argument stays.\<close>

definition tiny_signed ::
  "bool \<Rightarrow> 's out_fct_type \<Rightarrow> u32 \<Rightarrow> u32 \<Rightarrow> u32 \<Rightarrow> u32 \<Rightarrow> u32 \<Rightarrow> u32 \<Rightarrow> va list \<Rightarrow> ('s, u32 \<times> va list) comp"
  where
  "tiny_signed small out idx maxlen base precision width flags va =
     (if has flags FLAGS_LONG_LONG
      then if small then ret (idx, va)
           else bind (va_dword va) (\<lambda>(value, va).
             bind (ntoa_long_long out idx maxlen (if 0 <s value then value else 0 - value) (value <s 0)
                     (ucast base) precision width flags) (\<lambda>idx. ret (idx, va)))
      else if has flags FLAGS_LONG
      then bind (va_word va) (\<lambda>(value, va).
             bind (ntoa_long out idx maxlen (if 0 <s value then value else 0 - value) (value <s 0)
                     base precision width flags) (\<lambda>idx. ret (idx, va)))
      else bind (va_word va) (\<lambda>(arg, va).
             let value = (if has flags FLAGS_CHAR then ucast (ucast arg :: 8 word)
                          else if has flags FLAGS_SHORT then scast (ucast arg :: 16 word)
                          else arg)
             in bind (ntoa_long out idx maxlen (if 0 <s value then value else 0 - value) (value <s 0)
                        base precision width flags) (\<lambda>idx. ret (idx, va))))"

definition tiny_unsigned ::
  "bool \<Rightarrow> 's out_fct_type \<Rightarrow> u32 \<Rightarrow> u32 \<Rightarrow> u32 \<Rightarrow> u32 \<Rightarrow> u32 \<Rightarrow> u32 \<Rightarrow> va list \<Rightarrow> ('s, u32 \<times> va list) comp"
  where
  "tiny_unsigned small out idx maxlen base precision width flags va =
     (if has flags FLAGS_LONG_LONG
      then if small then ret (idx, va)
           else bind (va_dword va) (\<lambda>(value, va).
             bind (ntoa_long_long out idx maxlen value False (ucast base) precision width flags)
               (\<lambda>idx. ret (idx, va)))
      else if has flags FLAGS_LONG
      then bind (va_word va) (\<lambda>(value, va).
             bind (ntoa_long out idx maxlen value False base precision width flags) (\<lambda>idx. ret (idx, va)))
      else bind (va_word va) (\<lambda>(arg, va).
             let value = (if has flags FLAGS_CHAR then ucast (ucast arg :: 8 word)
                          else if has flags FLAGS_SHORT then ucast (ucast arg :: 16 word)
                          else arg)
             in bind (ntoa_long out idx maxlen value False base precision width flags)
                  (\<lambda>idx. ret (idx, va))))"

definition tiny_integer ::
  "bool \<Rightarrow> 's out_fct_type \<Rightarrow> u32 \<Rightarrow> u32 \<Rightarrow> char \<Rightarrow> u32 \<Rightarrow> u32 \<Rightarrow> u32 \<Rightarrow> va list \<Rightarrow> ('s, u32 \<times> va list) comp"
  where
  "tiny_integer small out idx maxlen c precision width flags va =
     (let (base, flags) =
            (if c = CHR ''x'' \<or> c = CHR ''X'' then (16, flags)
             else if c = CHR ''o'' then (8, flags)
             else if c = CHR ''b'' then (2, flags AND NOT FLAGS_HASH)
             else (10, flags AND NOT FLAGS_HASH));
          flags = (if c = CHR ''X'' then flags OR FLAGS_UPPERCASE else flags);
          flags = (if c \<noteq> CHR ''i'' \<and> c \<noteq> CHR ''d'' then flags AND NOT (FLAGS_PLUS OR FLAGS_SPACE) else flags)
      in if c = CHR ''i'' \<or> c = CHR ''d''
         then tiny_signed small out idx maxlen base precision width flags va
         else tiny_unsigned small out idx maxlen base precision width flags va)"

text \<open>Without floating point numbers, \<open>f\<close> is a character like any other.\<close>

definition tiny_specifier ::
  "bool \<Rightarrow> 's out_fct_type \<Rightarrow> u32 \<Rightarrow> u32 \<Rightarrow> char \<Rightarrow> u32 \<Rightarrow> u32 \<Rightarrow> u32 \<Rightarrow> va list \<Rightarrow> ('s, u32 \<times> va list) comp"
  where
  "tiny_specifier small out idx maxlen c precision width flags va =
     (if c \<in> set ''diuxXob'' then tiny_integer small out idx maxlen c precision width flags va
      else if c \<in> set ''fF'' \<and> \<not> small
      then bind (va_double va) (\<lambda>(value, va).
             bind (ftoa out idx maxlen value precision width flags) (\<lambda>idx. ret (idx, va)))
      else if c = CHR ''c'' then print_char out idx maxlen width flags va
      else if c = CHR ''s'' then print_string out idx maxlen precision width flags va
      else if c = CHR ''p'' then print_pointer out idx maxlen precision flags va
      else bind (out c idx maxlen) (\<lambda>_. ret (idx + 1, va)))"

definition tiny_directive ::
  "bool \<Rightarrow> 's out_fct_type \<Rightarrow> u32 \<Rightarrow> string \<Rightarrow> va list \<Rightarrow> u32 \<Rightarrow> ('s, string \<times> va list \<times> u32) comp" where
  "tiny_directive small out maxlen format va idx =
     (let (flags, format) = eval_flags 0 format in
      bind (eval_width flags format va) (\<lambda>(flags, width, format, va).
      bind (eval_precision flags format va) (\<lambda>(flags, precision, format, va).
      let (flags, format) = tiny_length small flags format in
      bind (tiny_specifier small out idx maxlen (current format) precision width flags va) (\<lambda>(idx, va).
      bind (advance format) (\<lambda>format. ret (format, va, idx))))))"

partial_function (option) tiny_loop ::
  "bool \<Rightarrow> 's out_fct_type \<Rightarrow> u32 \<Rightarrow> string \<Rightarrow> va list \<Rightarrow> u32 \<Rightarrow> 's \<Rightarrow> (fault + u32 \<times> 's) option" where
  "tiny_loop small out maxlen format va idx s =
     (if current format = NUL then ret idx s
      else if current format \<noteq> CHR ''%''
      then bind (out (current format) idx maxlen)
             (\<lambda>_. tiny_loop small out maxlen (tl format) va (idx + 1)) s
      else bind (tiny_directive small out maxlen (tl format) va idx)
             (\<lambda>r. tiny_loop small out maxlen (fst r) (fst (snd r)) (snd (snd r))) s)"

definition tiny_format ::
  "bool \<Rightarrow> bool \<Rightarrow> 's out_fct_type \<Rightarrow> u32 \<Rightarrow> string \<Rightarrow> va list \<Rightarrow> ('s, u32) comp" where
  "tiny_format small no_buffer out maxlen format va =
     (let out = (if no_buffer then out_null else out)
      in bind (tiny_loop small out maxlen format va 0)
           (\<lambda>idx. bind (out NUL (if idx < maxlen then idx else maxlen - 1) maxlen) (\<lambda>_. ret idx)))"

definition tiny_sprintf :: "bool \<Rightarrow> string \<Rightarrow> va list \<Rightarrow> (string option, u32) comp" where
  "tiny_sprintf small format va buffer = tiny_format small (buffer = None) out_buffer (- 1) format va buffer"

definition tiny_snprintf :: "bool \<Rightarrow> u32 \<Rightarrow> string \<Rightarrow> va list \<Rightarrow> (string option, u32) comp" where
  "tiny_snprintf small count format va buffer =
     tiny_format small (buffer = None) out_buffer count format va buffer"

definition tiny_vsnprintf :: "bool \<Rightarrow> u32 \<Rightarrow> string \<Rightarrow> va list \<Rightarrow> (string option, u32) comp" where
  "tiny_vsnprintf small count format va buffer =
     tiny_format small (buffer = None) out_buffer count format va buffer"

definition tiny_fctprintf :: "bool \<Rightarrow> (char \<Rightarrow> ('s, unit) comp) \<Rightarrow> string \<Rightarrow> va list \<Rightarrow> ('s, u32) comp" where
  "tiny_fctprintf small out format va = tiny_format small False (out_fct out) (- 1) format va"

definition tiny_vfctprintf :: "bool \<Rightarrow> (char \<Rightarrow> ('s, unit) comp) \<Rightarrow> string \<Rightarrow> va list \<Rightarrow> ('s, u32) comp" where
  "tiny_vfctprintf small out format va = tiny_format small False (out_fct out) (- 1) format va"

section \<open>What a computation can answer\<close>

definition gives :: "('s, 'a) comp \<Rightarrow> ('a \<Rightarrow> bool) \<Rightarrow> bool" where
  "gives m Q \<longleftrightarrow> (\<forall>s a s'. m s = Some (Inr (a, s')) \<longrightarrow> Q a)"

lemma gives_bind_cong:
  assumes "gives m Q" and "\<And>a. Q a \<Longrightarrow> f a = g a"
  shows "bind m f = bind m g"
proof (rule ext)
  fix s
  have "f a = g a" if "m s = Some (Inr (a, b))" for a b using that assms unfolding gives_def by blast
  then show "bind m f s = bind m g s" by (simp add: bind_def split: option.split sum.split prod.split)
qed

lemma gives_ret: "Q a \<Longrightarrow> gives (ret a) Q"
  by (simp add: gives_def exec)

lemma gives_bind: "gives m P \<Longrightarrow> (\<And>a. P a \<Longrightarrow> gives (f a) Q) \<Longrightarrow> gives (bind m f) Q"
  unfolding gives_def bind_def by (auto split: option.splits sum.splits) blast

lemma gives_any: "gives m (\<lambda>_. True)"
  by (simp add: gives_def)

section \<open>Where the two formatters agree\<close>

text \<open>A directive, behind its percent sign, at its length field.\<close>

definition skip_number :: "string \<Rightarrow> string" where
  "skip_number format =
     (if is_digit (current format) then snd (atoi 0 format)
      else if current format = CHR ''*'' then tl format else format)"

definition at_length :: "string \<Rightarrow> string" where
  "at_length format =
     (let f = skip_number (snd (eval_flags 0 format))
      in if current f = CHR ''.'' then skip_number (tl f) else f)"

text \<open>A directive, and a format, that needs none of the features the switch leaves out.\<close>

definition small_directive :: "string \<Rightarrow> bool" where
  "small_directive format \<longleftrightarrow>
     (let (flags, f) = eval_length 0 (at_length format)
      in current (at_length format) \<noteq> CHR ''t'' \<and> \<not> has flags FLAGS_LONG_LONG \<and> current f \<notin> set ''fF'')"

definition behind_directive :: "string \<Rightarrow> string" where
  "behind_directive format = tl (snd (eval_length 0 (at_length format)))"

lemma length_skip_number: "length (skip_number f) \<le> length f"
  using length_atoi [of 0 f] by (simp add: skip_number_def)

lemma length_behind: "length (behind_directive f) \<le> length f"
proof -
  have "length (at_length f) \<le> length f"
    using length_skip_number [of "snd (eval_flags 0 f)"] length_eval_flags [of 0 f]
      length_skip_number [of "tl (skip_number (snd (eval_flags 0 f)))"]
    by (auto simp: at_length_def Let_def)
  then show ?thesis
    using length_eval_length [of 0 "at_length f"] by (simp add: behind_directive_def)
qed

function small_format :: "string \<Rightarrow> bool" where
  "small_format [] = True"
| "small_format (c # format) =
     (if c = NUL then True
      else if c \<noteq> CHR ''%'' then small_format format
      else small_directive format \<and> small_format (behind_directive format))"
  by pat_completeness auto

termination by (relation "measure length") (auto simp: le_imp_less_Suc length_behind)

lemma has_or: "has (a OR b) f \<longleftrightarrow> has a f \<or> has b f"
  by (simp add: has_def bit.conj_disj_distrib2 or_eq_0_iff)

lemma has_and: "has (a AND b) f \<Longrightarrow> has a f"
  by (auto simp: has_def and.assoc and.left_commute [of a])

abbreviation plain_length :: "u32 \<Rightarrow> bool" where
  "plain_length flags \<equiv> \<not> has flags FLAGS_LONG_LONG"

lemma eval_flags_plain: "plain_length flags \<Longrightarrow> plain_length (fst (eval_flags flags format))"
  by (induction flags format rule: eval_flags.induct) (simp_all add: has_or, simp_all add: has_def)

lemma gives_eval_width:
  "plain_length flags \<Longrightarrow> gives (eval_width flags format va)
     (\<lambda>r. plain_length (fst r) \<and> fst (snd (snd r)) = skip_number format)"
  unfolding eval_width_def skip_number_def split_beta Let_def
  by (auto simp: has_or intro!: gives_ret gives_bind [OF gives_any]) (simp_all add: has_def)

lemma gives_eval_precision:
  "plain_length flags \<Longrightarrow> gives (eval_precision flags format va)
     (\<lambda>r. plain_length (fst r) \<and> fst (snd (snd r)) =
       (if current format = CHR ''.'' then skip_number (tl format) else format))"
  unfolding eval_precision_def skip_number_def split_beta Let_def
  by (auto simp: has_or intro!: gives_ret gives_bind [OF gives_any]) (simp_all add: has_def)

lemma eval_length_flags:
  "eval_length flags format = (flags OR fst (eval_length 0 format), snd (eval_length 0 format))"
  by (simp add: eval_length_def Let_def or.assoc)

lemma tiny_length_eq:
  "tiny_length False flags format = eval_length flags format"
  "current format \<noteq> CHR ''t'' \<Longrightarrow> tiny_length small flags format = eval_length flags format"
  by (simp_all add: tiny_length_def eval_length_def Let_def)

lemma tiny_integer_eq:
  "tiny_integer False out idx maxlen c precision width flags va =
     print_integer out idx maxlen c precision width flags va"
  "plain_length flags \<Longrightarrow> tiny_integer small out idx maxlen c precision width flags va =
     print_integer out idx maxlen c precision width flags va"
proof -
  have s: "plain_length fl \<or> small = False \<Longrightarrow> tiny_signed small out idx maxlen base precision width fl va =
      print_signed out idx maxlen base precision width fl va"
    and u: "plain_length fl \<or> small = False \<Longrightarrow> tiny_unsigned small out idx maxlen base precision width fl va =
      print_unsigned out idx maxlen base precision width fl va" for base fl small
    unfolding tiny_signed_def print_signed_def tiny_unsigned_def print_unsigned_def by auto
  show "tiny_integer False out idx maxlen c precision width flags va =
      print_integer out idx maxlen c precision width flags va"
    by (simp add: tiny_integer_def print_integer_def s u split: prod.split)
  have pa: "plain_length fl \<Longrightarrow> plain_length (fl AND x)" for fl x using has_and by blast
  have po: "plain_length flags \<Longrightarrow> plain_length (flags OR FLAGS_UPPERCASE)" by (simp add: has_or) (simp add: has_def)
  show "plain_length flags \<Longrightarrow> tiny_integer small out idx maxlen c precision width flags va =
      print_integer out idx maxlen c precision width flags va"
    using po by (simp add: tiny_integer_def print_integer_def s u pa split: prod.split)
qed

lemma tiny_specifier_eq:
  "tiny_specifier False out idx maxlen c precision width flags va =
     print_specifier out idx maxlen c precision width flags va"
  "plain_length flags \<Longrightarrow> c \<notin> set ''fF'' \<Longrightarrow> tiny_specifier small out idx maxlen c precision width flags va =
     print_specifier out idx maxlen c precision width flags va"
  by (simp_all add: tiny_specifier_def print_specifier_def tiny_integer_eq)

lemma tiny_directive_eq:
  "tiny_directive False out maxlen format va idx = print_directive out maxlen format va idx"
  "small_directive format \<Longrightarrow> tiny_directive small out maxlen format va idx = print_directive out maxlen format va idx"
proof -
  show "tiny_directive False out maxlen format va idx = print_directive out maxlen format va idx"
    by (simp add: tiny_directive_def print_directive_def tiny_length_eq tiny_specifier_eq)
  assume sm: "small_directive format"
  show "tiny_directive small out maxlen format va idx = print_directive out maxlen format va idx"
    unfolding tiny_directive_def print_directive_def Let_def split_beta
  proof (rule gives_bind_cong [OF gives_eval_width], goal_cases)
    case 1
    show ?case by (rule eval_flags_plain) simp
  next
    case (2 w)
    then have w: "plain_length (fst w)" "fst (snd (snd w)) = skip_number (snd (eval_flags 0 format))" by simp_all
    show ?case
    proof (rule gives_bind_cong [OF gives_eval_precision [OF w(1)]], goal_cases)
      case (1 p)
      then have p: "plain_length (fst p)" "fst (snd (snd p)) = at_length format"
        using w(2) by (simp_all add: at_length_def Let_def)
      have f: "current (at_length format) \<noteq> CHR ''t''" "plain_length (fst (eval_length 0 (at_length format)))"
        "current (snd (eval_length 0 (at_length format))) \<notin> set ''fF''"
        using sm by (simp_all add: small_directive_def split_beta Let_def)
      have "plain_length (fst (eval_length (fst p) (at_length format)))"
        "snd (eval_length (fst p) (at_length format)) = snd (eval_length 0 (at_length format))"
        using p(1) f(2) eval_length_flags [of "fst p"] by (simp_all add: has_or)
      then show ?case
        using f p(2) by (simp add: tiny_length_eq(2) tiny_specifier_eq(2))
    qed
  qed
qed

text \<open>Where the rest of the format begins, and that it is shorter.\<close>

lemma gives_directive:
  "gives (print_directive out maxlen format va idx) (\<lambda>r. fst r = behind_directive format \<and> length (fst r) < length format)"
  unfolding print_directive_def Let_def split_beta
proof (rule gives_bind [where P = "\<lambda>r. fst (snd (snd r)) = skip_number (snd (eval_flags 0 format))"], goal_cases)
  case 1
  show ?case
    unfolding eval_width_def skip_number_def split_beta Let_def by (auto intro!: gives_ret gives_bind [OF gives_any])
next
  case (2 w)
  then show ?case
  proof (intro gives_bind [where P = "\<lambda>r. fst (snd (snd r)) = at_length format"], goal_cases)
    case 1
    then show ?case
      unfolding eval_precision_def at_length_def skip_number_def split_beta Let_def
      by (auto intro!: gives_ret gives_bind [OF gives_any])
  next
    case (2 p)
    show ?case
    proof (rule gives_bind [OF gives_any])
      fix a
      let ?f = "snd (eval_length (fst p) (fst (snd (snd p))))"
      have f: "?f = snd (eval_length 0 (at_length format))"
        using 2(2) eval_length_flags [of "fst p"] by simp
      have "length ?f \<le> length format"
      proof -
        have "length (at_length format) \<le> length format"
          using length_skip_number [of "snd (eval_flags 0 format)"] length_eval_flags [of 0 format]
            length_skip_number [of "tl (skip_number (snd (eval_flags 0 format)))"]
          by (auto simp: at_length_def Let_def)
        then show ?thesis unfolding f using length_eval_length [of 0 "at_length format"] by simp
      qed
      then show "gives (bind (advance ?f) (\<lambda>format. ret (format, snd a, fst a)))
          (\<lambda>r. fst r = behind_directive format \<and> length (fst r) < length format)"
        unfolding f by (cases "snd (eval_length 0 (at_length format))") (auto simp: behind_directive_def gives_def exec)
    qed
  qed
qed

lemma tiny_loop_simps:
  "tiny_loop small out maxlen [] va idx = ret idx"
  "tiny_loop small out maxlen (c # format) va idx =
     (if c = NUL then ret idx
      else if c \<noteq> CHR ''%'' then bind (out c idx maxlen) (\<lambda>_. tiny_loop small out maxlen format va (idx + 1))
      else bind (tiny_directive small out maxlen format va idx)
             (\<lambda>r. tiny_loop small out maxlen (fst r) (fst (snd r)) (snd (snd r))))"
  by (rule ext, subst tiny_loop.simps, simp)+

lemma tiny_loop_eq:
  "small_format format \<or> \<not> small \<Longrightarrow> tiny_loop small out maxlen format va idx = vsnprintf_loop out maxlen format va idx"
proof (induction "length format" arbitrary: format va idx rule: less_induct)
  case less
  show ?case
  proof (cases format)
    case (Cons c rest)
    show ?thesis
    proof (cases "c = CHR ''%''")
      case True
      then have s: "small_directive rest \<and> small_format (behind_directive rest) \<or> \<not> small"
        using less.prems Cons by (auto simp: small_format.simps)
      then have d: "tiny_directive small out maxlen rest va idx = print_directive out maxlen rest va idx"
        using tiny_directive_eq by (metis (full_types))
      have "bind (print_directive out maxlen rest va idx)
          (\<lambda>r. tiny_loop small out maxlen (fst r) (fst (snd r)) (snd (snd r))) =
        bind (print_directive out maxlen rest va idx)
          (\<lambda>r. vsnprintf_loop out maxlen (fst r) (fst (snd r)) (snd (snd r)))"
        by (rule gives_bind_cong [OF gives_directive]) (use s Cons in \<open>auto intro!: less.hyps\<close>)
      with True Cons d show ?thesis by (simp add: tiny_loop_simps vsnprintf_loop_simps)
    next
      case False
      have "c \<noteq> NUL \<Longrightarrow> tiny_loop small out maxlen rest va i = vsnprintf_loop out maxlen rest va i" for i
        using less.prems Cons False by (intro less.hyps) (auto simp: small_format.simps)
      with False Cons show ?thesis by (auto simp: tiny_loop_simps vsnprintf_loop_simps)
    qed
  qed (simp add: tiny_loop_simps vsnprintf_loop_simps)
qed

lemma tiny_format_eq: "tiny_format False no_buffer out maxlen format va = vsnprintf no_buffer out maxlen format va"
  by (simp add: tiny_format_def vsnprintf_def tiny_loop_eq)

text \<open>
  C39: the second copy of the formatter.  As it is built here, the formatter of the debug channel prints
  what the kernel's own prints, whatever the format, the arguments and the output function.  Built without
  \<open>long long\<close>, \<open>ptrdiff_t\<close> and floating point numbers it still does for every format whose
  directives ask for none of them.
\<close>

theorem tiny_printf_agrees:
  "tiny_vfctprintf False out format va = os_vfctprintf out format va \<and>
   (small_format format \<longrightarrow> tiny_vfctprintf True out format va = os_vfctprintf out format va \<and>
      tiny_vsnprintf True count format va = os_vsnprintf count format va)"
  by (auto simp: tiny_vfctprintf_def tiny_vsnprintf_def os_vfctprintf_def os_vsnprintf_def tiny_format_def
      vsnprintf_def tiny_loop_eq fun_eq_iff)

lemma example_small: "small_format ''%-5d of %*.2s: 0x%08lX''"
  by (simp add: small_format.simps small_directive_def behind_directive_def at_length_def skip_number_def
      eval_length_def is_digit_def char_code_def Let_def has_def)

theorem tiny_printf_agrees_witness:
  "\<forall>va. tiny_vsnprintf True 8 ''%-5d of %*.2s: 0x%08lX'' va = os_vsnprintf 8 ''%-5d of %*.2s: 0x%08lX'' va"
  using tiny_printf_agrees [of _ "''%-5d of %*.2s: 0x%08lX''" _ 8] example_small by blast

text \<open>Beyond that the switch shows: a number of 64 bits is not printed and not taken from the arguments.\<close>

lemma small_long_long:
  "tiny_vfctprintf True out ''%lld%d'' [Dword v, Word w] s = Some (Inl Wrong_argument)"
  by (simp add: tiny_vfctprintf_def tiny_format_def tiny_loop_simps tiny_directive_def tiny_length_def eval_width_def
      eval_precision_def tiny_specifier_def tiny_integer_def tiny_signed_def is_digit_def char_code_def has_def Let_def exec)

end
