(* ===== verification/Scheduler.thy ===== *)
theory Scheduler
  imports TaskStatus
begin

unbundle bit_operations_syntax

text \<open>
  The scheduler of \<open>src/src/os.c\<close>: the choice of the next task (\<open>find_new_task\<close>), the
  switch to it (\<open>osi_dispatch\<close>, which also takes it out of the blocked list of the object it
  waited for), and the entry points that call them.
\<close>

section \<open>Choosing a task\<close>

definition OS_RUNQUEUE_NEXT_WRAPPED :: "kernel \<Rightarrow> task_ptr \<Rightarrow> task_ptr option" where
  "OS_RUNQUEUE_NEXT_WRAPPED s n = (if nrp_of s n = None then runqueue s else nrp_of s n)"

text \<open>
  The loop: \<open>start\<close> is the task it starts from, \<open>cur\<close> the current one, \<open>new\<close> and \<open>low\<close> the
  variables \<open>new_task\<close> and \<open>lower_priority\<close>, which are returned.
\<close>

partial_function (option) find_new_task_loop ::
  "os_priority_t \<Rightarrow> task_ptr option \<Rightarrow> task_ptr option \<Rightarrow> task_ptr option \<Rightarrow> task_ptr option \<Rightarrow>
     kernel \<Rightarrow> (fault + (task_ptr option \<times> task_ptr option) \<times> kernel) option" where
  "find_new_task_loop ours start cur new low s =
     (if cur = low then ret (new, low) s
      else case cur of
        None \<Rightarrow> fail Null_pointer s
      | Some t \<Rightarrow>
          if task_is_running s t \<and> is_higher_priority (prio_of s t) ours then ret (Some t, low) s
          else
            (let run = task_is_running s t;
                 eq = is_equal_priority (prio_of s t) ours;
                 new' = (if run \<and> eq \<and> new = None then Some t else new);
                 low' = (if run \<and> \<not> eq \<and> low = None then Some t else low);
                 cur' = OS_RUNQUEUE_NEXT_WRAPPED s t
             in if cur' = start then ret (new', low') s
                else find_new_task_loop ours start cur' new' low' s))"

definition find_new_task :: "task_ptr \<Rightarrow> task_ptr option os" where
  "find_new_task r s =
     (let start = OS_RUNQUEUE_NEXT_WRAPPED s r in
      bind (find_new_task_loop (prio_of s r) start start None None)
        (\<lambda>(new, low) s.
           seq [guarded (new \<noteq> None) (osi_priority_check new)]
             (if new = None \<and> \<not> task_is_running s r \<and> low \<noteq> None
              then seq [osi_priority_check low] (ret low)
              else ret new) s) s)"

section \<open>Dispatching a task\<close>

text \<open>\<open>SCB->ICSR |= SCB_ICSR_PENDSVSET_Msk\<close>, in the device builds.\<close>

definition set_pendsv :: "unit os" where
  "set_pendsv s = guarded (is_device (target s)) (modify (\<lambda>s. s\<lparr>pendsv := True\<rparr>)) s"

text \<open>The four blocks of \<open>osi_dispatch\<close> that take the task away from what it waited for.\<close>

definition dispatch_leave_mutex :: "task_ptr \<Rightarrow> unit os" where
  "dispatch_leave_mutex t s =
     guarded (t_flags (task s t) AND OS_TASK_FLAG_MUTEX = OS_TASK_FLAG_MUTEX)
       (block
          [os_assert ''task->queue == NULL'' (t_queue (task s t) = None),
           os_assert ''task->mutex != NULL'' (t_mutex (task s t) \<noteq> None),
           os_assert ''task->semaphore == NULL'' (t_semaphore (task s t) = None),
           os_assert ''task->rwlock == NULL'' (t_rwlock (task s t) = None),
           bind (deref (t_mutex (task s t)))
             (\<lambda>m. block
                [guarded (get_blocked (Mutex_blocked m) s = Some t)
                   (block [modify (put_blocked (Mutex_blocked m) (nblocked_of s t)),
                           upd_task t (\<lambda>x. x\<lparr>t_nblocked := None\<rparr>)]),
                 ignore (blocked_remove (Mutex_blocked m) t)]),
           upd_task t (\<lambda>x. x\<lparr>t_mutex := None, t_flags := 0\<rparr>)]) s"

definition dispatch_leave_queue :: "task_ptr \<Rightarrow> unit os" where
  "dispatch_leave_queue t s =
     guarded (t_flags (task s t) AND OS_TASK_FLAG_QUEUE = OS_TASK_FLAG_QUEUE)
       (block
          [os_assert ''task->mutex == NULL'' (t_mutex (task s t) = None),
           os_assert ''task->queue != NULL'' (t_queue (task s t) \<noteq> None),
           os_assert ''task->semaphore == NULL'' (t_semaphore (task s t) = None),
           os_assert ''task->rwlock == NULL'' (t_rwlock (task s t) = None),
           bind (deref (t_queue (task s t))) (\<lambda>q. ignore (blocked_remove (Queue_blocked q) t)),
           upd_task t (\<lambda>x. x\<lparr>t_queue := None, t_flags := 0\<rparr>)]) s"

definition dispatch_leave_semaphore :: "task_ptr \<Rightarrow> unit os" where
  "dispatch_leave_semaphore t s =
     guarded (t_flags (task s t) AND OS_TASK_FLAG_SEMAPHORE = OS_TASK_FLAG_SEMAPHORE)
       (block
          [os_assert ''task->mutex == NULL'' (t_mutex (task s t) = None),
           os_assert ''task->queue == NULL'' (t_queue (task s t) = None),
           os_assert ''task->semaphore != NULL'' (t_semaphore (task s t) \<noteq> None),
           os_assert ''task->rwlock == NULL'' (t_rwlock (task s t) = None),
           bind (deref (t_semaphore (task s t)))
             (\<lambda>p. ignore (blocked_remove (Semaphore_blocked p) t)),
           upd_task t (\<lambda>x. x\<lparr>t_semaphore := None, t_flags := 0\<rparr>)]) s"

definition dispatch_leave_rwlock :: "task_ptr \<Rightarrow> unit os" where
  "dispatch_leave_rwlock t s =
     guarded (t_flags (task s t) AND OS_TASK_FLAG_RWLOCK = OS_TASK_FLAG_RWLOCK)
       (block
          [os_assert ''task->mutex == NULL'' (t_mutex (task s t) = None),
           os_assert ''task->queue == NULL'' (t_queue (task s t) = None),
           os_assert ''task->semaphore == NULL'' (t_semaphore (task s t) = None),
           os_assert ''task->rwlock != NULL'' (t_rwlock (task s t) \<noteq> None),
           bind (deref (t_rwlock (task s t))) (\<lambda>r. ignore (blocked_remove (Rwlock_blocked r) t)),
           upd_task t (\<lambda>x. x\<lparr>t_c := 0, t_rwlock := None, t_flags := 0\<rparr>)]) s"

definition dispatch_leave :: "task_ptr \<Rightarrow> unit os" where
  "dispatch_leave t =
     block [dispatch_leave_mutex t, dispatch_leave_queue t, dispatch_leave_semaphore t,
            dispatch_leave_rwlock t]"

text \<open>What happens to the task that is switched away from.\<close>

definition dispatch_demote :: "task_ptr \<Rightarrow> unit os" where
  "dispatch_demote r s =
     (case status_of s r of
        OS_TASK_STATUS_ACTIVE \<Rightarrow> upd_task r (\<lambda>x. x\<lparr>t_status := OS_TASK_STATUS_IDLE\<rparr>)
      | OS_TASK_STATUS_IDLE \<Rightarrow> ret ()
      | OS_TASK_STATUS_WAIT \<Rightarrow> ret ()
      | OS_TASK_STATUS_SUSPENDED \<Rightarrow> runqueue_remove Runqueue r
      | OS_TASK_STATUS_FINISHED \<Rightarrow> runqueue_remove Runqueue r
      | OS_TASK_STATUS_PANIC \<Rightarrow> block [emit (Task_panicked r), runqueue_remove Runqueue r]
      | OS_TASK_STATUS_ABORTED \<Rightarrow> runqueue_remove Runqueue r) s"

definition dispatch_activate :: "task_ptr \<Rightarrow> unit os" where
  "dispatch_activate t s =
     (let old_status = status_of s t in
      block
        [upd_task t (\<lambda>x. x\<lparr>t_delay := 0, t_flags := 0, t_status := OS_TASK_STATUS_ACTIVE\<rparr>),
         guarded (old_status = OS_TASK_STATUS_WAIT)
           (block [waitqueue_remove Waitqueue t, runqueue_add Runqueue t])] s)"

text \<open>The accounting of run time, in microseconds that wrap around.\<close>

definition dispatch_account :: "task_ptr \<Rightarrow> task_ptr \<Rightarrow> unit os" where
  "dispatch_account r t s =
     (let now = micros s in
      block
        [guarded (t_scheduled (task s r) > 0)
           (upd_task r (\<lambda>x. x\<lparr>t_runtime := t_runtime x + (now - t_scheduled x),
                              t_scheduled := 0\<rparr>)),
         upd_task t (\<lambda>x. x\<lparr>t_scheduled := now\<rparr>)] s)"

definition osi_dispatch :: "task_ptr option \<Rightarrow> u32 os" where
  "osi_dispatch p s =
     seq
       [os_assert ''task != NULL'' (p \<noteq> None),
        os_assert ''osg.running != NULL'' (running s \<noteq> None)]
       (if running s = p then ret OSS_SUCCESS
        else
          bind (deref p) (\<lambda>t. bind (deref (running s)) (\<lambda>r.
            seq
              [dispatch_leave t,
               dispatch_demote r,
               dispatch_activate t,
               dispatch_account r t,
               (\<lambda>s. guarded (idle s = Some t)
                  (bind (runqueue_length (runqueue s))
                     (\<lambda>n. os_assert ''runqueue_length(osg.runqueue) == 1'' (n = 1))) s),
               modify (\<lambda>s. s\<lparr>scheduled := Some t\<rparr>),
               osi_priority_check (Some t),
               (\<lambda>s. guarded (scheduled s \<noteq> None) set_pendsv s)]
              (ret OSS_SUCCESS)))) s"

section \<open>The scheduler\<close>

text \<open>The loop that wakes the first waiting task whose time has come.\<close>

partial_function (option) wake_loop ::
  "u32 \<Rightarrow> task_ptr option \<Rightarrow> kernel \<Rightarrow> (fault + unit \<times> kernel) option" where
  "wake_loop now iter s =
     (case iter of
        None \<Rightarrow> ret () s
      | Some t \<Rightarrow>
          if t_delay (task s t) \<noteq> UINT32_MAX \<and> now \<ge> t_delay (task s t)
          then ignore (osi_task_status_set t OS_TASK_STATUS_IDLE) s
          else wake_loop now (nrp_of s t) s)"

definition osi_schedule :: "u32 os" where
  "osi_schedule s =
     seq [os_assert ''osg.running != NULL'' (running s \<noteq> None)]
       (bind (deref (running s)) (\<lambda>r.
          if status_of s r = OS_TASK_STATUS_IDLE
          then seq [emit Warn_schedule_idle] (ret OSS_SUCCESS)
          else if scheduled s \<noteq> None
          then seq [emit Warn_schedule_unnecessary] (ret OSS_SUCCESS)
          else
            seq
              [wake_loop (uptime s) (waitqueue s),
               bind (find_new_task r)
                 (\<lambda>new s. guarded (new \<noteq> None \<and> running s \<noteq> new)
                            (ignore (osi_dispatch new)) s),
               (\<lambda>s. guarded (scheduled s \<noteq> None) set_pendsv s)]
              (ret OSS_SUCCESS))) s"

definition osi_dispatch_or_queue :: "task_ptr \<Rightarrow> u32 os" where
  "osi_dispatch_or_queue t =
     bind (runqueue_has_higher_priority t)
       (\<lambda>higher s.
          if higher then
            seq [guarded (\<not> task_is_running s t)
                   (ignore (osi_task_status_set t OS_TASK_STATUS_IDLE))]
              (\<lambda>s. if scheduled s = None then osi_schedule s else ret OSS_SUCCESS s) s
          else osi_dispatch (Some t) s)"

definition osi_irs_systick :: "u32 os" where
  "osi_irs_systick s =
     (if os_state s = OS_STATE_STARTED \<and> scheduled s = None then osi_schedule s
      else ret OSS_SUCCESS s)"

section \<open>Panics and the stack check\<close>

partial_function (option) panic_list ::
  "(task_ptr \<Rightarrow> event) \<Rightarrow> task_ptr option \<Rightarrow> kernel \<Rightarrow> (fault + unit \<times> kernel) option" where
  "panic_list ev iter s =
     (case iter of
        None \<Rightarrow> ret () s
      | Some t \<Rightarrow> bind (emit (ev t)) (\<lambda>_. panic_list ev (nrp_of s t)) s)"

text \<open>\<open>osi_panic\<close> of \<open>src/src/hooks.c\<close>; the device builds do not return from the reset.\<close>

definition osi_panic :: "os_panic_kind_t \<Rightarrow> unit os" where
  "osi_panic code =
     block
       [emit (Panic_kind code),
        (\<lambda>s. panic_list Panic_running (runqueue s) s),
        (\<lambda>s. panic_list Panic_waiting (waitqueue s) s),
        (\<lambda>s. guarded (is_device (target s)) (fail System_reset) s),
        (\<lambda>s. case running s of
               None \<Rightarrow> ret () s
             | Some r \<Rightarrow> ignore (osi_task_status_set r OS_TASK_STATUS_PANIC) s)]"

definition osi_stack_check :: "unit os" where
  "osi_stack_check s =
     bind (deref (running s))
       (\<lambda>r. block
          [guarded (t_sp (task s r) < t_stack (task s r) \<or>
                    mem s (t_stack (task s r)) \<noteq> OSH_STACK_MAGIC_WORD)
             (osi_panic OS_PANIC_STACK_OVERFLOW),
           (\<lambda>s. osi_priority_check (scheduled s) s)]) s"

end
