(* ===== verification/Choice.thy ===== *)
theory Choice
  imports Scheduler
begin

text \<open>
  What \<open>find_new_task\<close> chooses.  The loop of the code walks round the run queue from the
  task after the running one; it is shown to end and to choose the head of the run queue when
  that has a higher priority, the next task of the same priority in the rotation otherwise,
  and the head of the run queue when the running task can no longer run.
\<close>

section \<open>Walking along the queue\<close>

text \<open>Following \<open>OS_RUNQUEUE_NEXT_WRAPPED\<close> from \<open>cur\<close> visits \<open>ps\<close> and then stands at \<open>nxt\<close>.\<close>

fun path :: "kernel \<Rightarrow> task_ptr option \<Rightarrow> task_ptr list \<Rightarrow> task_ptr option \<Rightarrow> bool" where
  "path s cur [] nxt \<longleftrightarrow> cur = nxt"
| "path s cur (x # xs) nxt \<longleftrightarrow>
     cur = Some x \<and> path s (OS_RUNQUEUE_NEXT_WRAPPED s x) xs nxt"

definition first_new :: "kernel \<Rightarrow> os_priority_t \<Rightarrow> task_ptr list \<Rightarrow> task_ptr option \<Rightarrow> task_ptr option"
  where
  "first_new s ours ps new =
     (if new = None then find (\<lambda>x. task_is_running s x \<and> prio_of s x = ours) ps else new)"

definition first_low :: "kernel \<Rightarrow> os_priority_t \<Rightarrow> task_ptr list \<Rightarrow> task_ptr option \<Rightarrow> task_ptr option"
  where
  "first_low s ours ps low =
     (if low = None then find (\<lambda>x. task_is_running s x \<and> prio_of s x \<noteq> ours) ps else low)"

lemma find_append:
  "find P (xs @ ys) = (case find P xs of None \<Rightarrow> find P ys | Some x \<Rightarrow> Some x)"
  by (induction xs) auto

lemma first_new_Nil [simp]: "first_new s ours [] new = new"
  and first_low_Nil [simp]: "first_low s ours [] low = low"
  by (simp_all add: first_new_def first_low_def)

lemma first_new_append: "first_new s ours ys (first_new s ours xs new) = first_new s ours (xs @ ys) new"
  and first_low_append: "first_low s ours ys (first_low s ours xs low) = first_low s ours (xs @ ys) low"
  by (auto simp: first_new_def first_low_def find_append split: option.split)

lemma path_append:
  "path s cur (xs @ ys) nxt \<longleftrightarrow> (\<exists>mid. path s cur xs mid \<and> path s mid ys nxt)"
  by (induction xs arbitrary: cur) auto

text \<open>Along tasks of no higher priority the loop only remembers the first equal and the first lower one.\<close>

lemma find_loop_walk:
  assumes "path s cur ps nxt" and "distinct ps"
    and "\<forall>x\<in>set ps. \<not> (task_is_running s x \<and> prio_of s x > ours)"
    and "\<forall>x\<in>set ps. OS_RUNQUEUE_NEXT_WRAPPED s x \<noteq> start \<and> low \<noteq> Some x"
  shows "find_new_task_loop ours start cur new low s =
    find_new_task_loop ours start nxt (first_new s ours ps new) (first_low s ours ps low) s"
  using assms
proof (induction ps arbitrary: cur new low)
  case (Cons x xs)
  let ?new = "first_new s ours [x] new" and ?low = "first_low s ours [x] low"
  have low: "\<forall>y\<in>set xs. ?low \<noteq> Some y"
    using Cons.prems(2,4) by (auto simp: first_low_def split: if_splits)
  have nh: "\<not> (task_is_running s x \<and> is_higher_priority (prio_of s x) ours)"
    using Cons.prems(3) by (auto simp: is_higher_priority_def)
  have "find_new_task_loop ours start cur new low s =
      find_new_task_loop ours start (OS_RUNQUEUE_NEXT_WRAPPED s x) ?new ?low s"
    using Cons.prems(1,4) nh
    by (subst find_new_task_loop.simps)
      (auto simp: Let_def is_equal_priority_def first_new_def first_low_def)
  also have "\<dots> = find_new_task_loop ours start nxt (first_new s ours xs ?new) (first_low s ours xs ?low) s"
    by (rule Cons.IH) (use Cons.prems low in auto)
  also have "first_new s ours xs ?new = first_new s ours (x # xs) new"
    by (simp add: first_new_def)
  also have "first_low s ours xs ?low = first_low s ours (x # xs) low"
    by (simp add: first_low_def)
  finally show ?case .
qed simp

lemma find_loop_close:
  assumes "OS_RUNQUEUE_NEXT_WRAPPED s x = start" and "low \<noteq> Some x"
    and "\<not> (task_is_running s x \<and> prio_of s x > ours)"
  shows "find_new_task_loop ours start (Some x) new low s =
    ret (first_new s ours [x] new, first_low s ours [x] low) s"
  using assms
  by (subst find_new_task_loop.simps)
    (auto simp: Let_def is_equal_priority_def is_higher_priority_def first_new_def first_low_def)

lemma find_loop_higher:
  assumes "low \<noteq> Some x" and "task_is_running s x" and "prio_of s x > ours"
  shows "find_new_task_loop ours start (Some x) new low s = ret (Some x, low) s"
  using assms by (subst find_new_task_loop.simps) (auto simp: is_higher_priority_def)

lemma find_loop_low:
  "find_new_task_loop ours start low new low s = ret (new, low) s"
  by (subst find_new_task_loop.simps) simp

section \<open>Paths of the run queue\<close>

lemma next_wrapped_run:
  assumes "is_list Runqueue s (as @ x # bs)"
  shows "OS_RUNQUEUE_NEXT_WRAPPED s x = first (bs @ as @ [x])"
  using is_list_mid [OF assms] is_list_first [OF assms]
  by (simp add: OS_RUNQUEUE_NEXT_WRAPPED_def first_append)

lemma path_run:
  assumes "is_list Runqueue s (as @ xs @ bs)"
  shows "path s (first (xs @ bs @ as @ xs)) xs (first (bs @ as @ xs))"
  using assms
proof (induction xs arbitrary: as)
  case (Cons x xs)
  have l: "is_list Runqueue s (as @ x # (xs @ bs))" using Cons.prems by simp
  have "path s (first (xs @ bs @ (as @ [x]) @ xs)) xs (first (bs @ (as @ [x]) @ xs))"
    by (rule Cons.IH) (use Cons.prems in simp)
  moreover have "first (xs @ bs @ (as @ [x]) @ xs) = OS_RUNQUEUE_NEXT_WRAPPED s x"
    using next_wrapped_run [OF l] by (simp add: first_append)
  moreover have "first (bs @ (as @ [x]) @ xs) = first (bs @ as @ x # xs)" by simp
  ultimately show ?case by (simp add: first_append)
qed simp

lemma path_next:
  assumes "path s cur (ps @ [z]) nxt" and "x \<in> set ps"
  shows "\<exists>y\<in>set (tl (ps @ [z])). OS_RUNQUEUE_NEXT_WRAPPED s x = Some y"
  using assms
proof (induction ps arbitrary: cur)
  case (Cons p ps)
  then obtain y where y: "OS_RUNQUEUE_NEXT_WRAPPED s p = Some y" "y \<in> set (ps @ [z])"
    by (cases ps) auto
  show ?case
  proof (cases "x = p")
    case False
    with Cons have "\<exists>y\<in>set (tl (ps @ [z])). OS_RUNQUEUE_NEXT_WRAPPED s x = Some y" by auto
    then show ?thesis by (cases ps) auto
  qed (use y in auto)
qed simp

text \<open>Inside a path without repetition nothing leads back to its start.\<close>

lemma path_not_start:
  assumes "path s cur (ps @ z # zs) nxt" and "distinct (ps @ [z])" and "x \<in> set ps"
  shows "OS_RUNQUEUE_NEXT_WRAPPED s x \<noteq> cur"
proof -
  have p: "path s cur (ps @ [z]) (OS_RUNQUEUE_NEXT_WRAPPED s z)"
    using assms(1) by (auto simp: path_append)
  obtain y where "y \<in> set (tl (ps @ [z]))" "OS_RUNQUEUE_NEXT_WRAPPED s x = Some y"
    using path_next [OF p assms(3)] by blast
  moreover have "cur = Some (hd (ps @ [z]))" using p by (cases ps) auto
  moreover have "hd (ps @ [z]) \<notin> set (tl (ps @ [z]))" using assms(2) by (cases ps) auto
  ultimately show ?thesis by auto
qed

text \<open>The order in which the queue is walked from the successor of \<open>r\<close>.\<close>

definition rotation :: "task_ptr list \<Rightarrow> task_ptr \<Rightarrow> task_ptr list" where
  "rotation rs r = tl (dropWhile (\<lambda>x. x \<noteq> r) rs) @ takeWhile (\<lambda>x. x \<noteq> r) rs @ [r]"

lemma rotation_split:
  assumes "distinct (as @ r # bs)"
  shows "rotation (as @ r # bs) r = bs @ as @ [r]"
proof -
  have "\<forall>x\<in>set as. x \<noteq> r" using assms by auto
  then show ?thesis by (simp add: rotation_def dropWhile_append takeWhile_append)
qed

lemma path_rotation:
  assumes "is_list Runqueue s (as @ r # bs)"
  shows "path s (first (bs @ as @ [r])) (bs @ as @ [r]) (first (bs @ as @ [r]))"
proof -
  have "path s (first (bs @ (as @ [r]) @ bs)) bs (first ((as @ [r]) @ bs))"
    using path_run [of s "as @ [r]" bs "[]"] assms by simp
  moreover have "path s (first ((as @ [r]) @ bs @ as @ [r])) (as @ [r]) (first (bs @ as @ [r]))"
    using path_run [of s "[]" "as @ [r]" bs] assms by simp
  moreover have "first ((as @ [r]) @ bs @ as @ [r]) = first ((as @ [r]) @ bs)"
    and "first (bs @ (as @ [r]) @ bs) = first (bs @ as @ [r])"
    by (simp_all add: first_append)
  ultimately show ?thesis by (auto simp: path_append)
qed

section \<open>The choice\<close>

definition higher_exists :: "kernel \<Rightarrow> task_ptr \<Rightarrow> task_ptr list \<Rightarrow> bool" where
  "higher_exists s r rs \<longleftrightarrow> (\<exists>x\<in>set rs. higher s x r)"

definition choice :: "kernel \<Rightarrow> task_ptr \<Rightarrow> task_ptr list \<Rightarrow> task_ptr option" where
  "choice s r rs =
     (if r \<notin> set rs \<or> higher_exists s r rs then first rs
      else find (\<lambda>x. prio_of s x = prio_of s r) (rotation rs r))"

lemma head_highest:
  assumes "sorted_wrt (\<lambda>x y. \<not> higher s y x) rs" and "x \<in> set rs"
  shows "prio_of s x \<le> prio_of s (hd rs)"
  using assms by (cases rs) (auto simp: higher_def)

lemma find_loop_runnable:
  assumes q: "rq_ok s rs" and r: "r \<in> set rs"
    and start: "start = OS_RUNQUEUE_NEXT_WRAPPED s r"
  shows "\<exists>low. find_new_task_loop (prio_of s r) start start None None s = ret (choice s r rs, low) s"
proof -
  have l: "is_list Runqueue s rs" and so: "sorted_wrt (\<lambda>x y. \<not> higher s y x) rs"
    and run: "\<And>x. x \<in> set rs \<Longrightarrow> task_is_running s x"
    using q by (auto simp: rq_ok_def task_is_running_def)
  obtain as bs where rs: "rs = as @ r # bs" using r by (auto simp: in_set_conv_decomp)
  have d: "distinct (as @ r # bs)" using is_list_distinct [OF l] rs by simp
  let ?L = "bs @ as @ [r]"
  have pL: "path s start ?L start" and st: "start = first ?L"
    using path_rotation [of s as r bs] next_wrapped_run [of s as r bs] l rs start by auto
  have below: "\<forall>x\<in>set bs. \<not> prio_of s x > prio_of s r"
    using so rs by (auto simp: sorted_wrt_append higher_def)
  show ?thesis
  proof (cases "higher_exists s r rs")
    case True
    then obtain x where x: "x \<in> set as" "prio_of s x > prio_of s r"
      using rs below by (auto simp: higher_exists_def higher_def)
    then obtain h as' where as: "as = h # as'" by (cases as) auto
    have "prio_of s x \<le> prio_of s h" using head_highest [OF so, of x] x(1) rs as by auto
    then have h: "prio_of s h > prio_of s r" using x(2) by simp
    have p: "path s start (bs @ h # (as' @ [r])) start" using pL as by simp
    then have pb: "path s start bs (Some h)" by (auto simp: path_append)
    have db: "distinct (bs @ [h])" using d as by auto
    have "find_new_task_loop (prio_of s r) start start None None s =
        find_new_task_loop (prio_of s r) start (Some h) (first_new s (prio_of s r) bs None)
          (first_low s (prio_of s r) bs None) s"
      by (rule find_loop_walk [OF pb]) (use below db path_not_start [OF p db] in auto)
    also have "\<dots> = ret (Some h, first_low s (prio_of s r) bs None) s"
    proof (rule find_loop_higher)
      show "first_low s (prio_of s r) bs None \<noteq> Some h"
        using db by (auto simp: first_low_def find_Some_iff)
    qed (use run rs as h in auto)
    finally show ?thesis using True rs as by (auto simp: choice_def)
  next
    case False
    then have nh: "\<forall>x\<in>set rs. \<not> prio_of s x > prio_of s r"
      by (auto simp: higher_exists_def higher_def)
    have db: "distinct ((bs @ as) @ [r])" using d by auto
    have p: "path s start ((bs @ as) @ r # []) start" using pL by simp
    then have pb: "path s start (bs @ as) (Some r)" and n: "OS_RUNQUEUE_NEXT_WRAPPED s r = start"
      using start by (auto simp: path_append)
    have "find_new_task_loop (prio_of s r) start start None None s =
        find_new_task_loop (prio_of s r) start (Some r) (first_new s (prio_of s r) (bs @ as) None)
          (first_low s (prio_of s r) (bs @ as) None) s"
      by (rule find_loop_walk [OF pb]) (use nh rs db path_not_start [OF p db] in auto)
    also have "\<dots> = ret (first_new s (prio_of s r) [r] (first_new s (prio_of s r) (bs @ as) None),
        first_low s (prio_of s r) [r] (first_low s (prio_of s r) (bs @ as) None)) s"
    proof (rule find_loop_close [OF n])
      show "first_low s (prio_of s r) (bs @ as) None \<noteq> Some r"
        using db by (auto simp: first_low_def find_Some_iff in_set_conv_nth)
    qed simp
    also have "first_new s (prio_of s r) [r] (first_new s (prio_of s r) (bs @ as) None) =
        find (\<lambda>x. task_is_running s x \<and> prio_of s x = prio_of s r) ?L"
      unfolding first_new_append by (simp add: first_new_def)
    also have "\<dots> = find (\<lambda>x. prio_of s x = prio_of s r) ?L"
      by (rule find_cong) (use run rs in auto)
    finally show ?thesis using False r rs rotation_split [OF d] by (auto simp: choice_def)
  qed
qed

text \<open>
  The running task can no longer run.  It may stand in the wait queue: then the walk starts
  among the waiting tasks behind it, \<open>us\<close>, before it reaches the run queue.
\<close>

lemma head_equal:
  assumes so: "sorted_wrt (\<lambda>x y. \<not> higher s y x) (h # t)"
    and nh: "\<forall>x\<in>set (h # t). \<not> prio_of s x > ours" and "x \<in> set (h # t)" "prio_of s x = ours"
  shows "prio_of s h = ours"
  using head_highest [OF so assms(3)] assms(4) nh by (auto simp: not_less intro: antisym)

lemma find_loop_blocked:
  assumes q: "rq_ok s rs" and ne: "rs \<noteq> []"
    and pu: "path s start us (first rs)" and du: "distinct us" "set us \<inter> set rs = {}"
    and nrun: "\<forall>x\<in>set us. \<not> task_is_running s x"
    and cond: "us = [] \<or> (\<exists>x\<in>set rs. prio_of s x \<noteq> ours)"
  shows "\<exists>new low. find_new_task_loop ours start start None None s = ret (new, low) s \<and>
    (new = first rs \<or> new = None \<and> low = first rs)"
proof -
  have l: "is_list Runqueue s rs" and so: "sorted_wrt (\<lambda>x y. \<not> higher s y x) rs"
    and run: "\<And>x. x \<in> set rs \<Longrightarrow> task_is_running s x"
    using q by (auto simp: rq_ok_def task_is_running_def)
  obtain h t where rs: "rs = h # t" using ne by (cases rs) auto
  have d: "distinct rs" using is_list_distinct [OF l] .
  have pr: "path s (Some h) rs (Some h)" using path_run [of s "[]" rs "[]"] l rs by simp
  have nw: "first_new s ours us None = None" "first_low s ours us None = None"
    using nrun by (auto simp: first_new_def first_low_def find_None_iff)
  have pu': "path s start (us @ h # []) (OS_RUNQUEUE_NEXT_WRAPPED s h)"
    using pu rs by (auto simp: path_append)
  have "find_new_task_loop ours start start None None s =
      find_new_task_loop ours start (first rs) (first_new s ours us None) (first_low s ours us None) s"
    by (rule find_loop_walk [OF pu]) (use nrun du path_not_start [OF pu'] rs in auto)
  then have e1: "find_new_task_loop ours start start None None s =
      find_new_task_loop ours start (Some h) None None s" using nw rs by simp
  show ?thesis
  proof (cases "prio_of s h > ours")
    case True
    then show ?thesis using e1 find_loop_higher [of None h s ours start None] run rs by auto
  next
    case False
    then have nh: "\<forall>x\<in>set rs. \<not> prio_of s x > ours"
      using head_highest [OF so] rs by (force simp: not_less intro: order_trans)
    let ?eq = "\<lambda>x. task_is_running s x \<and> prio_of s x = ours"
    have new: "find ?eq rs = Some h \<or> find ?eq rs = None \<and> prio_of s h \<noteq> ours"
      using head_equal [of s h t ours] so nh run rs by (auto simp: find_None_iff find_Some_iff)
    show ?thesis
    proof (cases "us = []")
      case True
      then have st: "start = Some h" using pu rs by simp
      obtain as z where z: "rs = as @ [z]" using ne by (metis append_butlast_last_id)
      have pz: "path s start (as @ [z]) start" using pr st z by simp
      then have pa: "path s start as (Some z)" and n: "OS_RUNQUEUE_NEXT_WRAPPED s z = start"
        by (auto simp: path_append)
      have "find_new_task_loop ours start start None None s =
          find_new_task_loop ours start (Some z) (first_new s ours as None) (first_low s ours as None) s"
        by (rule find_loop_walk [OF pa]) (use nh d z path_not_start [of s start as z "[]"] pz in auto)
      also have "\<dots> = ret (first_new s ours [z] (first_new s ours as None),
          first_low s ours [z] (first_low s ours as None)) s"
      proof (rule find_loop_close [OF n])
        show "first_low s ours as None \<noteq> Some z"
          using d z by (auto simp: first_low_def find_Some_iff in_set_conv_nth)
      qed (use nh z in auto)
      also have "first_new s ours [z] (first_new s ours as None) = find ?eq rs"
        unfolding first_new_append using z by (simp add: first_new_def)
      also have "first_low s ours [z] (first_low s ours as None) =
          find (\<lambda>x. task_is_running s x \<and> prio_of s x \<noteq> ours) rs"
        unfolding first_low_append using z by (simp add: first_low_def)
      finally show ?thesis using new run rs by (cases "prio_of s h = ours") auto
    next
      case False
      then have ex: "\<exists>x\<in>set rs. prio_of s x \<noteq> ours" using cond by simp
      have "start \<in> Some ` set us" using False pu by (cases us) auto
      then have ns: "\<forall>x\<in>set rs. Some x \<noteq> start" using du by auto
      have nx: "\<forall>x\<in>set rs. OS_RUNQUEUE_NEXT_WRAPPED s x \<noteq> start"
      proof
        fix x assume "x \<in> set rs"
        then obtain as bs where x: "rs = as @ x # bs" by (auto simp: in_set_conv_decomp)
        then have "OS_RUNQUEUE_NEXT_WRAPPED s x = first (bs @ as @ [x])"
          using next_wrapped_run [of s as x bs] l by simp
        moreover obtain y zs where y: "bs @ as @ [x] = y # zs" by (cases "bs @ as @ [x]") auto
        moreover have "y \<in> set (bs @ as @ [x])" unfolding y by simp
        then have "y \<in> set rs" using x by auto
        ultimately have "OS_RUNQUEUE_NEXT_WRAPPED s x = Some y" "y \<in> set rs" by simp_all
        with ns show "OS_RUNQUEUE_NEXT_WRAPPED s x \<noteq> start" by auto
      qed
      obtain es x ls where es: "rs = es @ x # ls" "\<forall>y\<in>set es. prio_of s y = ours" "prio_of s x \<noteq> ours"
        using ex split_list_first_prop [of rs "\<lambda>x. prio_of s x \<noteq> ours"] by auto
      have low: "find (\<lambda>x. task_is_running s x \<and> prio_of s x \<noteq> ours) rs = Some x"
      proof -
        have "find (\<lambda>x. task_is_running s x \<and> prio_of s x \<noteq> ours) es = None"
          using es(2) by (auto simp: find_None_iff)
        then show ?thesis using es run by (simp add: find_append)
      qed
      have "find_new_task_loop ours start (Some h) None None s =
          find_new_task_loop ours start (Some h) (first_new s ours rs None) (first_low s ours rs None) s"
        by (rule find_loop_walk [OF pr d]) (use nh nx in auto)
      also have "\<dots> = find_new_task_loop ours start (Some h) (find ?eq rs) (Some x) s"
        using low by (simp add: first_new_def first_low_def)
      also have "\<dots> = find_new_task_loop ours start (Some x)
          (first_new s ours es (find ?eq rs)) (first_low s ours es (Some x)) s"
      proof (rule find_loop_walk)
        have "path s (Some h) (es @ x # ls) (Some h)" using pr es(1) by simp
        then show "path s (Some h) es (Some x)" by (auto simp: path_append)
      qed (use d es nh nx in auto)
      also have "\<dots> = find_new_task_loop ours start (Some x) (first_new s ours es (find ?eq rs)) (Some x) s"
        by (simp add: first_low_def)
      also have "\<dots> = ret (first_new s ours es (find ?eq rs), Some x) s"
        by (rule find_loop_low)
      also have "first_new s ours es (find ?eq rs) = find ?eq rs"
      proof (cases "find ?eq rs")
        case None
        then have "find ?eq es = None" using es(1) by (auto simp: find_None_iff)
        with None show ?thesis by (simp add: first_new_def)
      qed (simp add: first_new_def)
      finally show ?thesis using e1 new es rs by (cases es) auto
    qed
  qed
qed

lemma path_wait:
  "is_list Waitqueue s (as @ us) \<Longrightarrow>
   path s (if us = [] then runqueue s else first us) us (runqueue s)"
proof (induction us arbitrary: as)
  case (Cons u us)
  then have "OS_RUNQUEUE_NEXT_WRAPPED s u = (if us = [] then runqueue s else first us)"
    using is_list_mid [of Waitqueue s as u us] by (auto simp: OS_RUNQUEUE_NEXT_WRAPPED_def)
  with Cons.IH [of "as @ [u]"] Cons.prems show ?case by simp
qed simp

lemma find_loop_empty:
  assumes "path s start us None" and "distinct us" and "\<forall>x\<in>set us. \<not> task_is_running s x"
  shows "find_new_task_loop ours start start None None s = ret (None, None) s"
proof -
  have ns: "OS_RUNQUEUE_NEXT_WRAPPED s x \<noteq> start" if x: "x \<in> set us" for x
  proof -
    obtain u as where u: "us = as @ [u]" using x by (cases us rule: rev_cases) auto
    have "start \<noteq> None" using assms(1) u by (cases as) auto
    moreover have "OS_RUNQUEUE_NEXT_WRAPPED s u = None" using assms(1) u by (auto simp: path_append)
    ultimately show ?thesis
      using path_not_start [of s start as u "[]" None x] assms(1,2) u x by (cases "x = u") auto
  qed
  have "find_new_task_loop ours start start None None s =
      find_new_task_loop ours start None (first_new s ours us None) (first_low s ours us None) s"
    by (rule find_loop_walk [OF assms(1,2)]) (use assms(3) ns in auto)
  moreover have "first_new s ours us None = None" "first_low s ours us None = None"
    using assms(3) by (auto simp: first_new_def first_low_def find_None_iff)
  ultimately show ?thesis by (simp add: find_loop_low)
qed

text \<open>When the walk is sure to end: no waiting task is behind \<open>r\<close>, or not all priorities are \<open>r\<close>'s.\<close>

definition choice_ends :: "kernel \<Rightarrow> task_ptr \<Rightarrow> task_ptr list \<Rightarrow> bool" where
  "choice_ends s r rs \<longleftrightarrow>
     r \<in> set rs \<or> nrp_of s r = None \<or> rs = [] \<or> (\<exists>x\<in>set rs. prio_of s x \<noteq> prio_of s r)"

lemma choice_not_lower:
  assumes q: "queues_ok s rs ws" and c: "choice s r rs = Some t"
  shows "t \<in> set rs \<and> (\<forall>x\<in>set rs. \<not> higher s x t)"
proof (cases "r \<notin> set rs \<or> higher_exists s r rs")
  case True
  then have "first rs = Some t" using c by (auto simp: choice_def)
  then show ?thesis
    using head_highest [OF queues_okD(5) [OF q]] by (cases rs) (auto simp: higher_def not_less)
next
  case False
  then obtain as bs where rs: "rs = as @ r # bs" by (auto simp: in_set_conv_decomp)
  have "find (\<lambda>x. prio_of s x = prio_of s r) (rotation rs r) = Some t"
    using c False by (simp add: choice_def)
  then have "t \<in> set (rotation rs r)" "prio_of s t = prio_of s r"
    by (auto simp: find_Some_iff)
  moreover have "set (rotation rs r) = set rs"
    using rotation_split [of as r bs] queues_okD(15) [OF q] rs by auto
  ultimately show ?thesis using False by (auto simp: higher_exists_def higher_def)
qed

lemma find_new_task_eq:
  assumes q: "queues_ok s rs ws" and run: "r \<in> set rs \<or> \<not> task_is_running s r"
    and ends: "choice_ends s r rs"
  shows "find_new_task r s = Some (Inr (choice s r rs, s))"
proof -
  let ?start = "OS_RUNQUEUE_NEXT_WRAPPED s r"
  note d = queues_okD [OF q]
  have check: "osi_priority_check (Some t) s = Some (Inr ((), s))" if "choice s r rs = Some t" for t
    using choice_not_lower [OF q that] d(8) by (intro priority_check_silent [OF d(4)]) simp
  show ?thesis
  proof (cases "r \<in> set rs")
    case True
    then obtain low where "find_new_task_loop (prio_of s r) ?start ?start None None s =
        ret (choice s r rs, low) s"
      using find_loop_runnable [OF d(4), of r ?start] by auto
    moreover have "task_is_running s r" using True d(7) by (simp add: task_is_running_def)
    ultimately show ?thesis using check
      by (cases "choice s r rs") (auto simp: find_new_task_def Let_def exec)
  next
    case False
    have "\<exists>us. path s ?start us (runqueue s) \<and> distinct us \<and> set us \<subseteq> set ws \<and>
        (us = [] \<longleftrightarrow> nrp_of s r = None)"
    proof (cases "r \<in> set ws")
      case True
      then obtain as us where ws: "ws = as @ r # us" by (auto simp: in_set_conv_decomp)
      then have "nrp_of s r = first us" using is_list_mid [of Waitqueue s as r us] d(3) by simp
      moreover have "path s (if us = [] then runqueue s else first us) us (runqueue s)"
        using path_wait [of s "as @ [r]" us] d(3) ws by simp
      ultimately show ?thesis using ws d(16)
        by (intro exI [of _ us]) (auto simp: OS_RUNQUEUE_NEXT_WRAPPED_def)
    next
      case out: False
      then have "nrp_of s r = None" using d(12) False by simp
      then show ?thesis by (intro exI [of _ "[]"]) (simp add: OS_RUNQUEUE_NEXT_WRAPPED_def)
    qed
    then obtain us where us: "path s ?start us (first rs)" "distinct us" "set us \<subseteq> set ws"
      "us = [] \<longleftrightarrow> nrp_of s r = None"
      using d(13) by auto
    have nrun: "\<forall>x\<in>set us. \<not> task_is_running s x"
      using us(3) d(9) by (auto simp: task_is_running_def)
    show ?thesis
    proof (cases "rs = []")
      case True
      then have "path s ?start us None" using us(1) by simp
      from find_loop_empty [OF this us(2) nrun, of "prio_of s r"] show ?thesis
        using True by (simp add: find_new_task_def choice_def Let_def exec)
    next
      case False
      have "set us \<inter> set rs = {}" using us(3) d(17) by auto
      moreover have "us = [] \<or> (\<exists>x\<in>set rs. prio_of s x \<noteq> prio_of s r)"
        using ends us(4) False \<open>r \<notin> set rs\<close> by (auto simp: choice_ends_def)
      ultimately obtain new low where loop: "find_new_task_loop (prio_of s r) ?start ?start None None s =
          ret (new, low) s" "new = first rs \<or> new = None \<and> low = first rs"
        using find_loop_blocked [OF d(4) False us(1,2) _ nrun, of "prio_of s r"] by auto
      obtain h t where rs: "rs = h # t" using False by (cases rs) auto
      then have ch: "choice s r rs = Some h" using \<open>r \<notin> set rs\<close> by (simp add: choice_def)
      have "\<not> task_is_running s r" using run \<open>r \<notin> set rs\<close> by simp
      with loop check [OF ch] ch rs show ?thesis
        by (auto simp: find_new_task_def Let_def exec)
    qed
  qed
qed

section \<open>The walk that does not end\<close>

text \<open>
  The walk that does not end: a waiting task is behind \<open>r\<close> in the wait queue and every
  runnable task has the priority of \<open>r\<close>.
\<close>

definition spinning :: "task_ptr set \<Rightarrow> os_priority_t \<Rightarrow> task_ptr option \<Rightarrow> kernel \<Rightarrow> bool" where
  "spinning A ours start s \<longleftrightarrow>
     (\<forall>x\<in>A. task_is_running s x \<and> prio_of s x = ours \<and>
        OS_RUNQUEUE_NEXT_WRAPPED s x \<in> Some ` A \<and> OS_RUNQUEUE_NEXT_WRAPPED s x \<noteq> start)"

lemma find_loop_spins_raw:
  assumes "find_new_task_loop ours start cur new low s = Some y"
  shows "low = None \<longrightarrow> new \<noteq> None \<longrightarrow> cur \<in> Some ` A \<longrightarrow> \<not> spinning A ours start s"
proof (rule find_new_task_loop.raw_induct
    [where P = "\<lambda>ours start cur new low s y. low = None \<longrightarrow> new \<noteq> None \<longrightarrow> cur \<in> Some ` A \<longrightarrow>
       \<not> spinning A ours start s", OF _ assms], intro impI notI)
  fix loop ours start cur new low s y
  assume ih: "\<And>ours start cur new low s y. loop ours start cur new low s = Some y \<Longrightarrow>
      low = None \<longrightarrow> new \<noteq> None \<longrightarrow> cur \<in> Some ` A \<longrightarrow> \<not> spinning A ours start s"
    and body: "(if cur = low then ret (new, low) s
      else case cur of None \<Rightarrow> fail Null_pointer s
      | Some t \<Rightarrow>
          if task_is_running s t \<and> is_higher_priority (prio_of s t) ours then ret (Some t, low) s
          else
            (let run = task_is_running s t;
                 eq = is_equal_priority (prio_of s t) ours;
                 new' = (if run \<and> eq \<and> new = None then Some t else new);
                 low' = (if run \<and> \<not> eq \<and> low = None then Some t else low);
                 cur' = OS_RUNQUEUE_NEXT_WRAPPED s t
             in if cur' = start then ret (new', low') s
                else loop ours start cur' new' low' s)) = Some y"
    and h: "low = None" "new \<noteq> None" "cur \<in> Some ` A" "spinning A ours start s"
  obtain t where t: "cur = Some t" "t \<in> A" using h(3) by auto
  then have n: "OS_RUNQUEUE_NEXT_WRAPPED s t \<in> Some ` A" "OS_RUNQUEUE_NEXT_WRAPPED s t \<noteq> start"
    and e: "task_is_running s t" "prio_of s t = ours"
    using h(4) by (auto simp: spinning_def)
  then have "loop ours start (OS_RUNQUEUE_NEXT_WRAPPED s t) new None s = Some y"
    using body h(1,2) t(1) by (simp add: Let_def is_higher_priority_def is_equal_priority_def)
  from ih [OF this] h n show False by simp
qed

lemma find_new_task_diverges:
  assumes q: "queues_ok s rs ws" and w: "ws = as @ r # u # us" and ne: "rs \<noteq> []"
    and eq: "\<forall>x\<in>set rs. prio_of s x = prio_of s r"
  shows "find_new_task r s = None"
proof -
  note d = queues_okD [OF q]
  let ?us = "u # us"
  have "nrp_of s r = Some u" using is_list_mid [of Waitqueue s as r ?us] d(3) w by simp
  then have st: "OS_RUNQUEUE_NEXT_WRAPPED s r = Some u" by (simp add: OS_RUNQUEUE_NEXT_WRAPPED_def)
  have nrun: "\<forall>x\<in>set ?us. \<not> task_is_running s x"
    using d(9) w by (auto simp: task_is_running_def)
  have run: "\<forall>x\<in>set rs. task_is_running s x" using d(7) by (auto simp: task_is_running_def)
  obtain h t where rs: "rs = h # t" using ne by (cases rs) auto
  have pu: "path s (Some u) ?us (Some h)"
    using path_wait [of s "as @ [r]" ?us] d(3,13) w rs by simp
  have nx: "OS_RUNQUEUE_NEXT_WRAPPED s x \<in> Some ` set rs" if x: "x \<in> set rs" for x
  proof -
    obtain bs cs where "rs = bs @ x # cs" using x by (auto simp: in_set_conv_decomp)
    then show ?thesis
      using next_wrapped_run [of s bs x cs] d(2) by (cases cs; cases bs) (auto simp: first_append)
  qed
  have un: "u \<notin> set rs" using d(17) w by auto
  have "spinning (set rs) (prio_of s r) (Some u) s"
    using nx run eq un by (force simp: spinning_def)
  then have spin: "find_new_task_loop (prio_of s r) (Some u) (Some x) (Some h) None s = None"
    if "x \<in> set rs" for x
    using find_loop_spins_raw [of "prio_of s r" "Some u" "Some x" "Some h" None s _ "set rs"] that
    by (cases "find_new_task_loop (prio_of s r) (Some u) (Some x) (Some h) None s") auto
  have "path s (Some u) (?us @ [h]) (OS_RUNQUEUE_NEXT_WRAPPED s h)"
    using pu by (auto simp: path_append)
  moreover have "distinct (?us @ [h])" using d(16,17) w rs by auto
  ultimately have ns: "\<forall>x\<in>set ?us. OS_RUNQUEUE_NEXT_WRAPPED s x \<noteq> Some u"
    using path_not_start [of s "Some u" ?us h "[]"] by auto
  have "first_new s (prio_of s r) ?us None = None" "first_low s (prio_of s r) ?us None = None"
    using nrun by (auto simp: first_new_def first_low_def find_None_iff)
  then have "find_new_task_loop (prio_of s r) (Some u) (Some u) None None s =
      find_new_task_loop (prio_of s r) (Some u) (Some h) None None s"
    using find_loop_walk [OF pu, of "prio_of s r" "Some u" None None] nrun ns d(16) w by auto
  also have "\<dots> = find_new_task_loop (prio_of s r) (Some u) (OS_RUNQUEUE_NEXT_WRAPPED s h) (Some h) None s"
    using run rs eq nx [of h] un
    by (subst find_new_task_loop.simps)
      (auto simp: Let_def is_higher_priority_def is_equal_priority_def)
  also have "\<dots> = None" using nx [of h] spin rs by auto
  finally show ?thesis by (simp add: find_new_task_def Let_def st exec)
qed

end
