(* ===== verification/Dispatch.thy ===== *)
theory Dispatch
  imports Choice
begin

unbundle bit_operations_syntax

text \<open>
  What \<open>osi_dispatch\<close> does when the queues are in order: the state it leaves is written down
  step by step, each step of the code being shown to produce its part.
\<close>

section \<open>Leaving the blocked list\<close>

text \<open>
  What a task waits for, as its flags and its four pointers say: nothing (it is runnable or
  only delayed), or the object of a blocked list.  A task blocked on a semaphore has the flags of a mutex and of a queue too,
  so it is in none of these states.
\<close>

fun waits_for :: "os_task_t \<Rightarrow> blocked_ref option \<Rightarrow> bool" where
  "waits_for x None \<longleftrightarrow> t_flags x = OS_TASK_FLAG_NONE \<and>
     t_mutex x = None \<and> t_queue x = None \<and> t_semaphore x = None \<and> t_rwlock x = None"
| "waits_for x (Some (Mutex_blocked m)) \<longleftrightarrow> t_flags x = OS_TASK_FLAG_MUTEX \<and>
     t_mutex x = Some m \<and> t_queue x = None \<and> t_semaphore x = None \<and> t_rwlock x = None"
| "waits_for x (Some (Queue_blocked q)) \<longleftrightarrow> t_flags x = OS_TASK_FLAG_QUEUE \<and>
     t_mutex x = None \<and> t_queue x = Some q \<and> t_semaphore x = None \<and> t_rwlock x = None"
| "waits_for x (Some (Rwlock_blocked r)) \<longleftrightarrow> t_flags x = OS_TASK_FLAG_RWLOCK \<and>
     t_mutex x = None \<and> t_queue x = None \<and> t_semaphore x = None \<and> t_rwlock x = Some r"
| "waits_for x (Some (Semaphore_blocked p)) \<longleftrightarrow> False"

fun forget :: "blocked_ref \<Rightarrow> os_task_t \<Rightarrow> os_task_t" where
  "forget (Mutex_blocked m) x = x\<lparr>t_mutex := None, t_flags := 0\<rparr>"
| "forget (Queue_blocked q) x = x\<lparr>t_queue := None, t_flags := 0\<rparr>"
| "forget (Semaphore_blocked p) x = x\<lparr>t_semaphore := None, t_flags := 0\<rparr>"
| "forget (Rwlock_blocked r) x = x\<lparr>t_c := 0, t_rwlock := None, t_flags := 0\<rparr>"

definition left :: "blocked_ref option \<Rightarrow> task_ptr \<Rightarrow> task_ptr list \<Rightarrow> kernel \<Rightarrow> kernel" where
  "left w t xs s =
     (case w of
        None \<Rightarrow> s
      | Some b \<Rightarrow>
          (let s1 = leave_list b t xs s in s1\<lparr>task := (task s1)(t := forget b (task s1 t))\<rparr>))"

text \<open>The list \<open>xs\<close> is what \<open>t\<close> would be taken out of.\<close>

definition waits_in :: "kernel \<Rightarrow> task_ptr \<Rightarrow> blocked_ref option \<Rightarrow> task_ptr list \<Rightarrow> bool" where
  "waits_in s t w xs \<longleftrightarrow> waits_for (task s t) w \<and>
     (case w of None \<Rightarrow> xs = [] | Some b \<Rightarrow> is_blocked b s xs)"

lemma waits_for_unique: "waits_for x w \<Longrightarrow> waits_for x w' \<Longrightarrow> w = w'"
  by (cases "(x, w)" rule: waits_for.cases; cases "(x, w')" rule: waits_for.cases) auto

lemma waits_for_cong:
  assumes "t_flags x = t_flags y" "t_mutex x = t_mutex y" "t_queue x = t_queue y"
    "t_semaphore x = t_semaphore y" "t_rwlock x = t_rwlock y"
  shows "waits_for x w = waits_for y w"
  using assms by (cases "(x, w)" rule: waits_for.cases) auto

lemma waits_for_forget: "waits_for x (Some b) \<Longrightarrow> waits_for (forget b x) None"
  by (cases b) auto

lemma leave_skip [exec]:
  "t_flags (task s t) AND 1 \<noteq> 1 \<Longrightarrow> dispatch_leave_mutex t s = Some (Inr ((), s))"
  "t_flags (task s t) AND 2 \<noteq> 2 \<Longrightarrow> dispatch_leave_queue t s = Some (Inr ((), s))"
  "t_flags (task s t) AND 3 \<noteq> 3 \<Longrightarrow> dispatch_leave_semaphore t s = Some (Inr ((), s))"
  "t_flags (task s t) AND 4 \<noteq> 4 \<Longrightarrow> dispatch_leave_rwlock t s = Some (Inr ((), s))"
  by (simp_all add: dispatch_leave_mutex_def dispatch_leave_queue_def dispatch_leave_semaphore_def
      dispatch_leave_rwlock_def guarded_def ret_def)

lemma leave_list_head:
  assumes "is_blocked b s (t # xs)"
  shows "leave_list b t (t # xs) s =
    (put_blocked b (first xs) s)\<lparr>task := (task s)(t := set_nblocked None (task s t))\<rparr>"
  using block_list_remove [of b s "[]" t xs] assms
  by (simp add: leave_list_def unblock_def put_blocked_task)

lemma dispatch_leave_mutex_eq:
  assumes w: "waits_for (task s t) (Some (Mutex_blocked m))" and b: "is_blocked (Mutex_blocked m) s xs"
  shows "dispatch_leave_mutex t s = Some (Inr ((), left (Some (Mutex_blocked m)) t xs s))"
proof (cases "get_blocked (Mutex_blocked m) s = Some t")
  case True
  then obtain ys where xs: "xs = t # ys" using is_blocked_first [OF b] by (cases xs) auto
  then have n: "nblocked_of s t = first ys" using is_blocked_mid [of _ s "[]" t ys] b by simp
  let ?s = "leave_list (Mutex_blocked m) t xs s"
  have st: "(put_blocked (Mutex_blocked m) (first ys) s)\<lparr>task := (task s)(t := set_nblocked None (task s t))\<rparr> = ?s"
    using leave_list_head [of "Mutex_blocked m" s t ys] b xs by simp
  have "is_blocked (Mutex_blocked m) ?s ys" "t \<notin> set ys"
    using is_blocked_leave [OF b, of t] is_blocked_distinct [OF b] xs by auto
  then have rm: "blocked_remove (Mutex_blocked m) t ?s = Some (Inr (False, ?s))"
    by (simp add: blocked_remove_eq leave_list_def)
  show ?thesis
    using w True rm unfolding st [symmetric]
    by (simp add: dispatch_leave_mutex_def exec n left_def Let_def st [symmetric])
next
  case False
  then show ?thesis using w blocked_remove_eq [OF b, of t]
    by (simp add: dispatch_leave_mutex_def exec left_def Let_def)
qed

lemma dispatch_leave_queue_eq:
  assumes "waits_for (task s t) (Some (Queue_blocked q))" and b: "is_blocked (Queue_blocked q) s xs"
  shows "dispatch_leave_queue t s = Some (Inr ((), left (Some (Queue_blocked q)) t xs s))"
  using assms(1) blocked_remove_eq [OF b, of t]
  by (simp add: dispatch_leave_queue_def exec left_def Let_def)

lemma dispatch_leave_rwlock_eq:
  assumes "waits_for (task s t) (Some (Rwlock_blocked r))" and b: "is_blocked (Rwlock_blocked r) s xs"
  shows "dispatch_leave_rwlock t s = Some (Inr ((), left (Some (Rwlock_blocked r)) t xs s))"
  using assms(1) blocked_remove_eq [OF b, of t]
  by (simp add: dispatch_leave_rwlock_def exec left_def Let_def)

lemma left_flags: "waits_in s t w xs \<Longrightarrow> t_flags (task (left w t xs s) t) = 0"
  by (auto simp: waits_in_def left_def Let_def split: option.splits elim!: forget.elims)
    (rename_tac b; case_tac b; simp)

lemma dispatch_leave_eq:
  assumes "waits_in s t w xs"
  shows "dispatch_leave t s = Some (Inr ((), left w t xs s))"
proof (cases w)
  case None
  then show ?thesis using assms by (simp add: dispatch_leave_def waits_in_def left_def exec)
next
  case (Some b)
  note fl = left_flags [OF assms]
  show ?thesis
  proof (cases b)
    case (Queue_blocked q)
    then show ?thesis using assms Some fl dispatch_leave_queue_eq [of s t q xs]
      by (simp add: dispatch_leave_def waits_in_def exec)
  next
    case (Mutex_blocked m)
    then show ?thesis using assms Some fl dispatch_leave_mutex_eq [of s t m xs]
      by (simp add: dispatch_leave_def waits_in_def exec)
  next
    case (Semaphore_blocked p)
    then show ?thesis using assms Some by (simp add: waits_in_def)
  next
    case (Rwlock_blocked r)
    then show ?thesis using assms Some fl dispatch_leave_rwlock_eq [of s t r xs]
      by (simp add: dispatch_leave_def waits_in_def exec)
  qed
qed

text \<open>Nothing but the list, the links of the blocked tasks and the task's pointers changes.\<close>

lemma put_blocked_fields [simp]:
  "running (put_blocked b p s) = running s"
  "scheduled (put_blocked b p s) = scheduled s"
  "os_state (put_blocked b p s) = os_state s"
  "ntasks (put_blocked b p s) = ntasks s"
  "idle (put_blocked b p s) = idle s"
  "tasks (put_blocked b p s) = tasks s"
  "runqueue (put_blocked b p s) = runqueue s"
  "waitqueue (put_blocked b p s) = waitqueue s"
  "status_hook (put_blocked b p s) = status_hook s"
  "logging_hook (put_blocked b p s) = logging_hook s"
  "mem (put_blocked b p s) = mem s"
  "uptime (put_blocked b p s) = uptime s"
  "micros (put_blocked b p s) = micros s"
  "ipsr (put_blocked b p s) = ipsr s"
  "control (put_blocked b p s) = control s"
  "pendsv (put_blocked b p s) = pendsv s"
  "target (put_blocked b p s) = target s"
  "task_finished_addr (put_blocked b p s) = task_finished_addr s"
  "trace (put_blocked b p s) = trace s"
  by (cases b; simp)+

lemma leave_list_fields [simp]:
  "running (leave_list b t xs s) = running s"
  "scheduled (leave_list b t xs s) = scheduled s"
  "os_state (leave_list b t xs s) = os_state s"
  "ntasks (leave_list b t xs s) = ntasks s"
  "idle (leave_list b t xs s) = idle s"
  "tasks (leave_list b t xs s) = tasks s"
  "runqueue (leave_list b t xs s) = runqueue s"
  "waitqueue (leave_list b t xs s) = waitqueue s"
  "status_hook (leave_list b t xs s) = status_hook s"
  "logging_hook (leave_list b t xs s) = logging_hook s"
  "mem (leave_list b t xs s) = mem s"
  "uptime (leave_list b t xs s) = uptime s"
  "micros (leave_list b t xs s) = micros s"
  "ipsr (leave_list b t xs s) = ipsr s"
  "control (leave_list b t xs s) = control s"
  "pendsv (leave_list b t xs s) = pendsv s"
  "target (leave_list b t xs s) = target s"
  "task_finished_addr (leave_list b t xs s) = task_finished_addr s"
  "trace (leave_list b t xs s) = trace s"
  "t_sp (task (leave_list b t xs s) x) = t_sp (task s x)"
  "t_stack (task (leave_list b t xs s) x) = t_stack (task s x)"
  "t_stack_size (task (leave_list b t xs s) x) = t_stack_size (task s x)"
  "t_stack_kind (task (leave_list b t xs s) x) = t_stack_kind (task s x)"
  "t_status (task (leave_list b t xs s) x) = t_status (task s x)"
  "t_name (task (leave_list b t xs s) x) = t_name (task s x)"
  "t_handler (task (leave_list b t xs s) x) = t_handler (task s x)"
  "t_params (task (leave_list b t xs s) x) = t_params (task s x)"
  "t_np (task (leave_list b t xs s) x) = t_np (task s x)"
  "t_nrp (task (leave_list b t xs s) x) = t_nrp (task s x)"
  "t_priority (task (leave_list b t xs s) x) = t_priority (task s x)"
  "t_started (task (leave_list b t xs s) x) = t_started (task s x)"
  "t_slice (task (leave_list b t xs s) x) = t_slice (task s x)"
  "t_runtime (task (leave_list b t xs s) x) = t_runtime (task s x)"
  "t_scheduled (task (leave_list b t xs s) x) = t_scheduled (task s x)"
  "t_delay (task (leave_list b t xs s) x) = t_delay (task s x)"
  "t_signal (task (leave_list b t xs s) x) = t_signal (task s x)"
  "t_highwater (task (leave_list b t xs s) x) = t_highwater (task s x)"
  "t_user_data (task (leave_list b t xs s) x) = t_user_data (task s x)"
  "t_queue (task (leave_list b t xs s) x) = t_queue (task s x)"
  "t_mutex (task (leave_list b t xs s) x) = t_mutex (task s x)"
  "t_semaphore (task (leave_list b t xs s) x) = t_semaphore (task s x)"
  "t_rwlock (task (leave_list b t xs s) x) = t_rwlock (task s x)"
  "t_c (task (leave_list b t xs s) x) = t_c (task s x)"
  "t_flags (task (leave_list b t xs s) x) = t_flags (task s x)"
  by (simp_all add: leave_list_def unblock_def block_list_def put_blocked_task relink_def)

lemma forget_fields [simp]:
  "t_sp (forget b y) = t_sp y"
  "t_stack (forget b y) = t_stack y"
  "t_stack_size (forget b y) = t_stack_size y"
  "t_stack_kind (forget b y) = t_stack_kind y"
  "t_status (forget b y) = t_status y"
  "t_name (forget b y) = t_name y"
  "t_handler (forget b y) = t_handler y"
  "t_params (forget b y) = t_params y"
  "t_np (forget b y) = t_np y"
  "t_nrp (forget b y) = t_nrp y"
  "t_priority (forget b y) = t_priority y"
  "t_started (forget b y) = t_started y"
  "t_slice (forget b y) = t_slice y"
  "t_runtime (forget b y) = t_runtime y"
  "t_scheduled (forget b y) = t_scheduled y"
  "t_delay (forget b y) = t_delay y"
  "t_signal (forget b y) = t_signal y"
  "t_highwater (forget b y) = t_highwater y"
  "t_user_data (forget b y) = t_user_data y"
  "t_nblocked (forget b y) = t_nblocked y"
  by (cases b; simp)+

lemma left_fields [simp]:
  "running (left w t xs s) = running s"
  "scheduled (left w t xs s) = scheduled s"
  "os_state (left w t xs s) = os_state s"
  "ntasks (left w t xs s) = ntasks s"
  "idle (left w t xs s) = idle s"
  "tasks (left w t xs s) = tasks s"
  "runqueue (left w t xs s) = runqueue s"
  "waitqueue (left w t xs s) = waitqueue s"
  "status_hook (left w t xs s) = status_hook s"
  "logging_hook (left w t xs s) = logging_hook s"
  "mem (left w t xs s) = mem s"
  "uptime (left w t xs s) = uptime s"
  "micros (left w t xs s) = micros s"
  "ipsr (left w t xs s) = ipsr s"
  "control (left w t xs s) = control s"
  "pendsv (left w t xs s) = pendsv s"
  "target (left w t xs s) = target s"
  "task_finished_addr (left w t xs s) = task_finished_addr s"
  "trace (left w t xs s) = trace s"
  "t_sp (task (left w t xs s) x) = t_sp (task s x)"
  "t_stack (task (left w t xs s) x) = t_stack (task s x)"
  "t_stack_size (task (left w t xs s) x) = t_stack_size (task s x)"
  "t_stack_kind (task (left w t xs s) x) = t_stack_kind (task s x)"
  "t_status (task (left w t xs s) x) = t_status (task s x)"
  "t_name (task (left w t xs s) x) = t_name (task s x)"
  "t_handler (task (left w t xs s) x) = t_handler (task s x)"
  "t_params (task (left w t xs s) x) = t_params (task s x)"
  "t_np (task (left w t xs s) x) = t_np (task s x)"
  "t_nrp (task (left w t xs s) x) = t_nrp (task s x)"
  "t_priority (task (left w t xs s) x) = t_priority (task s x)"
  "t_started (task (left w t xs s) x) = t_started (task s x)"
  "t_slice (task (left w t xs s) x) = t_slice (task s x)"
  "t_runtime (task (left w t xs s) x) = t_runtime (task s x)"
  "t_scheduled (task (left w t xs s) x) = t_scheduled (task s x)"
  "t_delay (task (left w t xs s) x) = t_delay (task s x)"
  "t_signal (task (left w t xs s) x) = t_signal (task s x)"
  "t_highwater (task (left w t xs s) x) = t_highwater (task s x)"
  "t_user_data (task (left w t xs s) x) = t_user_data (task s x)"
  by (cases w; simp add: left_def Let_def)+

lemma left_queues [simp]:
  "queues_ok (left w t xs s) rs ws = queues_ok s rs ws"
  "higher (left w t xs s) = higher s"
proof -
  have l: "links_ok (left w t xs s) rs ws = links_ok s rs ws" for rs ws
    by (rule links_ok_cong) simp_all
  have e: "earlier (left w t xs s) = earlier s" by (rule earlier_cong) simp
  show h: "higher (left w t xs s) = higher s" by (rule higher_cong) simp
  have "is_list hd (left w t xs s) ys = is_list hd s ys" for hd ys
    by (cases hd) (simp_all add: is_list_def)
  then show "queues_ok (left w t xs s) rs ws = queues_ok s rs ws"
    by (simp add: queues_ok_def rq_ok_def wq_ok_def l h e)
qed

section \<open>The switch\<close>

definition demoted :: "task_ptr \<Rightarrow> kernel \<Rightarrow> kernel" where
  "demoted r s =
     (case status_of s r of
        OS_TASK_STATUS_ACTIVE \<Rightarrow> set_status OS_TASK_STATUS_IDLE r s
      | OS_TASK_STATUS_PANIC \<Rightarrow> s\<lparr>trace := trace s @ [Task_panicked r]\<rparr>
      | _ \<Rightarrow> s)"

definition active :: "task_ptr \<Rightarrow> kernel \<Rightarrow> kernel" where
  "active t s =
     s\<lparr>task := (task s)(t := (task s t)
         \<lparr>t_delay := 0, t_flags := 0, t_status := OS_TASK_STATUS_ACTIVE\<rparr>)\<rparr>"

definition accounted :: "task_ptr \<Rightarrow> task_ptr \<Rightarrow> kernel \<Rightarrow> kernel" where
  "accounted r t s =
     (let h = (if t_scheduled (task s r) > 0
               then (task s)(r := (task s r)
                 \<lparr>t_runtime := t_runtime (task s r) + (micros s - t_scheduled (task s r)),
                  t_scheduled := 0\<rparr>)
               else task s)
      in s\<lparr>task := h(t := (h t)\<lparr>t_scheduled := micros s\<rparr>)\<rparr>)"

text \<open>The run queue after the switch: a waiting task has been put into it.\<close>

definition run_with :: "kernel \<Rightarrow> task_ptr \<Rightarrow> task_ptr list \<Rightarrow> task_ptr list \<Rightarrow> task_ptr list" where
  "run_with s t rs ws = (if t \<in> set ws then insert_before (higher s) t rs else rs)"

definition dispatched :: "task_ptr \<Rightarrow> task_ptr \<Rightarrow> task_ptr list \<Rightarrow> task_ptr list \<Rightarrow> kernel \<Rightarrow> kernel" where
  "dispatched r t rs ws s =
     (let s1 = accounted r t (queued (run_with s t rs ws) (remove1 t ws) (active t (demoted r s)))
      in s1\<lparr>scheduled := Some t, pendsv := pendsv s1 \<or> is_device (target s1)\<rparr>)"

lemma running_not_queued:
  "queues_ok s rs ws \<Longrightarrow> \<not> os_task_status_is_running (status_of s r) \<Longrightarrow> r \<notin> set rs"
  using queues_okD(7) by blast

lemma dispatch_demote_eq:
  assumes q: "queues_ok s rs ws"
  shows "dispatch_demote r s = Some (Inr ((), demoted r s))"
proof -
  have id: "runqueue_remove Runqueue r s' = Some (Inr ((), s'))"
    if "\<not> os_task_status_is_running (status_of s r)" "links_ok s' rs ws" for s'
    using running_not_queued [OF q that(1)] runqueue_remove_queued [OF that(2)] queued_id [OF that(2)]
    by (simp add: remove1_idem)
  have l: "links_ok s rs ws" using queues_okD(1) [OF q] .
  moreover have "links_ok (s\<lparr>trace := tr\<rparr>) rs ws" for tr
    using l links_ok_cong [of "s\<lparr>trace := tr\<rparr>" s rs ws] by simp
  ultimately show ?thesis
    using id by (cases "status_of s r") (simp_all add: dispatch_demote_def demoted_def set_status_def exec)
qed

lemma demoted_fields [simp]:
  "prio_of (demoted r s) x = prio_of s x"
  "t_delay (task (demoted r s) x) = t_delay (task s x)"
  "nrp_of (demoted r s) x = nrp_of s x"
  "runqueue (demoted r s) = runqueue s" "waitqueue (demoted r s) = waitqueue s"
  "x \<noteq> r \<Longrightarrow> task (demoted r s) x = task s x"
  "os_task_status_is_running (status_of (demoted r s) x) = os_task_status_is_running (status_of s x)"
  "micros (demoted r s) = micros s" "idle (demoted r s) = idle s" "target (demoted r s) = target s"
  by (cases "status_of s r"; auto simp: demoted_def set_status_def)+

lemma demoted_wait: "status_of (demoted r s) x = OS_TASK_STATUS_WAIT \<longleftrightarrow> status_of s x = OS_TASK_STATUS_WAIT"
  by (cases "status_of s r") (auto simp: demoted_def)

text \<open>The invariant looks at the queue fields of the tasks only.\<close>

lemma queues_ok_cong:
  assumes "runqueue s' = runqueue s" "waitqueue s' = waitqueue s"
    and "\<And>t. nrp_of s' t = nrp_of s t" "\<And>t. prio_of s' t = prio_of s t"
    and "\<And>t. t_delay (task s' t) = t_delay (task s t)"
    and "\<And>t. os_task_status_is_running (status_of s' t) = os_task_status_is_running (status_of s t)"
    and "\<And>t. status_of s' t = OS_TASK_STATUS_WAIT \<longleftrightarrow> status_of s t = OS_TASK_STATUS_WAIT"
  shows "queues_ok s' rs ws = queues_ok s rs ws"
proof -
  have "is_list h s' xs = is_list h s xs" for h xs
    using assms(1-3) by (cases h) (simp_all add: is_list_def)
  moreover have "links_ok s' rs ws = links_ok s rs ws" using assms(1-3) by (rule links_ok_cong)
  moreover have "higher s' = higher s" using assms(4) by (rule higher_cong)
  moreover have "earlier s' = earlier s" using assms(5) by (rule earlier_cong)
  ultimately show ?thesis using assms(4-7) by (simp add: queues_ok_def rq_ok_def wq_ok_def)
qed

lemma queues_ok_demoted: "queues_ok (demoted r s) rs ws = queues_ok s rs ws"
  by (rule queues_ok_cong) (simp_all add: demoted_wait)

lemma active_fields [simp]:
  "prio_of (active t s) x = prio_of s x"
  "nrp_of (active t s) x = nrp_of s x"
  "runqueue (active t s) = runqueue s" "waitqueue (active t s) = waitqueue s"
  "x \<noteq> t \<Longrightarrow> task (active t s) x = task s x"
  "status_of (active t s) t = OS_TASK_STATUS_ACTIVE"
  "micros (active t s) = micros s" "idle (active t s) = idle s" "target (active t s) = target s"
  by (auto simp: active_def)

lemma active_higher [simp]: "higher (active t s) = higher s" "higher (demoted r s) = higher s"
  by (rule higher_cong, simp)+

lemma links_ok_active: "links_ok (active t s) rs ws = links_ok s rs ws"
  by (rule links_ok_cong) simp_all

text \<open>The dispatched task is runnable or waiting, in the queue that goes with its status.\<close>

lemma dispatch_activate_eq:
  assumes q: "queues_ok s rs ws" and t: "t \<in> set rs \<or> t \<in> set ws" and p: "prio_of s t \<le> 0xff"
  shows "dispatch_activate t s =
    Some (Inr ((), queued (run_with s t rs ws) (remove1 t ws) (active t s)))"
proof -
  note d = queues_okD [OF q]
  have l: "links_ok (active t s) rs ws" using d(1) by (simp add: links_ok_active)
  have upd: "upd_task t (\<lambda>x. x\<lparr>t_delay := 0, t_flags := 0, t_status := OS_TASK_STATUS_ACTIVE\<rparr>) s =
      Some (Inr ((), active t s))"
    by (simp add: exec active_def)
  show ?thesis
  proof (cases "t \<in> set ws")
    case True
    let ?s = "queued rs (remove1 t ws) (active t s)"
    have nr: "t \<notin> set rs" using d(11) True .
    have "is_list Runqueue (active t s) rs" using l by (simp add: links_ok_def)
    then have "rq_ok (active t s) rs" using d(5,7,8) nr
      by (auto simp: rq_ok_def) (metis active_fields(5))
    moreover have "set rs \<inter> set (remove1 t ws) = {}" using d(17) set_remove1_subset [of t ws] by auto
    ultimately have "rq_ok ?s rs" using d(16) by (intro rq_ok_queued) auto
    moreover have "links_ok ?s rs (remove1 t ws)" using links_ok_drop_wait [OF l] .
    ultimately have "runqueue_add Runqueue t ?s =
        Some (Inr ((), queued (insert_before (higher s) t rs) (remove1 t ws) (active t s)))"
      using runqueue_add_queued_eq [of ?s rs "remove1 t ws" t] nr p d(16) by simp
    with True upd waitqueue_remove_queued [OF l, of t] d(9) [OF True] show ?thesis
      by (simp add: dispatch_activate_def Let_def exec run_with_def)
  next
    case False
    then have "status_of s t \<noteq> OS_TASK_STATUS_WAIT"
      using t d(7) [of t] by (auto simp: os_task_status_is_running_def)
    with False upd queued_id [OF l] show ?thesis
      by (simp add: dispatch_activate_def Let_def exec run_with_def remove1_idem)
  qed
qed

lemma dispatch_account_eq: "dispatch_account r t s = Some (Inr ((), accounted r t s))"
  by (simp add: dispatch_account_def accounted_def Let_def exec)

lemma accounted_fields [simp]:
  "status_of (accounted r t s) x = status_of s x"
  "prio_of (accounted r t s) x = prio_of s x"
  "nrp_of (accounted r t s) x = nrp_of s x"
  "t_delay (task (accounted r t s) x) = t_delay (task s x)"
  "t_flags (task (accounted r t s) x) = t_flags (task s x)"
  "runqueue (accounted r t s) = runqueue s" "waitqueue (accounted r t s) = waitqueue s"
  "idle (accounted r t s) = idle s" "target (accounted r t s) = target s"
  "micros (accounted r t s) = micros s" "running (accounted r t s) = running s"
  "mem (accounted r t s) = mem s" "trace (accounted r t s) = trace s"
  "pendsv (accounted r t s) = pendsv s"
  by (simp_all add: accounted_def Let_def)

lemma queues_ok_accounted: "queues_ok (accounted r t s) rs ws = queues_ok s rs ws"
  by (rule queues_ok_cong) simp_all

text \<open>The invariant after the switch.\<close>

lemma queues_ok_switch:
  assumes q: "queues_ok s rs ws" and t: "t \<in> set rs \<or> t \<in> set ws" and p: "prio_of s t \<le> 0xff"
  shows "queues_ok (queued (run_with s t rs ws) (remove1 t ws) (active t s))
    (run_with s t rs ws) (remove1 t ws)"
proof -
  note d = queues_okD [OF q]
  have sub: "set (remove1 t ws) = set ws - {t}" using d(16) by simp
  have "t \<in> set ws \<Longrightarrow> t \<notin> set rs" using d(11) .
  have e: "sorted_wrt (\<lambda>x y. \<not> earlier (active t s) y x) (remove1 t ws)"
  proof (rule sorted_wrt_mono_rel [OF _ wake.sorted_remove1 [OF d(6)]])
    fix x y assume "x \<in> set (remove1 t ws)" "y \<in> set (remove1 t ws)" "\<not> earlier s y x"
    then show "\<not> earlier (active t s) y x" by (auto simp: sub earlier_def)
  qed
  show ?thesis
  proof (rule queued_ok)
    show "distinct (run_with s t rs ws)" "distinct (remove1 t ws)"
      using d(11,15,16) by (auto simp: run_with_def)
    show "set (run_with s t rs ws) \<inter> set (remove1 t ws) = {}"
      using d(17) by (auto simp: run_with_def sub)
    show "sorted_wrt (\<lambda>x y. \<not> higher (active t s) y x) (run_with s t rs ws)"
      using d(5) by (simp add: run_with_def prio.sorted_insert_before)
  next
    fix x assume x: "x \<in> set (run_with s t rs ws)"
    show "os_task_status_is_running (status_of (active t s) x) \<and> prio_of (active t s) x \<le> 0xff"
      using x d(7,8) p by (cases "x = t") (auto simp: run_with_def split: if_splits)
  next
    fix x assume "x \<in> set (remove1 t ws)"
    then show "status_of (active t s) x = OS_TASK_STATUS_WAIT" using d(9) by (auto simp: sub)
  qed (use e in simp)
qed

lemma run_with_demoted [simp]: "run_with (demoted r s) t rs ws = run_with s t rs ws"
  by (simp add: run_with_def)

lemma osi_dispatch_eq:
  assumes q: "queues_ok s rs ws" and r: "running s = Some r" "r \<noteq> t"
    and t: "t \<in> set rs \<or> t \<in> set ws" and p: "prio_of s t \<le> 0xff"
    and w: "waits_in s t w xs"
    and top: "\<forall>x\<in>set rs. \<not> higher s x t"
    and idle: "idle s = Some t \<Longrightarrow> length (run_with s t rs ws) = 1"
  shows "osi_dispatch (Some t) s = Some (Inr (OSS_SUCCESS, dispatched r t rs ws (left w t xs s)))"
    and "queues_ok (dispatched r t rs ws (left w t xs s)) (run_with s t rs ws) (remove1 t ws)"
proof -
  let ?s1 = "left w t xs s"
  let ?s2 = "demoted r ?s1"
  let ?rs = "run_with s t rs ws"
  let ?s3 = "queued ?rs (remove1 t ws) (active t ?s2)"
  let ?s4 = "accounted r t ?s3"
  have rw: "run_with ?s1 t rs ws = ?rs" by (simp add: run_with_def)
  have q1: "queues_ok ?s1 rs ws" using q by simp
  then have q2: "queues_ok ?s2 rs ws" by (simp add: queues_ok_demoted)
  have p2: "prio_of ?s2 t \<le> 0xff" using p by simp
  have act: "dispatch_activate t ?s2 = Some (Inr ((), ?s3))"
    using dispatch_activate_eq [OF q2 t p2] rw by simp
  have q3: "queues_ok ?s3 ?rs (remove1 t ws)"
    using queues_ok_switch [OF q2 t p2] rw by simp
  then have q4: "queues_ok ?s4 ?rs (remove1 t ws)" by (simp add: queues_ok_accounted)
  have run4: "runqueue ?s4 = first ?rs" using queues_okD(13) [OF q4] .
  have len: "runqueue_length (runqueue ?s4) ?s4 = Some (Inr (of_nat (length ?rs), ?s4))"
    using runqueue_length_eq [of Runqueue ?s4 ?rs] queues_okD(2) [OF q4] by simp
  have i4: "idle ?s4 = idle s" by simp
  have lc: "osg_idle = Some t \<Longrightarrow> osg_idle = idle s \<Longrightarrow> (of_nat (length ?rs) :: u32) = 1" for osg_idle
    using idle by simp
  let ?s5 = "?s4\<lparr>scheduled := Some t\<rparr>"
  have hi: "higher ?s5 = higher s" by (rule higher_cong) simp
  have "set ?rs \<subseteq> insert t (set rs)" by (auto simp: run_with_def)
  then have top5: "\<forall>x\<in>set ?rs. \<not> higher ?s5 x t"
    using top prio.before_irrefl [of s t] unfolding hi by auto
  have "queues_ok ?s5 ?rs (remove1 t ws) = queues_ok ?s4 ?rs (remove1 t ws)"
    by (rule queues_ok_cong) simp_all
  then have q5: "queues_ok ?s5 ?rs (remove1 t ws)" using q4 by simp
  have check: "osi_priority_check (Some t) ?s5 = Some (Inr ((), ?s5))"
    using top5 p by (intro priority_check_silent [OF queues_okD(4) [OF q5]]) simp
  have fin: "dispatched r t rs ws ?s1 = ?s5\<lparr>pendsv := pendsv ?s4 \<or> is_device (target ?s4)\<rparr>"
    by (simp add: dispatched_def Let_def rw)
  have pend: "?s5\<lparr>pendsv := pendsv ?s5\<rparr> = ?s5" by simp
  note lv = dispatch_leave_eq [OF w] and dm = dispatch_demote_eq [OF q1, of r]
  note ac = dispatch_account_eq [of r t ?s3]
  note len' = len [unfolded run4]
  have tail: "seq [dispatch_leave t, dispatch_demote r, dispatch_activate t, dispatch_account r t,
      (\<lambda>s. guarded (idle s = Some t)
         (bind (runqueue_length (runqueue s))
            (\<lambda>n. os_assert ''runqueue_length(osg.runqueue) == 1'' (n = 1))) s),
      modify (\<lambda>s. s\<lparr>scheduled := Some t\<rparr>), osi_priority_check (Some t),
      (\<lambda>s. guarded (scheduled s \<noteq> None) set_pendsv s)] (ret OSS_SUCCESS) s =
    Some (Inr (OSS_SUCCESS, dispatched r t rs ws ?s1))"
  proof -
    have g: "guarded (idle ?s4 = Some t)
         (bind (runqueue_length (runqueue ?s4))
            (\<lambda>n. os_assert ''runqueue_length(osg.runqueue) == 1'' (n = 1))) ?s4 = Some (Inr ((), ?s4))"
      using len lc [OF _ i4] by (simp only: guarded_apply bind_apply) (simp add: os_assert_apply)
    have pv: "guarded (scheduled ?s5 \<noteq> None) set_pendsv ?s5 =
        Some (Inr ((), ?s5\<lparr>pendsv := pendsv ?s4 \<or> is_device (target ?s4)\<rparr>))"
      by (simp add: set_pendsv_def exec)
    show ?thesis unfolding fin
      by (simp only: seq_apply block_apply bind_apply lv dm act ac g check pv modify_apply ret_apply
          option.case sum.case prod.case)
  qed
  have "osi_dispatch (Some t) s =
    seq [dispatch_leave t, dispatch_demote r, dispatch_activate t, dispatch_account r t,
      (\<lambda>s. guarded (idle s = Some t)
         (bind (runqueue_length (runqueue s))
            (\<lambda>n. os_assert ''runqueue_length(osg.runqueue) == 1'' (n = 1))) s),
      modify (\<lambda>s. s\<lparr>scheduled := Some t\<rparr>), osi_priority_check (Some t),
      (\<lambda>s. guarded (scheduled s \<noteq> None) set_pendsv s)] (ret OSS_SUCCESS) s"
    unfolding osi_dispatch_def using r by (simp add: exec)
  with tail show "osi_dispatch (Some t) s = Some (Inr (OSS_SUCCESS, dispatched r t rs ws ?s1))" by simp
  have "queues_ok (?s5\<lparr>pendsv := pendsv ?s4 \<or> is_device (target ?s4)\<rparr>) ?rs (remove1 t ws) =
      queues_ok ?s5 ?rs (remove1 t ws)"
    by (rule queues_ok_cong) simp_all
  with q5 fin show "queues_ok (dispatched r t rs ws ?s1) ?rs (remove1 t ws)" by simp
qed

section \<open>What the switch leaves alone\<close>

lemma demoted_rest [simp]:
  "running (demoted r s) = running s"
  "os_state (demoted r s) = os_state s"
  "ntasks (demoted r s) = ntasks s"
  "idle (demoted r s) = idle s"
  "tasks (demoted r s) = tasks s"
  "status_hook (demoted r s) = status_hook s"
  "logging_hook (demoted r s) = logging_hook s"
  "queue_at (demoted r s) = queue_at s"
  "mutex_at (demoted r s) = mutex_at s"
  "semaphore_at (demoted r s) = semaphore_at s"
  "rwlock_at (demoted r s) = rwlock_at s"
  "mem (demoted r s) = mem s"
  "uptime (demoted r s) = uptime s"
  "micros (demoted r s) = micros s"
  "ipsr (demoted r s) = ipsr s"
  "control (demoted r s) = control s"
  "target (demoted r s) = target s"
  "task_finished_addr (demoted r s) = task_finished_addr s"
  "t_sp (task (demoted r s) x) = t_sp (task s x)"
  "t_stack (task (demoted r s) x) = t_stack (task s x)"
  "t_stack_size (task (demoted r s) x) = t_stack_size (task s x)"
  "t_stack_kind (task (demoted r s) x) = t_stack_kind (task s x)"
  "t_name (task (demoted r s) x) = t_name (task s x)"
  "t_handler (task (demoted r s) x) = t_handler (task s x)"
  "t_params (task (demoted r s) x) = t_params (task s x)"
  "t_np (task (demoted r s) x) = t_np (task s x)"
  "t_nblocked (task (demoted r s) x) = t_nblocked (task s x)"
  "t_queue (task (demoted r s) x) = t_queue (task s x)"
  "t_mutex (task (demoted r s) x) = t_mutex (task s x)"
  "t_semaphore (task (demoted r s) x) = t_semaphore (task s x)"
  "t_rwlock (task (demoted r s) x) = t_rwlock (task s x)"
  "t_priority (task (demoted r s) x) = t_priority (task s x)"
  "t_c (task (demoted r s) x) = t_c (task s x)"
  "t_started (task (demoted r s) x) = t_started (task s x)"
  "t_slice (task (demoted r s) x) = t_slice (task s x)"
  "t_signal (task (demoted r s) x) = t_signal (task s x)"
  "t_highwater (task (demoted r s) x) = t_highwater (task s x)"
  "t_user_data (task (demoted r s) x) = t_user_data (task s x)"
  by (simp_all add: demoted_def set_status_def split: os_task_status.split)

lemma active_rest [simp]:
  "running (active t s) = running s"
  "os_state (active t s) = os_state s"
  "ntasks (active t s) = ntasks s"
  "idle (active t s) = idle s"
  "tasks (active t s) = tasks s"
  "status_hook (active t s) = status_hook s"
  "logging_hook (active t s) = logging_hook s"
  "queue_at (active t s) = queue_at s"
  "mutex_at (active t s) = mutex_at s"
  "semaphore_at (active t s) = semaphore_at s"
  "rwlock_at (active t s) = rwlock_at s"
  "mem (active t s) = mem s"
  "uptime (active t s) = uptime s"
  "micros (active t s) = micros s"
  "ipsr (active t s) = ipsr s"
  "control (active t s) = control s"
  "target (active t s) = target s"
  "task_finished_addr (active t s) = task_finished_addr s"
  "t_sp (task (active t s) x) = t_sp (task s x)"
  "t_stack (task (active t s) x) = t_stack (task s x)"
  "t_stack_size (task (active t s) x) = t_stack_size (task s x)"
  "t_stack_kind (task (active t s) x) = t_stack_kind (task s x)"
  "t_name (task (active t s) x) = t_name (task s x)"
  "t_handler (task (active t s) x) = t_handler (task s x)"
  "t_params (task (active t s) x) = t_params (task s x)"
  "t_np (task (active t s) x) = t_np (task s x)"
  "t_nblocked (task (active t s) x) = t_nblocked (task s x)"
  "t_queue (task (active t s) x) = t_queue (task s x)"
  "t_mutex (task (active t s) x) = t_mutex (task s x)"
  "t_semaphore (task (active t s) x) = t_semaphore (task s x)"
  "t_rwlock (task (active t s) x) = t_rwlock (task s x)"
  "t_priority (task (active t s) x) = t_priority (task s x)"
  "t_c (task (active t s) x) = t_c (task s x)"
  "t_started (task (active t s) x) = t_started (task s x)"
  "t_slice (task (active t s) x) = t_slice (task s x)"
  "t_signal (task (active t s) x) = t_signal (task s x)"
  "t_highwater (task (active t s) x) = t_highwater (task s x)"
  "t_user_data (task (active t s) x) = t_user_data (task s x)"
  by (simp_all add: active_def)

lemma accounted_rest [simp]:
  "running (accounted r t s) = running s"
  "os_state (accounted r t s) = os_state s"
  "ntasks (accounted r t s) = ntasks s"
  "idle (accounted r t s) = idle s"
  "tasks (accounted r t s) = tasks s"
  "status_hook (accounted r t s) = status_hook s"
  "logging_hook (accounted r t s) = logging_hook s"
  "queue_at (accounted r t s) = queue_at s"
  "mutex_at (accounted r t s) = mutex_at s"
  "semaphore_at (accounted r t s) = semaphore_at s"
  "rwlock_at (accounted r t s) = rwlock_at s"
  "mem (accounted r t s) = mem s"
  "uptime (accounted r t s) = uptime s"
  "micros (accounted r t s) = micros s"
  "ipsr (accounted r t s) = ipsr s"
  "control (accounted r t s) = control s"
  "target (accounted r t s) = target s"
  "task_finished_addr (accounted r t s) = task_finished_addr s"
  "t_sp (task (accounted r t s) x) = t_sp (task s x)"
  "t_stack (task (accounted r t s) x) = t_stack (task s x)"
  "t_stack_size (task (accounted r t s) x) = t_stack_size (task s x)"
  "t_stack_kind (task (accounted r t s) x) = t_stack_kind (task s x)"
  "t_name (task (accounted r t s) x) = t_name (task s x)"
  "t_handler (task (accounted r t s) x) = t_handler (task s x)"
  "t_params (task (accounted r t s) x) = t_params (task s x)"
  "t_np (task (accounted r t s) x) = t_np (task s x)"
  "t_nblocked (task (accounted r t s) x) = t_nblocked (task s x)"
  "t_queue (task (accounted r t s) x) = t_queue (task s x)"
  "t_mutex (task (accounted r t s) x) = t_mutex (task s x)"
  "t_semaphore (task (accounted r t s) x) = t_semaphore (task s x)"
  "t_rwlock (task (accounted r t s) x) = t_rwlock (task s x)"
  "t_priority (task (accounted r t s) x) = t_priority (task s x)"
  "t_c (task (accounted r t s) x) = t_c (task s x)"
  "t_started (task (accounted r t s) x) = t_started (task s x)"
  "t_slice (task (accounted r t s) x) = t_slice (task s x)"
  "t_signal (task (accounted r t s) x) = t_signal (task s x)"
  "t_highwater (task (accounted r t s) x) = t_highwater (task s x)"
  "t_user_data (task (accounted r t s) x) = t_user_data (task s x)"
  by (simp_all add: accounted_def Let_def)

lemma dispatched_rest [simp]:
  "running (dispatched r t rs ws s) = running s"
  "os_state (dispatched r t rs ws s) = os_state s"
  "ntasks (dispatched r t rs ws s) = ntasks s"
  "idle (dispatched r t rs ws s) = idle s"
  "tasks (dispatched r t rs ws s) = tasks s"
  "status_hook (dispatched r t rs ws s) = status_hook s"
  "logging_hook (dispatched r t rs ws s) = logging_hook s"
  "queue_at (dispatched r t rs ws s) = queue_at s"
  "mutex_at (dispatched r t rs ws s) = mutex_at s"
  "semaphore_at (dispatched r t rs ws s) = semaphore_at s"
  "rwlock_at (dispatched r t rs ws s) = rwlock_at s"
  "mem (dispatched r t rs ws s) = mem s"
  "uptime (dispatched r t rs ws s) = uptime s"
  "micros (dispatched r t rs ws s) = micros s"
  "ipsr (dispatched r t rs ws s) = ipsr s"
  "control (dispatched r t rs ws s) = control s"
  "target (dispatched r t rs ws s) = target s"
  "task_finished_addr (dispatched r t rs ws s) = task_finished_addr s"
  "t_sp (task (dispatched r t rs ws s) x) = t_sp (task s x)"
  "t_stack (task (dispatched r t rs ws s) x) = t_stack (task s x)"
  "t_stack_size (task (dispatched r t rs ws s) x) = t_stack_size (task s x)"
  "t_stack_kind (task (dispatched r t rs ws s) x) = t_stack_kind (task s x)"
  "t_name (task (dispatched r t rs ws s) x) = t_name (task s x)"
  "t_handler (task (dispatched r t rs ws s) x) = t_handler (task s x)"
  "t_params (task (dispatched r t rs ws s) x) = t_params (task s x)"
  "t_np (task (dispatched r t rs ws s) x) = t_np (task s x)"
  "t_nblocked (task (dispatched r t rs ws s) x) = t_nblocked (task s x)"
  "t_queue (task (dispatched r t rs ws s) x) = t_queue (task s x)"
  "t_mutex (task (dispatched r t rs ws s) x) = t_mutex (task s x)"
  "t_semaphore (task (dispatched r t rs ws s) x) = t_semaphore (task s x)"
  "t_rwlock (task (dispatched r t rs ws s) x) = t_rwlock (task s x)"
  "t_priority (task (dispatched r t rs ws s) x) = t_priority (task s x)"
  "t_c (task (dispatched r t rs ws s) x) = t_c (task s x)"
  "t_started (task (dispatched r t rs ws s) x) = t_started (task s x)"
  "t_slice (task (dispatched r t rs ws s) x) = t_slice (task s x)"
  "t_signal (task (dispatched r t rs ws s) x) = t_signal (task s x)"
  "t_highwater (task (dispatched r t rs ws s) x) = t_highwater (task s x)"
  "t_user_data (task (dispatched r t rs ws s) x) = t_user_data (task s x)"
  by (simp_all add: dispatched_def Let_def)

lemma task_fields_active [simp]:
  "t_flags (task (demoted r s) x) = t_flags (task s x)"
  "t_flags (task (active t s) x) = (if x = t then 0 else t_flags (task s x))"
  "t_delay (task (active t s) x) = (if x = t then 0 else t_delay (task s x))"
  "status_of (active t s) x = (if x = t then OS_TASK_STATUS_ACTIVE else status_of s x)"
  by (simp_all add: demoted_def set_status_def active_def split: os_task_status.split)

lemma pendsv_layers [simp]:
  "pendsv (demoted r s) = pendsv s" "pendsv (active t s) = pendsv s" "trace (active t s) = trace s"
  by (simp_all add: demoted_def set_status_def active_def split: os_task_status.split)

lemma dispatched_switch [simp]:
  "scheduled (dispatched r t rs ws s) = Some t"
  "status_of (dispatched r t rs ws s) t = OS_TASK_STATUS_ACTIVE"
  "t_flags (task (dispatched r t rs ws s) x) = (if x = t then 0 else t_flags (task s x))"
  "t_delay (task (dispatched r t rs ws s) x) = (if x = t then 0 else t_delay (task s x))"
  "runqueue (dispatched r t rs ws s) = first (run_with s t rs ws)"
  "waitqueue (dispatched r t rs ws s) = first (remove1 t ws)"
  "pendsv (dispatched r t rs ws s) = (pendsv s \<or> is_device (target s))"
  by (simp_all add: dispatched_def Let_def)

lemma get_blocked_dispatched [simp]: "get_blocked b (dispatched r t rs ws s) = get_blocked b s"
  by (cases b) simp_all

lemma higher_dispatched [simp]: "higher (dispatched r t rs ws s) = higher s"
  by (rule higher_cong) simp

lemma demoted_status:
  "status_of (demoted r s) x =
     (if x = r \<and> status_of s r = OS_TASK_STATUS_ACTIVE then OS_TASK_STATUS_IDLE else status_of s x)"
  by (simp add: demoted_def split: os_task_status.split)

lemma dispatched_status:
  "x \<noteq> t \<Longrightarrow> status_of (dispatched r t rs ws s) x =
     (if x = r \<and> status_of s r = OS_TASK_STATUS_ACTIVE then OS_TASK_STATUS_IDLE else status_of s x)"
  by (simp add: dispatched_def Let_def demoted_status)

lemma dispatched_trace:
  "status_of s r \<noteq> OS_TASK_STATUS_PANIC \<Longrightarrow> trace (dispatched r t rs ws s) = trace s"
  by (simp add: dispatched_def Let_def) (simp add: demoted_def set_status_def split: os_task_status.split)

lemma is_blocked_dispatched [simp]:
  "is_blocked b (dispatched r t rs ws s) xs = is_blocked b s xs"
  by (simp add: is_blocked_def)

end
