(* ===== verification/Schedule.thy ===== *)
theory Schedule
  imports Dispatch
begin

text \<open>
  What \<open>osi_schedule\<close> and \<open>osi_dispatch_or_queue\<close> do when the queues are in order: wake the
  task whose time has come, choose, switch.
\<close>

section \<open>Waking\<close>

definition due :: "kernel \<Rightarrow> task_ptr \<Rightarrow> bool" where
  "due s t \<longleftrightarrow> t_delay (task s t) \<noteq> UINT32_MAX \<and> t_delay (task s t) \<le> uptime s"

text \<open>The task that is woken: the first of the wait queue, when it is due.\<close>

definition woken :: "kernel \<Rightarrow> task_ptr list \<Rightarrow> task_ptr option" where
  "woken s ws = (case ws of [] \<Rightarrow> None | w # _ \<Rightarrow> if due s w then Some w else None)"

definition wake_run :: "kernel \<Rightarrow> task_ptr list \<Rightarrow> task_ptr list \<Rightarrow> task_ptr list" where
  "wake_run s rs ws = (case woken s ws of None \<Rightarrow> rs | Some w \<Rightarrow> insert_before (higher s) w rs)"

definition wake_wait :: "kernel \<Rightarrow> task_ptr list \<Rightarrow> task_ptr list" where
  "wake_wait s ws = (case woken s ws of None \<Rightarrow> ws | Some w \<Rightarrow> remove1 w ws)"

definition wake_state :: "kernel \<Rightarrow> task_ptr list \<Rightarrow> task_ptr list \<Rightarrow> kernel" where
  "wake_state s rs ws =
     (case woken s ws of None \<Rightarrow> s | Some w \<Rightarrow> after_status s rs ws w OS_TASK_STATUS_IDLE)"

lemma wake_loop_none:
  assumes "chain (nrp_of s) p ws" and "\<forall>w\<in>set ws. \<not> due s w"
  shows "wake_loop (uptime s) p s = Some (Inr ((), s))"
  using assms
proof (induction ws arbitrary: p)
  case Nil
  then show ?case by (subst wake_loop.simps) (simp add: exec)
next
  case (Cons w ws)
  then show ?case by (subst wake_loop.simps) (auto simp: due_def)
qed

text \<open>The wait queue is ordered, so that when its head is not due no task is.\<close>

lemma max_word: "(- 1 :: u32) = UINT32_MAX"
  by simp

lemma not_due_sorted:
  assumes "sorted_wrt (\<lambda>x y. \<not> earlier s y x) (w # ws)" and "\<not> due s w" and "x \<in> set (w # ws)"
  shows "\<not> due s x"
proof -
  have le: "t_delay (task s w) \<le> t_delay (task s x)"
    using assms(1,3) by (auto simp: earlier_def not_less)
  show ?thesis
  proof (cases "t_delay (task s w) = UINT32_MAX")
    case True
    then have "t_delay (task s x) = UINT32_MAX"
      using le word_order.extremum_uniqueI [of "t_delay (task s x)"] by (simp add: max_word)
    then show ?thesis by (simp add: due_def)
  next
    case False
    then show ?thesis using le assms(2) by (auto simp: due_def)
  qed
qed

lemma wake_loop_eq:
  assumes q: "queues_ok s rs ws" and p: "\<forall>w\<in>set ws. prio_of s w \<le> 0xff"
  shows "wake_loop (uptime s) (waitqueue s) s = Some (Inr ((), wake_state s rs ws))"
    and "queues_ok (wake_state s rs ws) (wake_run s rs ws) (wake_wait s ws)"
proof -
  note d = queues_okD [OF q]
  have "wake_loop (uptime s) (waitqueue s) s = Some (Inr ((), wake_state s rs ws)) \<and>
      queues_ok (wake_state s rs ws) (wake_run s rs ws) (wake_wait s ws)"
  proof (cases "woken s ws")
    case None
    have "\<forall>w\<in>set ws. \<not> due s w"
    proof (cases ws)
      case (Cons w ws')
      then show ?thesis
        using None not_due_sorted [of s w ws'] d(6) by (auto simp: woken_def split: if_splits)
    qed simp
    then have "wake_loop (uptime s) (waitqueue s) s = Some (Inr ((), s))"
      using d(3) by (intro wake_loop_none) (auto simp: is_list_def)
    with None q show ?thesis by (simp add: wake_state_def wake_run_def wake_wait_def)
  next
    case (Some w)
    then obtain ws' where ws: "ws = w # ws'" and due: "due s w"
      by (auto simp: woken_def split: list.splits if_splits)
    have c: "can_become s rs ws w OS_TASK_STATUS_IDLE"
      using d(11) ws p by (simp add: can_become_def)
    have "wake_loop (uptime s) (waitqueue s) s = ignore (osi_task_status_set w OS_TASK_STATUS_IDLE) s"
      using d(14) ws due by (subst wake_loop.simps) (simp add: due_def)
    with osi_task_status_set_eq [OF q c] after_status_ok [OF q c] Some show ?thesis
      by (simp add: wake_state_def wake_run_def wake_wait_def exec next_run_def next_wait_def)
  qed
  then show "wake_loop (uptime s) (waitqueue s) s = Some (Inr ((), wake_state s rs ws))"
    and "queues_ok (wake_state s rs ws) (wake_run s rs ws) (wake_wait s ws)"
    by auto
qed

section \<open>The scheduler\<close>

lemma wake_run_mem: "t \<in> set (wake_run s rs ws) \<Longrightarrow> t \<in> set rs \<or> t \<in> set ws"
  by (auto simp: wake_run_def woken_def split: option.splits list.splits if_splits)

lemma hooked_rest [simp]:
  "running (hooked t st s) = running s" "scheduled (hooked t st s) = scheduled s"
  "idle (hooked t st s) = idle s" "target (hooked t st s) = target s" "mem (hooked t st s) = mem s"
  "pendsv (hooked t st s) = pendsv s" "uptime (hooked t st s) = uptime s"
  "mutex_at (hooked t st s) = mutex_at s" "queue_at (hooked t st s) = queue_at s"
  "semaphore_at (hooked t st s) = semaphore_at s" "rwlock_at (hooked t st s) = rwlock_at s"
  "running (set_status st t s) = running s" "scheduled (set_status st t s) = scheduled s"
  "idle (set_status st t s) = idle s" "target (set_status st t s) = target s"
  "mem (set_status st t s) = mem s" "pendsv (set_status st t s) = pendsv s"
  "uptime (set_status st t s) = uptime s"
  "mutex_at (set_status st t s) = mutex_at s" "queue_at (set_status st t s) = queue_at s"
  "semaphore_at (set_status st t s) = semaphore_at s" "rwlock_at (set_status st t s) = rwlock_at s"
  by (simp_all add: hooked_def set_status_def)

lemma after_status_rest [simp]:
  "running (after_status s rs ws t st) = running s"
  "scheduled (after_status s rs ws t st) = scheduled s"
  "idle (after_status s rs ws t st) = idle s"
  "target (after_status s rs ws t st) = target s"
  "mem (after_status s rs ws t st) = mem s"
  "pendsv (after_status s rs ws t st) = pendsv s"
  "uptime (after_status s rs ws t st) = uptime s"
  "mutex_at (after_status s rs ws t st) = mutex_at s"
  "queue_at (after_status s rs ws t st) = queue_at s"
  "semaphore_at (after_status s rs ws t st) = semaphore_at s"
  "rwlock_at (after_status s rs ws t st) = rwlock_at s"
  "prio_of (after_status s rs ws t st) x = prio_of s x"
  "status_of (after_status s rs ws t st) x = (if x = t then st else status_of s x)"
  "t_delay (task (after_status s rs ws t st) x) = t_delay (task s x)"
  by (simp_all add: after_status_def)

lemma after_status_task [simp]:
  "t_nblocked (task (after_status s rs ws t st) x) = t_nblocked (task s x)"
  "t_flags (task (after_status s rs ws t st) x) = t_flags (task s x)"
  "t_mutex (task (after_status s rs ws t st) x) = t_mutex (task s x)"
  "t_queue (task (after_status s rs ws t st) x) = t_queue (task s x)"
  "t_semaphore (task (after_status s rs ws t st) x) = t_semaphore (task s x)"
  "t_rwlock (task (after_status s rs ws t st) x) = t_rwlock (task s x)"
  "t_c (task (after_status s rs ws t st) x) = t_c (task s x)"
  "t_sp (task (after_status s rs ws t st) x) = t_sp (task s x)"
  "t_stack (task (after_status s rs ws t st) x) = t_stack (task s x)"
  "t_stack_size (task (after_status s rs ws t st) x) = t_stack_size (task s x)"
  "t_handler (task (after_status s rs ws t st) x) = t_handler (task s x)"
  "t_params (task (after_status s rs ws t st) x) = t_params (task s x)"
  "t_signal (task (after_status s rs ws t st) x) = t_signal (task s x)"
  "t_user_data (task (after_status s rs ws t st) x) = t_user_data (task s x)"
  "t_stack_kind (task (after_status s rs ws t st) x) = t_stack_kind (task s x)"
  "get_blocked b (after_status s rs ws t st) = get_blocked b s"
  by (simp_all add: after_status_def set_status_def) (cases b; simp)

lemma is_blocked_after_status [simp]:
  "is_blocked b (after_status s rs ws t st) xs = is_blocked b s xs"
  by (simp add: is_blocked_def)

lemma waits_in_after_status [simp]:
  "waits_in (after_status s rs ws t st) x w xs = waits_in s x w xs"
  using waits_for_cong [of "task (after_status s rs ws t st) x" "task s x" w]
  by (simp add: waits_in_def split: option.split)

lemma wake_state_rest [simp]:
  "running (wake_state s rs ws) = running s"
  "scheduled (wake_state s rs ws) = scheduled s"
  "idle (wake_state s rs ws) = idle s"
  "target (wake_state s rs ws) = target s"
  "mem (wake_state s rs ws) = mem s"
  "pendsv (wake_state s rs ws) = pendsv s"
  "prio_of (wake_state s rs ws) x = prio_of s x"
  "get_blocked b (wake_state s rs ws) = get_blocked b s"
  "is_blocked b (wake_state s rs ws) ys = is_blocked b s ys"
  "waits_in (wake_state s rs ws) x w xs = waits_in s x w xs"
  by (simp_all add: wake_state_def split: option.split)

text \<open>
  What the scheduler needs of the running task \<open>r\<close>: that it is runnable and queued, or not
  runnable, and that the walk for a successor ends.
\<close>

definition can_schedule :: "kernel \<Rightarrow> task_ptr \<Rightarrow> task_ptr list \<Rightarrow> task_ptr list \<Rightarrow> bool" where
  "can_schedule s r rs ws \<longleftrightarrow>
     queues_ok s rs ws \<and> running s = Some r \<and> status_of s r \<noteq> OS_TASK_STATUS_IDLE \<and>
     scheduled s = None \<and> (\<forall>w\<in>set ws. prio_of s w \<le> 0xff) \<and>
     (r \<in> set (wake_run s rs ws) \<or> \<not> task_is_running (wake_state s rs ws) r) \<and>
     choice_ends (wake_state s rs ws) r (wake_run s rs ws)"

lemma osi_schedule_eq:
  assumes c: "can_schedule s r rs ws"
    and ch: "choice (wake_state s rs ws) r (wake_run s rs ws) = c"
  shows "c = None \<or> c = Some r \<Longrightarrow> osi_schedule s = Some (Inr (OSS_SUCCESS, wake_state s rs ws))"
    and "c = Some t \<Longrightarrow> t \<noteq> r \<Longrightarrow> waits_in s t w xs \<Longrightarrow>
      (idle s = Some t \<Longrightarrow> length (wake_run s rs ws) = 1) \<Longrightarrow>
      osi_schedule s = Some (Inr (OSS_SUCCESS,
        dispatched r t (wake_run s rs ws) (wake_wait s ws) (left w t xs (wake_state s rs ws))))"
    and "c = Some t \<Longrightarrow> t \<noteq> r \<Longrightarrow> waits_in s t w xs \<Longrightarrow>
      (idle s = Some t \<Longrightarrow> length (wake_run s rs ws) = 1) \<Longrightarrow>
      queues_ok (dispatched r t (wake_run s rs ws) (wake_wait s ws) (left w t xs (wake_state s rs ws)))
        (wake_run s rs ws) (wake_wait s ws)"
proof -
  let ?s1 = "wake_state s rs ws" and ?rs = "wake_run s rs ws" and ?ws = "wake_wait s ws"
  have q: "queues_ok s rs ws" and p: "\<forall>w\<in>set ws. prio_of s w \<le> 0xff"
    and r: "running s = Some r" "status_of s r \<noteq> OS_TASK_STATUS_IDLE" "scheduled s = None"
    and run: "r \<in> set ?rs \<or> \<not> task_is_running ?s1 r" and ends: "choice_ends ?s1 r ?rs"
    using c by (auto simp: can_schedule_def)
  note wake = wake_loop_eq [OF q p]
  note find = find_new_task_eq [OF wake(2) run ends, unfolded ch]
  have pv: "set_pendsv s' =
      Some (Inr ((), if is_device (target s') then s'\<lparr>pendsv := True\<rparr> else s'))"
    for s' by (simp add: set_pendsv_def exec)
  have start: "osi_schedule s =
      seq [bind (find_new_task r)
             (\<lambda>new s. guarded (new \<noteq> None \<and> running s \<noteq> new) (ignore (osi_dispatch new)) s),
           (\<lambda>s. guarded (scheduled s \<noteq> None) set_pendsv s)] (ret OSS_SUCCESS) ?s1"
    using r wake(1) by (simp add: osi_schedule_def exec)
  show "c = None \<or> c = Some r \<Longrightarrow> osi_schedule s = Some (Inr (OSS_SUCCESS, ?s1))"
    using start find r by (auto simp: exec)
  assume t: "c = Some t" "t \<noteq> r" and w: "waits_in s t w xs"
    and idle: "idle s = Some t \<Longrightarrow> length ?rs = 1"
  have top: "t \<in> set ?rs" "\<forall>x\<in>set ?rs. \<not> higher ?s1 x t"
    using choice_not_lower [OF wake(2)] ch t(1) by auto
  have nw: "t \<notin> set ?ws" using queues_okD(10) [OF wake(2) top(1)] .
  have rw: "run_with ?s1 t ?rs ?ws = ?rs" using nw by (simp add: run_with_def)
  have "prio_of ?s1 t \<le> 0xff" using queues_okD(8) [OF wake(2) top(1)] .
  note disp = osi_dispatch_eq [OF wake(2), of r t w xs, unfolded rw]
  let ?s2 = "dispatched r t ?rs ?ws (left w t xs ?s1)"
  have d: "osi_dispatch (Some t) ?s1 = Some (Inr (OSS_SUCCESS, ?s2))"
    by (rule disp(1)) (use r t w idle top \<open>prio_of ?s1 t \<le> 0xff\<close> in auto)
  show "queues_ok ?s2 ?rs ?ws"
    using disp(2) r t w idle top \<open>prio_of ?s1 t \<le> 0xff\<close> nw by (auto simp: remove1_idem)
  have "is_device (target ?s2) \<Longrightarrow> ?s2\<lparr>pendsv := True\<rparr> = ?s2"
    by (simp add: dispatched_def Let_def)
  then show "osi_schedule s = Some (Inr (OSS_SUCCESS, ?s2))"
    using start find d r t by (auto simp: exec pv)
qed

end
