(* ===== verification/Blocking.thy ===== *)
theory Blocking
  imports Schedule
begin

unbundle bit_operations_syntax

text \<open>
  The service calls by which the running task gives up the processor (\<open>svc_delay\<close>,
  \<open>svc_block\<close>, \<open>svc_panic\<close>, \<open>svc_abort\<close> of \<open>src/src/service.c\<close>), and the state of the kernel
  between two system calls.
\<close>

section \<open>The operations\<close>

text \<open>\<open>osg.running\<close>, which these calls follow without a check.\<close>

definition running_task :: "task_ptr os" where
  "running_task s = deref (running s) s"

definition schedule_if_needed :: "unit os" where
  "schedule_if_needed s = guarded (scheduled s = None) (ignore osi_schedule) s"

definition assert_switching :: "unit os" where
  "assert_switching s =
     block [os_assert ''osg.scheduled != NULL'' (scheduled s \<noteq> None),
            os_assert ''osg.scheduled != osg.running'' (scheduled s \<noteq> running s)] s"

definition svc_delay :: "u32 \<Rightarrow> u32 os" where
  "svc_delay ms s =
     seq [os_assert ''osg.running != NULL'' (running s \<noteq> None),
          os_assert ''osg.scheduled != osg.running'' (scheduled s \<noteq> running s)]
       (bind running_task (\<lambda>r s.
          seq
            [(if ms = UINT32_MAX then upd_task r (\<lambda>x. x\<lparr>t_delay := UINT32_MAX\<rparr>)
              else
                block
                  [upd_task r (\<lambda>x. x\<lparr>t_delay := uptime s + ms\<rparr>),
                   (\<lambda>s. os_assert ''osg.running->delay != UINT32_MAX''
                          (t_delay (task s r) \<noteq> UINT32_MAX) s)]),
             ignore (osi_task_status_set r OS_TASK_STATUS_WAIT),
             schedule_if_needed,
             assert_switching]
            (ret OSS_ERROR_TO) s)) s"

definition svc_block :: "u32 \<Rightarrow> u32 \<Rightarrow> u32 os" where
  "svc_block ms flags =
     bind running_task (\<lambda>r.
       seq [upd_task r (\<lambda>x. x\<lparr>t_flags := t_flags x OR flags\<rparr>)] (svc_delay ms))"

definition svc_panic :: "os_panic_kind_t \<Rightarrow> u32 os" where
  "svc_panic code =
     seq
       [osi_panic code,
        bind running_task (\<lambda>r. ignore (osi_task_status_set r OS_TASK_STATUS_PANIC)),
        schedule_if_needed,
        assert_switching]
       (ret OSS_SUCCESS)"

definition svc_abort :: "u32 \<Rightarrow> u32 os" where
  "svc_abort code =
     seq
       [bind running_task (\<lambda>r. ignore (osi_task_status_set r OS_TASK_STATUS_ABORTED)),
        schedule_if_needed,
        assert_switching]
       (ret OSS_SUCCESS)"

section \<open>The state between system calls\<close>

text \<open>
  The running task \<open>r\<close> is the active one, it is in the run queue with nobody above it, no
  switch is pending, and the idle task, of the lowest priority, is always runnable.
\<close>

definition has_idle :: "kernel \<Rightarrow> task_ptr list \<Rightarrow> task_ptr list \<Rightarrow> bool" where
  "has_idle s rs ws \<longleftrightarrow>
     (\<exists>i\<in>set rs. idle s = Some i \<and> prio_of s i = 0 \<and>
        (\<forall>x\<in>set rs \<union> set ws. prio_of s x = 0 \<longrightarrow> x = i))"

definition steady :: "kernel \<Rightarrow> task_ptr \<Rightarrow> task_ptr list \<Rightarrow> task_ptr list \<Rightarrow> bool" where
  "steady s r rs ws \<longleftrightarrow>
     queues_ok s rs ws \<and> running s = Some r \<and> scheduled s = None \<and> r \<in> set rs \<and>
     status_of s r = OS_TASK_STATUS_ACTIVE \<and> \<not> higher_exists s r rs \<and>
     (\<forall>w\<in>set ws. prio_of s w \<le> 0xff) \<and>
     has_idle s rs ws"

lemma steadyD:
  assumes "steady s r rs ws"
  shows "queues_ok s rs ws" "running s = Some r" "scheduled s = None" "r \<in> set rs"
    "status_of s r = OS_TASK_STATUS_ACTIVE" "x \<in> set rs \<Longrightarrow> \<not> higher s x r"
    "\<forall>w\<in>set ws. prio_of s w \<le> 0xff" "has_idle s rs ws"
  using assms by (auto simp: steady_def higher_exists_def)

text \<open>What every task waits for is on record: its flags agree with its pointers.\<close>

definition waiters_ok :: "kernel \<Rightarrow> task_ptr list \<Rightarrow> task_ptr list \<Rightarrow> bool" where
  "waiters_ok s rs ws \<longleftrightarrow> (\<forall>t\<in>set rs \<union> set ws. \<exists>w xs. waits_in s t w xs)"

definition with_delay :: "u32 \<Rightarrow> task_ptr \<Rightarrow> kernel \<Rightarrow> kernel" where
  "with_delay d r s = s\<lparr>task := (task s)(r := (task s r)\<lparr>t_delay := d\<rparr>)\<rparr>"

lemma with_delay_simps [simp]:
  "running (with_delay d r s) = running s" "scheduled (with_delay d r s) = scheduled s"
  "idle (with_delay d r s) = idle s" "uptime (with_delay d r s) = uptime s"
  "runqueue (with_delay d r s) = runqueue s" "waitqueue (with_delay d r s) = waitqueue s"
  "status_of (with_delay d r s) x = status_of s x" "prio_of (with_delay d r s) x = prio_of s x"
  "nrp_of (with_delay d r s) x = nrp_of s x"
  "t_delay (task (with_delay d r s) x) = (if x = r then d else t_delay (task s x))"
  "nblocked_of (with_delay d r s) x = nblocked_of s x"
  "get_blocked b (with_delay d r s) = get_blocked b s"
  "higher (with_delay d r s) = higher s"
  by (simp_all add: with_delay_def higher_def fun_eq_iff)

lemma is_blocked_with_delay [simp]: "is_blocked b (with_delay d r s) xs = is_blocked b s xs"
  by (simp add: is_blocked_def)

lemma waits_in_with_delay [simp]: "waits_in (with_delay d r s) x w xs = waits_in s x w xs"
proof -
  have "waits_for (task (with_delay d r s) x) w = waits_for (task s x) w"
    by (rule waits_for_cong) (simp_all add: with_delay_def)
  then show ?thesis by (simp add: waits_in_def split: option.split)
qed

text \<open>The delay of a runnable task is not part of the queues.\<close>

lemma queues_ok_with_delay:
  assumes "queues_ok s rs ws" and "r \<notin> set ws"
  shows "queues_ok (with_delay d r s) rs ws"
proof -
  have l: "is_list h (with_delay d r s) xs = is_list h s xs" for h xs
    by (cases h) (simp_all add: is_list_def)
  have "links_ok (with_delay d r s) rs ws = links_ok s rs ws" by (rule links_ok_cong) simp_all
  moreover have "sorted_wrt (\<lambda>x y. \<not> earlier (with_delay d r s) y x) ws"
  proof (rule sorted_wrt_mono_rel [OF _ queues_okD(6) [OF assms(1)]])
    fix x y assume "x \<in> set ws" "y \<in> set ws" "\<not> earlier s y x"
    then show "\<not> earlier (with_delay d r s) y x" using assms(2) by (auto simp: earlier_def)
  qed
  ultimately show ?thesis using assms(1) by (simp add: queues_ok_def rq_ok_def wq_ok_def l)
qed

section \<open>Giving up the processor\<close>

lemma wake_run_superset: "set rs \<subseteq> set (wake_run s rs ws)"
  by (auto simp: wake_run_def split: option.split)

lemma wake_run_not_woken: "woken s ws \<noteq> Some r \<Longrightarrow> r \<notin> set rs \<Longrightarrow> r \<notin> set (wake_run s rs ws)"
  by (auto simp: wake_run_def split: option.split)

lemma wake_state_status:
  "status_of (wake_state s rs ws) x = (if woken s ws = Some x then OS_TASK_STATUS_IDLE else status_of s x)"
  by (auto simp: wake_state_def split: option.split)

text \<open>
  A running task that can no longer run is replaced by the first task of the run queue; the
  idle task is chosen only when it is alone there.
\<close>

lemma osi_schedule_replaces:
  assumes q: "queues_ok s rs ws" and r: "running s = Some r" "scheduled s = None"
    and st: "\<not> task_is_running s r" and nw: "woken s ws \<noteq> Some r"
    and p: "\<forall>w\<in>set ws. prio_of s w \<le> 0xff" and i: "has_idle s rs ws"
    and pr: "prio_of s r \<noteq> 0" and wt: "waiters_ok s rs ws"
  obtains t w xs where "first (wake_run s rs ws) = Some t" "t \<noteq> r" "waits_in s t w xs"
    "osi_schedule s = Some (Inr (OSS_SUCCESS,
       dispatched r t (wake_run s rs ws) (wake_wait s ws) (left w t xs (wake_state s rs ws))))"
    "queues_ok (dispatched r t (wake_run s rs ws) (wake_wait s ws) (left w t xs (wake_state s rs ws)))
       (wake_run s rs ws) (wake_wait s ws)"
proof -
  let ?rs = "wake_run s rs ws" and ?ws = "wake_wait s ws" and ?s1 = "wake_state s rs ws"
  obtain j where j: "j \<in> set rs" "idle s = Some j" "prio_of s j = 0"
    and only: "\<And>x. x \<in> set rs \<union> set ws \<Longrightarrow> prio_of s x = 0 \<Longrightarrow> x = j"
    using i by (auto simp: has_idle_def)
  have jr: "j \<in> set ?rs" using j(1) wake_run_superset by auto
  have rn: "r \<notin> set rs" using running_not_queued [OF q] st by (simp add: task_is_running_def)
  then have rn1: "r \<notin> set ?rs" using nw by (simp add: wake_run_not_woken)
  have nrun: "\<not> task_is_running ?s1 r"
    using st nw by (simp add: task_is_running_def wake_state_status)
  have ends: "choice_ends ?s1 r ?rs"
  proof -
    have "prio_of ?s1 j \<noteq> prio_of ?s1 r" using j(3) pr by simp
    then show ?thesis using jr unfolding choice_ends_def by blast
  qed
  have c: "can_schedule s r rs ws"
    using q r st p nrun ends by (auto simp: can_schedule_def task_is_running_def)
  obtain t where t: "first ?rs = Some t" using jr by (cases ?rs) auto
  then have tm: "t \<in> set ?rs" by (cases ?rs) auto
  have ch: "choice ?s1 r ?rs = Some t" using rn1 t by (simp add: choice_def)
  have tr: "t \<noteq> r" using tm rn1 by auto
  obtain w xs where w: "waits_in s t w xs" using wt wake_run_mem [OF tm] unfolding waiters_ok_def by blast
  have idle: "length ?rs = 1" if "idle s = Some t"
  proof -
    have "t = j" using that j(2) by simp
    then have "\<forall>x\<in>set ?rs. \<not> higher ?s1 x j"
      using choice_not_lower [OF wake_loop_eq(2) [OF q p] ch] by simp
    then have "\<forall>x\<in>set ?rs. prio_of s x = 0" using j(3) by (auto simp: higher_def word_gt_0)
    then have "set ?rs = {j}" using only wake_run_mem jr by blast
    moreover have "distinct ?rs" using queues_okD(15) [OF wake_loop_eq(2) [OF q p]] .
    ultimately show ?thesis using distinct_card [of ?rs] by simp
  qed
  show thesis
    by (rule that [OF t tr w osi_schedule_eq(2,3) [OF c ch refl tr w idle]])
qed

section \<open>Delaying and blocking\<close>

lemma has_idle_cong:
  assumes "has_idle s rs ws" and "\<And>x. prio_of s' x = prio_of s x" and "idle s' = idle s"
    and "idle s \<noteq> Some r" and "set rs - {r} \<subseteq> set rs'" and "set rs' \<union> set ws' \<subseteq> set rs \<union> set ws"
  shows "has_idle s' rs' ws'"
proof -
  obtain i where i: "i \<in> set rs" "idle s = Some i" "prio_of s i = 0"
    and only: "\<And>x. x \<in> set rs \<union> set ws \<Longrightarrow> prio_of s x = 0 \<Longrightarrow> x = i"
    using assms(1) by (auto simp: has_idle_def)
  have "i \<in> set rs'" using i assms(4,5) by auto
  moreover have "x = i" if "x \<in> set rs' \<union> set ws'" "prio_of s' x = 0" for x
    using only [of x] that assms(2,6) by auto
  ultimately show ?thesis using i assms(2,3) unfolding has_idle_def by auto
qed

lemma set_remove1_diff: "distinct xs \<Longrightarrow> set (remove1 x xs) = set xs - {x}"
  by simp

text \<open>
  The state in which \<open>svc_delay\<close> calls the scheduler: \<open>r\<close> is waiting until \<open>d\<close>.
\<close>

definition delayed :: "kernel \<Rightarrow> task_ptr \<Rightarrow> task_ptr list \<Rightarrow> task_ptr list \<Rightarrow> u32 \<Rightarrow> kernel" where
  "delayed s r rs ws d = after_status (with_delay d r s) rs ws r OS_TASK_STATUS_WAIT"

definition delayed_wait :: "kernel \<Rightarrow> task_ptr \<Rightarrow> task_ptr list \<Rightarrow> u32 \<Rightarrow> task_ptr list" where
  "delayed_wait s r ws d = insert_before (earlier (with_delay d r s)) r ws"

lemma delayed_eq:
  assumes q: "queues_ok s rs ws" and r: "r \<in> set rs"
  shows "osi_task_status_set r OS_TASK_STATUS_WAIT (with_delay d r s) =
      Some (Inr (3, delayed s r rs ws d))"
    and "queues_ok (delayed s r rs ws d) (remove1 r rs) (delayed_wait s r ws d)"
proof -
  have rw: "r \<notin> set ws" using queues_okD(10) [OF q r] .
  have q1: "queues_ok (with_delay d r s) rs ws" using q rw by (rule queues_ok_with_delay)
  have c: "can_become (with_delay d r s) rs ws r OS_TASK_STATUS_WAIT"
    using rw by (simp add: can_become_def)
  show "osi_task_status_set r OS_TASK_STATUS_WAIT (with_delay d r s) =
      Some (Inr (3, delayed s r rs ws d))"
    using osi_task_status_set_eq [OF q1 c] by (simp add: delayed_def)
  show "queues_ok (delayed s r rs ws d) (remove1 r rs) (delayed_wait s r ws d)"
    using after_status_ok [OF q1 c] by (simp add: delayed_def delayed_wait_def next_run_def next_wait_def)
qed

lemma delayed_rest [simp]:
  "running (delayed s r rs ws d) = running s" "scheduled (delayed s r rs ws d) = scheduled s"
  "idle (delayed s r rs ws d) = idle s" "uptime (delayed s r rs ws d) = uptime s"
  "prio_of (delayed s r rs ws d) x = prio_of s x"
  "status_of (delayed s r rs ws d) x = (if x = r then OS_TASK_STATUS_WAIT else status_of s x)"
  "t_delay (task (delayed s r rs ws d) x) = (if x = r then d else t_delay (task s x))"
  "get_blocked b (delayed s r rs ws d) = get_blocked b s"
  "is_blocked b (delayed s r rs ws d) xs = is_blocked b s xs"
  "waits_in (delayed s r rs ws d) x w xs = waits_in s x w xs"
  by (simp_all add: delayed_def)

lemma woken_iff: "woken s ws = Some r \<longleftrightarrow> ws \<noteq> [] \<and> hd ws = r \<and> due s r"
  by (cases ws) (auto simp: woken_def)

text \<open>When the running task may delay itself until \<open>d\<close>: it is not the idle task, and \<open>d\<close> is not yet due.\<close>

definition can_delay :: "kernel \<Rightarrow> task_ptr \<Rightarrow> task_ptr list \<Rightarrow> task_ptr list \<Rightarrow> u32 \<Rightarrow> bool" where
  "can_delay s r rs ws d \<longleftrightarrow> steady s r rs ws \<and> waiters_ok s rs ws \<and> prio_of s r \<noteq> 0 \<and>
     (d = UINT32_MAX \<or> uptime s < d)"

lemma delay_schedule:
  assumes c: "can_delay s r rs ws d"
  obtains t w xs s' where
    "first (wake_run (delayed s r rs ws d) (remove1 r rs) (delayed_wait s r ws d)) = Some t"
    "t \<noteq> r" "waits_in s t w xs"
    "osi_schedule (delayed s r rs ws d) = Some (Inr (OSS_SUCCESS, s'))"
    "s' = dispatched r t (wake_run (delayed s r rs ws d) (remove1 r rs) (delayed_wait s r ws d))
       (wake_wait (delayed s r rs ws d) (delayed_wait s r ws d))
       (left w t xs (wake_state (delayed s r rs ws d) (remove1 r rs) (delayed_wait s r ws d)))"
    "queues_ok s' (wake_run (delayed s r rs ws d) (remove1 r rs) (delayed_wait s r ws d))
       (wake_wait (delayed s r rs ws d) (delayed_wait s r ws d))"
proof -
  let ?s = "delayed s r rs ws d" and ?rs = "remove1 r rs" and ?ws = "delayed_wait s r ws d"
  have st: "steady s r rs ws" and wt: "waiters_ok s rs ws" and pr: "prio_of s r \<noteq> 0"
    and d: "d = UINT32_MAX \<or> uptime s < d"
    using c by (auto simp: can_delay_def)
  note sd = steadyD [OF st]
  have dr: "distinct rs" using queues_okD(15) [OF sd(1)] .
  have q: "queues_ok ?s ?rs ?ws" using delayed_eq(2) [OF sd(1,4)] .
  have nw: "woken ?s ?ws \<noteq> Some r" using d by (auto simp: woken_iff due_def)
  have sub: "set ?ws = insert r (set ws)" by (simp add: delayed_wait_def)
  have p: "\<forall>w\<in>set ?ws. prio_of ?s w \<le> 0xff"
    using sd(7) queues_okD(8) [OF sd(1,4)] sub by simp
  have nidle: "idle s \<noteq> Some r" using sd(8) pr by (auto simp: has_idle_def)
  have i: "has_idle ?s ?rs ?ws"
    by (rule has_idle_cong [OF sd(8), of _ r]) (use dr sub sd(4) nidle in auto)
  have wt': "waiters_ok ?s ?rs ?ws"
    using wt sub dr sd(4) by (auto simp: waiters_ok_def)
  have run: "running ?s = Some r" "scheduled ?s = None" "\<not> task_is_running ?s r" "prio_of ?s r \<noteq> 0"
    using sd pr by (simp_all add: task_is_running_def)
  from osi_schedule_replaces [OF q run(1-3) nw p i run(4) wt'] obtain t w xs
    where "first (wake_run ?s ?rs ?ws) = Some t" "t \<noteq> r" "waits_in ?s t w xs"
      "osi_schedule ?s = Some (Inr (OSS_SUCCESS, dispatched r t (wake_run ?s ?rs ?ws)
         (wake_wait ?s ?ws) (left w t xs (wake_state ?s ?rs ?ws))))"
      "queues_ok (dispatched r t (wake_run ?s ?rs ?ws)
         (wake_wait ?s ?ws) (left w t xs (wake_state ?s ?rs ?ws))) (wake_run ?s ?rs ?ws) (wake_wait ?s ?ws)"
    by blast
  then show thesis using that by simp
qed

lemma svc_delay_eq:
  assumes c: "can_delay s r rs ws d"
    and ms: "d = (if ms = UINT32_MAX then UINT32_MAX else uptime s + ms)"
      "ms \<noteq> UINT32_MAX \<Longrightarrow> d \<noteq> UINT32_MAX"
  obtains s' where "svc_delay ms s = Some (Inr (OSS_ERROR_TO, s'))"
    "osi_schedule (delayed s r rs ws d) = Some (Inr (OSS_SUCCESS, s'))"
proof -
  have st: "steady s r rs ws" using c by (simp add: can_delay_def)
  note sd = steadyD [OF st]
  obtain t w xs s' where sched: "t \<noteq> r"
    "osi_schedule (delayed s r rs ws d) = Some (Inr (OSS_SUCCESS, s'))"
    and s': "s' = dispatched r t (wake_run (delayed s r rs ws d) (remove1 r rs) (delayed_wait s r ws d))
       (wake_wait (delayed s r rs ws d) (delayed_wait s r ws d))
       (left w t xs (wake_state (delayed s r rs ws d) (remove1 r rs) (delayed_wait s r ws d)))"
    by (rule delay_schedule [OF c])
  have upd: "s\<lparr>task := (task s)(r := (task s r)\<lparr>t_delay := d\<rparr>)\<rparr> = with_delay d r s"
    by (simp add: with_delay_def)
  have sc: "scheduled s' = Some t" "running s' = Some r" using s' sd(2) by simp_all
  note set = delayed_eq(1) [OF sd(1,4), of d]
  have "svc_delay ms s = Some (Inr (OSS_ERROR_TO, s'))"
  proof (cases "ms = UINT32_MAX")
    case True
    then have "d = UINT32_MAX" using ms(1) by simp
    with True show ?thesis using sd upd set sched sc
      by (simp add: svc_delay_def running_task_def schedule_if_needed_def assert_switching_def exec)
  next
    case False
    then have "d = uptime s + ms" "uptime s + ms \<noteq> UINT32_MAX" using ms by simp_all
    with False show ?thesis using sd upd set sched sc
      by (simp add: svc_delay_def running_task_def schedule_if_needed_def assert_switching_def exec)
  qed
  then show thesis using that sched(2) by blast
qed

end
