(* ===== verification/Rooms.thy ===== *)
theory Rooms
  imports Blocking
begin

text \<open>
  The blocked lists of all objects together, and the invariant of the whole kernel between
  two system calls.  The four kinds of objects put tasks into their lists and take them out
  with functions of their own; the locale \<open>waiting_room\<close> states what these promise.
\<close>

section \<open>All blocked lists\<close>

text \<open>
  The object \<open>b\<close> has the tasks \<open>L b\<close> blocked, and each of them records that it waits for \<open>b\<close>.
\<close>

definition rooms_ok :: "kernel \<Rightarrow> (blocked_ref \<Rightarrow> task_ptr list) \<Rightarrow> bool" where
  "rooms_ok s L \<longleftrightarrow>
     (\<forall>b. is_blocked b s (L b) \<and> (\<forall>t\<in>set (L b). waits_for (task s t) (Some b))) \<and>
     (\<forall>t. (\<forall>b. t \<notin> set (L b)) \<longrightarrow> nblocked_of s t = None)"

lemma rooms_okD:
  assumes "rooms_ok s L"
  shows "is_blocked b s (L b)" "t \<in> set (L b) \<Longrightarrow> waits_for (task s t) (Some b)"
    and "(\<And>b. t \<notin> set (L b)) \<Longrightarrow> nblocked_of s t = None"
  using assms by (auto simp: rooms_ok_def)

lemma rooms_disjoint: "rooms_ok s L \<Longrightarrow> t \<in> set (L b) \<Longrightarrow> t \<in> set (L b') \<Longrightarrow> b = b'"
  using waits_for_unique rooms_okD(2) by blast

lemma not_in_rooms:
  assumes "rooms_ok s L" and "waits_for (task s t) None"
  shows "t \<notin> set (L b)" and "nblocked_of s t = None"
proof -
  show n: "t \<notin> set (L b)" for b
    using rooms_okD(2) [OF assms(1)] waits_for_unique [OF assms(2)] by blast
  show "nblocked_of s t = None" using rooms_okD(3) [OF assms(1)] n by blast
qed

lemma rooms_ok_cong:
  assumes "\<And>b. get_blocked b s' = get_blocked b s" and "\<And>t. nblocked_of s' t = nblocked_of s t"
    and "\<And>t w. waits_for (task s' t) w = waits_for (task s t) w"
  shows "rooms_ok s' L = rooms_ok s L"
  using assms by (simp add: rooms_ok_def is_blocked_def)

text \<open>A change to one room: its list and the links of its members, old and new.\<close>

lemma rooms_ok_change:
  assumes ok: "rooms_ok s L" and b: "is_blocked b s' xs"
    and w: "\<And>t. t \<in> set xs \<Longrightarrow> waits_for (task s' t) (Some b)"
    and head: "\<And>b'. b' \<noteq> b \<Longrightarrow> get_blocked b' s' = get_blocked b' s"
    and link: "\<And>t. t \<notin> set xs \<Longrightarrow> t \<notin> set (L b) \<Longrightarrow> nblocked_of s' t = nblocked_of s t"
    and gone: "\<And>t. t \<in> set (L b) \<Longrightarrow> t \<notin> set xs \<Longrightarrow> nblocked_of s' t = None"
    and stay: "\<And>t b'. b' \<noteq> b \<Longrightarrow> t \<in> set (L b') \<Longrightarrow> t \<notin> set xs \<and>
      waits_for (task s' t) (Some b') = waits_for (task s t) (Some b')"
  shows "rooms_ok s' (L(b := xs))"
  unfolding rooms_ok_def
proof (intro conjI allI ballI impI)
  fix c
  show "is_blocked c s' ((L(b := xs)) c)"
  proof (cases "c = b")
    case False
    have "nblocked_of s' t = nblocked_of s t" if "t \<in> set (L c)" for t
    proof (rule link)
      show "t \<notin> set xs" using stay [OF False that] by simp
      show "t \<notin> set (L b)" using rooms_disjoint [OF ok that] False by blast
    qed
    then have "chain (nblocked_of s') p (L c) = chain (nblocked_of s) p (L c)" for p
      by (rule chain_cong)
    then show ?thesis using rooms_okD(1) [OF ok, of c] head [OF False] False
      by (simp add: is_blocked_def)
  qed (use b in simp)
  fix t assume t: "t \<in> set ((L(b := xs)) c)"
  then show "waits_for (task s' t) (Some c)"
    using w stay [of c t] rooms_okD(2) [OF ok, of t c] by (cases "c = b") auto
next
  fix t assume t: "\<forall>c. t \<notin> set ((L(b := xs)) c)"
  then have t': "t \<notin> set ((L(b := xs)) c)" for c by blast
  have nx: "t \<notin> set xs" using t' [of b] by simp
  have nl: "t \<notin> set (L c)" if "c \<noteq> b" for c using t' [of c] that by simp
  show "nblocked_of s' t = None"
  proof (cases "t \<in> set (L b)")
    case False
    then have "t \<notin> set (L c)" for c using nl by (cases "c = b") auto
    then have "nblocked_of s t = None" using rooms_okD(3) [OF ok] by blast
    with link [OF nx False] show ?thesis by simp
  qed (use gone nx in blast)
qed

text \<open>Leaving and entering a room.\<close>

definition room_list :: "blocked_ref option \<Rightarrow> (blocked_ref \<Rightarrow> task_ptr list) \<Rightarrow> task_ptr list" where
  "room_list w L = (case w of None \<Rightarrow> [] | Some b \<Rightarrow> L b)"

definition leave_rooms ::
  "blocked_ref option \<Rightarrow> task_ptr \<Rightarrow> (blocked_ref \<Rightarrow> task_ptr list) \<Rightarrow> blocked_ref \<Rightarrow> task_ptr list"
  where
  "leave_rooms w t L = (case w of None \<Rightarrow> L | Some b \<Rightarrow> L(b := remove1 t (L b)))"

lemma waits_in_rooms: "rooms_ok s L \<Longrightarrow> waits_for (task s t) w \<Longrightarrow> waits_in s t w (room_list w L)"
  by (auto simp: waits_in_def room_list_def rooms_okD(1) split: option.split)

lemma leave_list_blocked:
  "b' \<noteq> b \<Longrightarrow> get_blocked b' (leave_list b t xs s) = get_blocked b' s"
  "x \<notin> set xs \<Longrightarrow> nblocked_of (leave_list b t xs s) x = nblocked_of s x"
  "t \<in> set xs \<Longrightarrow> nblocked_of (leave_list b t xs s) t = None"
proof -
  show "b' \<noteq> b \<Longrightarrow> get_blocked b' (leave_list b t xs s) = get_blocked b' s"
    by (simp add: leave_list_def block_list_def)
  show "x \<notin> set xs \<Longrightarrow> nblocked_of (leave_list b t xs s) x = nblocked_of s x"
    using notin_set_remove1 [of x xs t] by (auto simp: leave_list_def)
  show "t \<in> set xs \<Longrightarrow> nblocked_of (leave_list b t xs s) t = None"
    by (simp add: leave_list_def)
qed

lemma rooms_leave:
  assumes ok: "rooms_ok s L" and w: "waits_for (task s t) w"
  shows "rooms_ok (left w t (room_list w L) s) (leave_rooms w t L)"
    and "waits_for (task (left w t (room_list w L) s) t) None"
proof -
  have "rooms_ok (left w t (room_list w L) s) (leave_rooms w t L) \<and>
      waits_for (task (left w t (room_list w L) s) t) None"
  proof (cases w)
    case None
    with ok w show ?thesis by (simp add: left_def room_list_def leave_rooms_def)
  next
    case (Some b)
    let ?s1 = "leave_list b t (L b) s"
    let ?s = "left w t (L b) s"
    have wf: "waits_for (task ?s1 x) v = waits_for (task s x) v" for x v
      by (rule waits_for_cong) simp_all
    have tk: "task ?s x = (if x = t then forget b (task ?s1 t) else task ?s1 x)" for x
      using Some by (simp add: left_def Let_def)
    have gb: "get_blocked c ?s = get_blocked c ?s1" for c
      using Some by (simp add: left_def Let_def)
    have nb: "nblocked_of ?s x = nblocked_of ?s1 x" for x by (simp add: tk)
    have d: "distinct (L b)" using rooms_okD(1) [OF ok] by (rule is_blocked_distinct)
    have "rooms_ok ?s (L(b := remove1 t (L b)))"
    proof (rule rooms_ok_change [OF ok])
      show "is_blocked b ?s (remove1 t (L b))"
        using is_blocked_leave [OF rooms_okD(1) [OF ok], of b t] by (simp add: is_blocked_def gb nb)
      show "waits_for (task ?s x) (Some b)" if "x \<in> set (remove1 t (L b))" for x
        using that d rooms_okD(2) [OF ok, of x b] by (auto simp: tk wf)
      show "get_blocked c ?s = get_blocked c s" if "c \<noteq> b" for c
        using leave_list_blocked(1) [OF that] by (simp add: gb)
      show "nblocked_of ?s x = nblocked_of s x" if "x \<notin> set (L b)" for x
        using leave_list_blocked(2) [OF that] by (simp add: nb)
      show "nblocked_of ?s x = None" if "x \<in> set (L b)" "x \<notin> set (remove1 t (L b))" for x
        using that d leave_list_blocked(3) [of t "L b" b s] by (auto simp: nb)
      fix x c assume c: "c \<noteq> b" "x \<in> set (L c)"
      have "x \<noteq> t" using rooms_okD(2) [OF ok c(2)] w Some waits_for_unique c(1) by blast
      then show "x \<notin> set (remove1 t (L b)) \<and>
          waits_for (task ?s x) (Some c) = waits_for (task s x) (Some c)"
        using rooms_disjoint [OF ok c(2), of b] c(1) d by (auto simp: tk wf)
    qed
    moreover have "waits_for (task ?s1 t) (Some b)" using w Some wf by blast
    then have "waits_for (forget b (task ?s1 t)) None" by (rule waits_for_forget)
    then have "waits_for (task ?s t) None" using tk [of t] by metis
    ultimately show ?thesis using Some by (simp add: room_list_def leave_rooms_def)
  qed
  then show "rooms_ok (left w t (room_list w L) s) (leave_rooms w t L)"
    and "waits_for (task (left w t (room_list w L) s) t) None" by auto
qed

section \<open>Waiting rooms\<close>

text \<open>The pointer a task keeps to the object it waits for, and the flag that goes with it.\<close>

fun seat :: "blocked_ref \<Rightarrow> os_task_t \<Rightarrow> os_task_t" where
  "seat (Mutex_blocked m) x = x\<lparr>t_mutex := Some m\<rparr>"
| "seat (Queue_blocked q) x = x\<lparr>t_queue := Some q\<rparr>"
| "seat (Semaphore_blocked p) x = x\<lparr>t_semaphore := Some p\<rparr>"
| "seat (Rwlock_blocked r) x = x\<lparr>t_rwlock := Some r\<rparr>"

fun seated_at :: "blocked_ref \<Rightarrow> os_task_t \<Rightarrow> bool" where
  "seated_at (Mutex_blocked m) x \<longleftrightarrow> t_mutex x = Some m"
| "seated_at (Queue_blocked q) x \<longleftrightarrow> t_queue x = Some q"
| "seated_at (Semaphore_blocked p) x \<longleftrightarrow> t_semaphore x = Some p"
| "seated_at (Rwlock_blocked r) x \<longleftrightarrow> t_rwlock x = Some r"

fun standing :: "blocked_ref \<Rightarrow> os_task_t \<Rightarrow> bool" where
  "standing (Mutex_blocked m) x \<longleftrightarrow> t_mutex x = None"
| "standing (Queue_blocked q) x \<longleftrightarrow> t_queue x = None"
| "standing (Semaphore_blocked p) x \<longleftrightarrow> t_semaphore x = None"
| "standing (Rwlock_blocked r) x \<longleftrightarrow> t_rwlock x = None"

fun room_flag :: "blocked_ref \<Rightarrow> u32" where
  "room_flag (Mutex_blocked m) = OS_TASK_FLAG_MUTEX"
| "room_flag (Queue_blocked q) = OS_TASK_FLAG_QUEUE"
| "room_flag (Semaphore_blocked p) = OS_TASK_FLAG_SEMAPHORE"
| "room_flag (Rwlock_blocked r) = OS_TASK_FLAG_RWLOCK"

definition take_seat :: "blocked_ref \<Rightarrow> task_ptr \<Rightarrow> task_ptr list \<Rightarrow> kernel \<Rightarrow> kernel" where
  "take_seat b t xs s =
     (let s1 = block_list b (xs @ [t]) s in s1\<lparr>task := (task s1)(t := seat b (task s1 t))\<rparr>)"

definition with_flags :: "u32 \<Rightarrow> task_ptr \<Rightarrow> kernel \<Rightarrow> kernel" where
  "with_flags f t s = s\<lparr>task := (task s)(t := (task s t)\<lparr>t_flags := f\<rparr>)\<rparr>"

text \<open>\<open>t\<close> waits for \<open>b\<close>, behind the tasks \<open>xs\<close>.\<close>

definition entered :: "blocked_ref \<Rightarrow> task_ptr \<Rightarrow> task_ptr list \<Rightarrow> kernel \<Rightarrow> kernel" where
  "entered b t xs s = with_flags (room_flag b) t (take_seat b t xs s)"

lemma seat_fields [simp]:
  "t_sp (seat b y) = t_sp y"
  "t_stack (seat b y) = t_stack y"
  "t_stack_size (seat b y) = t_stack_size y"
  "t_stack_kind (seat b y) = t_stack_kind y"
  "t_status (seat b y) = t_status y"
  "t_name (seat b y) = t_name y"
  "t_handler (seat b y) = t_handler y"
  "t_params (seat b y) = t_params y"
  "t_np (seat b y) = t_np y"
  "t_nrp (seat b y) = t_nrp y"
  "t_priority (seat b y) = t_priority y"
  "t_c (seat b y) = t_c y"
  "t_started (seat b y) = t_started y"
  "t_slice (seat b y) = t_slice y"
  "t_runtime (seat b y) = t_runtime y"
  "t_scheduled (seat b y) = t_scheduled y"
  "t_delay (seat b y) = t_delay y"
  "t_signal (seat b y) = t_signal y"
  "t_highwater (seat b y) = t_highwater y"
  "t_user_data (seat b y) = t_user_data y"
  "t_nblocked (seat b y) = t_nblocked y"
  "t_flags (seat b y) = t_flags y"
  by (cases b; simp)+

lemma take_seat_fields [simp]:
  "running (take_seat b t xs s) = running s"
  "scheduled (take_seat b t xs s) = scheduled s"
  "os_state (take_seat b t xs s) = os_state s"
  "ntasks (take_seat b t xs s) = ntasks s"
  "idle (take_seat b t xs s) = idle s"
  "tasks (take_seat b t xs s) = tasks s"
  "runqueue (take_seat b t xs s) = runqueue s"
  "waitqueue (take_seat b t xs s) = waitqueue s"
  "status_hook (take_seat b t xs s) = status_hook s"
  "logging_hook (take_seat b t xs s) = logging_hook s"
  "mem (take_seat b t xs s) = mem s"
  "uptime (take_seat b t xs s) = uptime s"
  "micros (take_seat b t xs s) = micros s"
  "ipsr (take_seat b t xs s) = ipsr s"
  "control (take_seat b t xs s) = control s"
  "pendsv (take_seat b t xs s) = pendsv s"
  "target (take_seat b t xs s) = target s"
  "task_finished_addr (take_seat b t xs s) = task_finished_addr s"
  "trace (take_seat b t xs s) = trace s"
  "t_sp (task (take_seat b t xs s) x) = t_sp (task s x)"
  "t_stack (task (take_seat b t xs s) x) = t_stack (task s x)"
  "t_stack_size (task (take_seat b t xs s) x) = t_stack_size (task s x)"
  "t_stack_kind (task (take_seat b t xs s) x) = t_stack_kind (task s x)"
  "t_status (task (take_seat b t xs s) x) = t_status (task s x)"
  "t_name (task (take_seat b t xs s) x) = t_name (task s x)"
  "t_handler (task (take_seat b t xs s) x) = t_handler (task s x)"
  "t_params (task (take_seat b t xs s) x) = t_params (task s x)"
  "t_np (task (take_seat b t xs s) x) = t_np (task s x)"
  "t_nrp (task (take_seat b t xs s) x) = t_nrp (task s x)"
  "t_priority (task (take_seat b t xs s) x) = t_priority (task s x)"
  "t_c (task (take_seat b t xs s) x) = t_c (task s x)"
  "t_started (task (take_seat b t xs s) x) = t_started (task s x)"
  "t_slice (task (take_seat b t xs s) x) = t_slice (task s x)"
  "t_runtime (task (take_seat b t xs s) x) = t_runtime (task s x)"
  "t_scheduled (task (take_seat b t xs s) x) = t_scheduled (task s x)"
  "t_delay (task (take_seat b t xs s) x) = t_delay (task s x)"
  "t_signal (task (take_seat b t xs s) x) = t_signal (task s x)"
  "t_highwater (task (take_seat b t xs s) x) = t_highwater (task s x)"
  "t_user_data (task (take_seat b t xs s) x) = t_user_data (task s x)"
  "t_flags (task (take_seat b t xs s) x) = t_flags (task s x)"
  by (simp_all add: take_seat_def block_list_def Let_def put_blocked_task relink_def)

lemma with_flags_fields [simp]:
  "running (with_flags f t s) = running s"
  "scheduled (with_flags f t s) = scheduled s"
  "os_state (with_flags f t s) = os_state s"
  "ntasks (with_flags f t s) = ntasks s"
  "idle (with_flags f t s) = idle s"
  "tasks (with_flags f t s) = tasks s"
  "runqueue (with_flags f t s) = runqueue s"
  "waitqueue (with_flags f t s) = waitqueue s"
  "status_hook (with_flags f t s) = status_hook s"
  "logging_hook (with_flags f t s) = logging_hook s"
  "mem (with_flags f t s) = mem s"
  "uptime (with_flags f t s) = uptime s"
  "micros (with_flags f t s) = micros s"
  "ipsr (with_flags f t s) = ipsr s"
  "control (with_flags f t s) = control s"
  "pendsv (with_flags f t s) = pendsv s"
  "target (with_flags f t s) = target s"
  "task_finished_addr (with_flags f t s) = task_finished_addr s"
  "trace (with_flags f t s) = trace s"
  "queue_at (with_flags f t s) = queue_at s"
  "mutex_at (with_flags f t s) = mutex_at s"
  "semaphore_at (with_flags f t s) = semaphore_at s"
  "rwlock_at (with_flags f t s) = rwlock_at s"
  "t_sp (task (with_flags f t s) x) = t_sp (task s x)"
  "t_stack (task (with_flags f t s) x) = t_stack (task s x)"
  "t_stack_size (task (with_flags f t s) x) = t_stack_size (task s x)"
  "t_stack_kind (task (with_flags f t s) x) = t_stack_kind (task s x)"
  "t_status (task (with_flags f t s) x) = t_status (task s x)"
  "t_name (task (with_flags f t s) x) = t_name (task s x)"
  "t_handler (task (with_flags f t s) x) = t_handler (task s x)"
  "t_params (task (with_flags f t s) x) = t_params (task s x)"
  "t_np (task (with_flags f t s) x) = t_np (task s x)"
  "t_nrp (task (with_flags f t s) x) = t_nrp (task s x)"
  "t_priority (task (with_flags f t s) x) = t_priority (task s x)"
  "t_c (task (with_flags f t s) x) = t_c (task s x)"
  "t_started (task (with_flags f t s) x) = t_started (task s x)"
  "t_slice (task (with_flags f t s) x) = t_slice (task s x)"
  "t_runtime (task (with_flags f t s) x) = t_runtime (task s x)"
  "t_scheduled (task (with_flags f t s) x) = t_scheduled (task s x)"
  "t_delay (task (with_flags f t s) x) = t_delay (task s x)"
  "t_signal (task (with_flags f t s) x) = t_signal (task s x)"
  "t_highwater (task (with_flags f t s) x) = t_highwater (task s x)"
  "t_user_data (task (with_flags f t s) x) = t_user_data (task s x)"
  "t_nblocked (task (with_flags f t s) x) = t_nblocked (task s x)"
  "t_mutex (task (with_flags f t s) x) = t_mutex (task s x)"
  "t_queue (task (with_flags f t s) x) = t_queue (task s x)"
  "t_semaphore (task (with_flags f t s) x) = t_semaphore (task s x)"
  "t_rwlock (task (with_flags f t s) x) = t_rwlock (task s x)"
  by (simp_all add: with_flags_def)

lemma with_flags_more [simp]:
  "t_flags (task (with_flags f t s) x) = (if x = t then f else t_flags (task s x))"
  "get_blocked b (with_flags f t s) = get_blocked b s"
  by (simp_all add: with_flags_def)

lemma take_seat_blocked [simp]:
  "get_blocked b (take_seat b t xs s) = first (xs @ [t])"
  "b' \<noteq> b \<Longrightarrow> get_blocked b' (take_seat b t xs s) = get_blocked b' s"
  "nblocked_of (take_seat b t xs s) x =
     (if x \<in> set (xs @ [t]) then next_in (xs @ [t]) x else nblocked_of s x)"
  by (simp_all add: take_seat_def block_list_def Let_def put_blocked_task relink_def)

lemma is_blocked_take_seat:
  "distinct (xs @ [t]) \<Longrightarrow> is_blocked b (take_seat b t xs s) (xs @ [t])"
  unfolding is_blocked_def chain_iff by simp

lemma seated_take_seat: "seated_at b (task (take_seat b t xs s) t)"
  by (cases b) (simp_all add: take_seat_def Let_def)

lemma take_seat_task:
  "task (take_seat b t xs s) y =
    (if y = t then seat b (relink set_nblocked (xs @ [t]) (task s) t)
     else relink set_nblocked (xs @ [t]) (task s) y)"
  by (simp add: take_seat_def Let_def)

lemma waits_for_entered:
  assumes "waits_for (task s t) None" and "\<And>p. b \<noteq> Semaphore_blocked p"
  shows "waits_for (task (entered b t xs s) t) (Some b)"
  using assms
  by (cases b) (auto simp: entered_def with_flags_def take_seat_task relink_def)

lemma waits_for_entered_other:
  assumes "x \<noteq> t"
  shows "waits_for (task (entered b t xs s) x) w = waits_for (task s x) w"
  using assms
  by (intro waits_for_cong) (simp_all add: entered_def with_flags_def take_seat_task relink_def)

lemma rooms_enter:
  assumes ok: "rooms_ok s L" and w: "waits_for (task s t) None"
    and b: "\<And>p. b \<noteq> Semaphore_blocked p"
  shows "rooms_ok (entered b t (L b) s) (L(b := L b @ [t]))"
proof (rule rooms_ok_change [OF ok])
  note out = not_in_rooms(1) [OF ok w]
  have "distinct (L b @ [t])" using is_blocked_distinct [OF rooms_okD(1) [OF ok]] out by auto
  then show "is_blocked b (entered b t (L b) s) (L b @ [t])"
    using is_blocked_take_seat by (simp add: entered_def is_blocked_def)
  show "waits_for (task (entered b t (L b) s) x) (Some b)" if "x \<in> set (L b @ [t])" for x
    using that waits_for_entered [OF w b] waits_for_entered_other rooms_okD(2) [OF ok]
    by (cases "x = t") auto
  show "get_blocked c (entered b t (L b) s) = get_blocked c s" if "c \<noteq> b" for c
    using that by (simp add: entered_def)
  fix x c assume c: "c \<noteq> b" "x \<in> set (L c)"
  then have "x \<noteq> t" using out by auto
  then show "x \<notin> set (L b @ [t]) \<and>
      waits_for (task (entered b t (L b) s) x) (Some c) = waits_for (task s x) (Some c)"
    using rooms_disjoint [OF ok c(2), of b] c(1) waits_for_entered_other by auto
qed (simp_all add: entered_def)

text \<open>
  What \<open>blocked_enq\<close> and \<open>blocked_deq\<close> of an object promise: a task goes to the end of the
  list and records where it is, the first one comes out.
\<close>

locale waiting_room =
  fixes room :: "nat \<Rightarrow> blocked_ref"
    and enq :: "nat \<Rightarrow> task_ptr \<Rightarrow> unit os"
    and deq :: "nat \<Rightarrow> task_ptr option os"
  assumes enq_behind: "is_blocked (room p) s xs \<Longrightarrow> t \<notin> set xs \<Longrightarrow> nblocked_of s t = None \<Longrightarrow>
      standing (room p) (task s t) \<Longrightarrow> enq p t s = Some (Inr ((), take_seat (room p) t xs s))"
    and deq_empty: "is_blocked (room p) s [] \<Longrightarrow> deq p s = Some (Inr (None, s))"
    and deq_head: "is_blocked (room p) s (t # xs) \<Longrightarrow> seated_at (room p) (task s t) \<Longrightarrow>
      deq p s = Some (Inr (Some t, leave_list (room p) t (t # xs) s))"
begin

text \<open>First come, first served: the tasks come out in the order in which they went in.\<close>

fun enqs :: "nat \<Rightarrow> task_ptr list \<Rightarrow> unit os" where
  "enqs p [] = ret ()"
| "enqs p (t # ts) = bind (enq p t) (\<lambda>_. enqs p ts)"

fun deqs :: "nat \<Rightarrow> nat \<Rightarrow> task_ptr option list os" where
  "deqs p 0 = ret []"
| "deqs p (Suc n) = bind (deq p) (\<lambda>t. bind (deqs p n) (\<lambda>ts. ret (t # ts)))"

lemma enq_list:
  assumes "is_blocked (room p) s xs" and "t \<notin> set xs" and "nblocked_of s t = None"
    and "standing (room p) (task s t)"
  shows "\<exists>s'. enq p t s = Some (Inr ((), s')) \<and> is_blocked (room p) s' (xs @ [t]) \<and>
    seated_at (room p) (task s' t)"
  using enq_behind [OF assms] is_blocked_distinct [OF assms(1)] assms(2)
  by (intro exI [of _ "take_seat (room p) t xs s"])
    (auto intro!: is_blocked_take_seat seated_take_seat)

lemma deq_list:
  assumes "is_blocked (room p) s (t # xs)" and "seated_at (room p) (task s t)"
  shows "\<exists>s'. deq p s = Some (Inr (Some t, s')) \<and> is_blocked (room p) s' xs"
  using deq_head [OF assms] is_blocked_leave [OF assms(1), of t] by simp

lemma seated_at_leave [simp]:
  "seated_at b (task (leave_list b' t xs s) x) = seated_at b (task s x)"
  by (cases b) simp_all

lemma deqs_order:
  assumes "is_blocked (room p) s (xs @ ys)" and "\<forall>t\<in>set xs. seated_at (room p) (task s t)"
  shows "\<exists>s'. deqs p (length xs) s = Some (Inr (map Some xs, s')) \<and> is_blocked (room p) s' ys"
  using assms
proof (induction xs arbitrary: s)
  case (Cons x xs)
  let ?s = "leave_list (room p) x (x # xs @ ys) s"
  have d: "deq p s = Some (Inr (Some x, ?s))" using deq_head Cons.prems by simp
  have "is_blocked (room p) ?s (xs @ ys)" using is_blocked_leave [of _ s "x # xs @ ys" x] Cons.prems by simp
  moreover have "\<forall>t\<in>set xs. seated_at (room p) (task ?s t)" using Cons.prems(2) by simp
  ultimately obtain s' where "deqs p (length xs) ?s = Some (Inr (map Some xs, s'))"
    "is_blocked (room p) s' ys"
    using Cons.IH by blast
  with d show ?case by (auto simp: exec)
qed (simp add: exec)

end

end
