(* ===== verification/Invariant.thy ===== *)
theory Invariant
  imports Rooms
begin

text \<open>
  The invariant of the kernel between two system calls, the context switch that ends a call
  (\<open>src/src/arch/m4.s\<close>), and the lemma all blocking calls rest on: the calling task goes to
  the end of the object's list and the next task runs, with the invariant kept.
\<close>

section \<open>The context switch\<close>

text \<open>
  \<open>PendSV_Handler\<close>: \<open>sp\<close> is the stack pointer after the registers have been pushed, \<open>kind\<close>
  whether the frame is an extended one.  The registers themselves belong to the processor.
\<close>

definition PendSV_Handler :: "u32 \<Rightarrow> u8 \<Rightarrow> unit os" where
  "PendSV_Handler sp kind s =
     (if running s = scheduled s \<or> scheduled s = None then ret () s
      else
        block
          [bind running_task (\<lambda>r. upd_task r (\<lambda>x. x\<lparr>t_stack_kind := kind, t_sp := sp\<rparr>)),
           osi_stack_check,
           modify (\<lambda>s. s\<lparr>running := scheduled s\<rparr>),
           modify (\<lambda>s. s\<lparr>scheduled := None\<rparr>)] s)"

definition switched :: "u32 \<Rightarrow> u8 \<Rightarrow> task_ptr \<Rightarrow> kernel \<Rightarrow> kernel" where
  "switched sp kind r s =
     s\<lparr>task := (task s)(r := (task s r)\<lparr>t_stack_kind := kind, t_sp := sp\<rparr>),
       running := scheduled s, scheduled := None\<rparr>"

text \<open>The stack pointer lies in the stack of \<open>r\<close> and the word at its bottom is intact.\<close>

definition stack_ok :: "kernel \<Rightarrow> task_ptr \<Rightarrow> u32 \<Rightarrow> bool" where
  "stack_ok s r sp \<longleftrightarrow> t_stack (task s r) \<le> sp \<and> mem s (t_stack (task s r)) = OSH_STACK_MAGIC_WORD"

section \<open>The invariant\<close>

definition kernel_ok ::
  "kernel \<Rightarrow> task_ptr \<Rightarrow> task_ptr list \<Rightarrow> task_ptr list \<Rightarrow> (blocked_ref \<Rightarrow> task_ptr list) \<Rightarrow> bool" where
  "kernel_ok s r rs ws L \<longleftrightarrow>
     steady s r rs ws \<and> rooms_ok s L \<and> waits_for (task s r) None \<and>
     (\<forall>t\<in>set rs \<union> set ws. \<exists>w. waits_for (task s t) w) \<and>
     (\<forall>b. set (L b) \<subseteq> set rs \<union> set ws)"

lemma kernel_okD:
  assumes "kernel_ok s r rs ws L"
  shows "steady s r rs ws" "rooms_ok s L" "waits_for (task s r) None"
    and "t \<in> set rs \<union> set ws \<Longrightarrow> \<exists>w. waits_for (task s t) w"
    and "set (L b) \<subseteq> set rs \<union> set ws"
  using assms by (auto simp: kernel_ok_def)

lemma kernel_ok_waiters: "kernel_ok s r rs ws L \<Longrightarrow> waiters_ok s rs ws"
  unfolding waiters_ok_def using kernel_okD(2,4) waits_in_rooms by blast

text \<open>The next task's place, once the switch has been made.\<close>

lemma switched_simps [simp]:
  "running (switched sp kind r s) = scheduled s" "scheduled (switched sp kind r s) = None"
  "idle (switched sp kind r s) = idle s" "runqueue (switched sp kind r s) = runqueue s"
  "waitqueue (switched sp kind r s) = waitqueue s" "mem (switched sp kind r s) = mem s"
  "queue_at (switched sp kind r s) = queue_at s" "mutex_at (switched sp kind r s) = mutex_at s"
  "semaphore_at (switched sp kind r s) = semaphore_at s"
  "rwlock_at (switched sp kind r s) = rwlock_at s"
  "status_of (switched sp kind r s) x = status_of s x"
  "prio_of (switched sp kind r s) x = prio_of s x"
  "nrp_of (switched sp kind r s) x = nrp_of s x"
  "nblocked_of (switched sp kind r s) x = nblocked_of s x"
  "t_delay (task (switched sp kind r s) x) = t_delay (task s x)"
  "t_flags (task (switched sp kind r s) x) = t_flags (task s x)"
  "t_mutex (task (switched sp kind r s) x) = t_mutex (task s x)"
  "t_queue (task (switched sp kind r s) x) = t_queue (task s x)"
  "t_semaphore (task (switched sp kind r s) x) = t_semaphore (task s x)"
  "t_rwlock (task (switched sp kind r s) x) = t_rwlock (task s x)"
  by (simp_all add: switched_def)

lemma switched_more [simp]:
  "get_blocked b (switched sp kind r s) = get_blocked b s"
  "queues_ok (switched sp kind r s) rs ws = queues_ok s rs ws"
  "rooms_ok (switched sp kind r s) L = rooms_ok s L"
  "waits_for (task (switched sp kind r s) x) w = waits_for (task s x) w"
  "higher_exists (switched sp kind r s) x rs = higher_exists s x rs"
  "has_idle (switched sp kind r s) rs ws = has_idle s rs ws"
proof -
  show g: "get_blocked b (switched sp kind r s) = get_blocked b s" for b by (cases b) simp_all
  show "queues_ok (switched sp kind r s) rs ws = queues_ok s rs ws"
    by (rule queues_ok_cong) simp_all
  show w: "waits_for (task (switched sp kind r s) x) w = waits_for (task s x) w" for x w
    by (rule waits_for_cong) simp_all
  show "rooms_ok (switched sp kind r s) L = rooms_ok s L"
    by (rule rooms_ok_cong) (simp_all add: g w)
qed (simp_all add: higher_exists_def higher_def has_idle_def)

lemma PendSV_Handler_eq:
  assumes q: "queues_ok s rs ws" and r: "running s = Some r" and t: "scheduled s = Some t" "t \<noteq> r"
    and top: "t \<in> set rs" "\<forall>x\<in>set rs. \<not> higher s x t" and sp: "stack_ok s r sp"
  shows "PendSV_Handler sp kind s = Some (Inr ((), switched sp kind r s))"
proof -
  let ?s = "s\<lparr>task := (task s)(r := (task s r)\<lparr>t_stack_kind := kind, t_sp := sp\<rparr>)\<rparr>"
  have "queues_ok ?s rs ws = queues_ok s rs ws" by (rule queues_ok_cong) simp_all
  then have q': "queues_ok ?s rs ws" using q by simp
  have "higher ?s = higher s" by (rule higher_cong) simp
  then have "osi_priority_check (Some t) ?s = Some (Inr ((), ?s))"
    using top t(2) queues_okD(8) [OF q top(1)] by (intro priority_check_silent [OF queues_okD(4) [OF q']]) simp
  moreover have "\<not> sp < t_stack (task s r)" using sp by (simp add: stack_ok_def not_less)
  ultimately show ?thesis using r t sp
    by (simp add: PendSV_Handler_def running_task_def osi_stack_check_def exec switched_def stack_ok_def)
qed

text \<open>A dispatch that makes the best runnable task the next one restores the invariant.\<close>

lemma kernel_ok_dispatched:
  assumes q: "queues_ok (dispatched r t rs0 ws0 (left w t (room_list w L) s)) rs ws"
    and t: "t \<in> set rs" "\<forall>x\<in>set rs. \<not> higher s x t"
    and p: "\<forall>x\<in>set ws. prio_of s x \<le> 0xff" and i: "has_idle s rs ws"
    and ok: "rooms_ok s L" and w: "waits_for (task s t) w"
    and tk: "\<And>x. x \<in> set rs \<union> set ws \<Longrightarrow> \<exists>w. waits_for (task s x) w"
    and mem: "\<And>b. set (L b) \<subseteq> set rs \<union> set ws"
  shows "kernel_ok (switched sp kind r (dispatched r t rs0 ws0 (left w t (room_list w L) s)))
    t rs ws (leave_rooms w t L)"
proof -
  let ?s1 = "left w t (room_list w L) s"
  let ?s2 = "dispatched r t rs0 ws0 ?s1"
  have wf: "waits_for (task ?s2 x) v = waits_for (task ?s1 x) v" if "x \<noteq> t" for x v
    using that by (intro waits_for_cong) simp_all
  have wt: "waits_for (task ?s2 t) None"
    using rooms_leave(2) [OF ok w] by (simp add: waits_for.simps(1))
  have wfe: "waits_for (task ?s2 x) v = waits_for (task ?s1 x) v" for x v
    using wf wt rooms_leave(2) [OF ok w] waits_for_unique by (cases "x = t") blast+
  have lf: "waits_for (task ?s1 x) v = waits_for (task s x) v" if "x \<noteq> t" for x v
  proof (cases w)
    case (Some b)
    have "waits_for (task (leave_list b t (L b) s) x) v = waits_for (task s x) v"
      by (rule waits_for_cong) simp_all
    with Some that show ?thesis by (simp add: left_def room_list_def Let_def)
  qed (simp add: left_def)
  have "rooms_ok ?s2 (leave_rooms w t L) = rooms_ok ?s1 (leave_rooms w t L)"
    by (rule rooms_ok_cong) (simp_all add: wfe)
  then have r2: "rooms_ok ?s2 (leave_rooms w t L)" using rooms_leave(1) [OF ok w] by simp
  have "set (leave_rooms w t L b) \<subseteq> set rs \<union> set ws" for b
    using mem [of b] set_remove1_subset [of t "L b"]
    by (cases w) (auto simp: leave_rooms_def)
  moreover have "\<exists>v. waits_for (task ?s2 x) v" if "x \<in> set rs \<union> set ws" for x
    using tk [OF that] wt lf wfe by (cases "x = t") blast+
  moreover have "steady (switched sp kind r ?s2) t rs ws"
    using q t p i by (simp add: steady_def higher_exists_def higher_def has_idle_def)
  ultimately show ?thesis using r2 wt by (simp add: kernel_ok_def)
qed

section \<open>What stays the same\<close>

text \<open>
  Two states whose objects differ at most in their blocked lists, whose memories are equal, and
  whose tasks have the same stacks, priorities, handlers, signals and user data.
\<close>

definition mutex_rest :: "os_mutex_t \<Rightarrow> os_mutex_definition_t \<times> task_ptr option \<times> u16 \<times> u32" where
  "mutex_rest x = (m_def x, m_owner x, m_level x, m_flags x)"

definition queue_rest :: "os_queue_t \<Rightarrow>
    os_queue_definition_t \<times> u16 \<times> u16 \<times> u16 \<times> u16 \<times> os_queue_status_t \<times> u32 list" where
  "queue_rest x = (q_def x, q_size x, q_number x, q_first x, q_last x, q_status x, q_messages x)"

definition semaphore_rest :: "os_semaphore_t \<Rightarrow> os_semaphore_definition_t \<times> u32 \<times> u32" where
  "semaphore_rest x = (s_def x, s_tokens x, s_flags x)"

definition rwlock_rest :: "os_rwlock_t \<Rightarrow>
    os_rwlock_definition_t \<times> u16 \<times> u16 \<times> u32 \<times> task_ptr option" where
  "rwlock_rest x = (r_def x, r_readers x, r_writers x, r_flags x, r_writer x)"

definition task_rest :: "os_task_t \<Rightarrow> (u32 \<times> u32 \<times> u32 \<times> u8) \<times> (u32 \<times> u32 \<times> u32 \<times> u32 \<times> u32)" where
  "task_rest x = ((t_stack x, t_stack_size x, t_sp x, t_stack_kind x),
     (t_priority x, t_handler x, t_params x, t_signal x, t_user_data x))"

definition same_objects :: "kernel \<Rightarrow> kernel \<Rightarrow> bool" where
  "same_objects s s' \<longleftrightarrow> mem s' = mem s \<and> target s' = target s \<and>
     running s' = running s \<and> (\<forall>x. task_rest (task s' x) = task_rest (task s x)) \<and>
     (\<forall>m. mutex_rest (mutex_at s' m) = mutex_rest (mutex_at s m)) \<and>
     (\<forall>q. queue_rest (queue_at s' q) = queue_rest (queue_at s q)) \<and>
     (\<forall>p. semaphore_rest (semaphore_at s' p) = semaphore_rest (semaphore_at s p)) \<and>
     (\<forall>r. rwlock_rest (rwlock_at s' r) = rwlock_rest (rwlock_at s r))"

lemmas rest_defs = task_rest_def mutex_rest_def queue_rest_def semaphore_rest_def rwlock_rest_def

lemma same_objects_refl [simp]: "same_objects s s"
  by (simp add: same_objects_def)

lemma same_objects_eqI:
  "mem s' = mem s \<Longrightarrow> target s' = target s \<Longrightarrow> running s' = running s \<Longrightarrow>
   (\<And>x. task_rest (task s' x) = task_rest (task s x)) \<Longrightarrow> mutex_at s' = mutex_at s \<Longrightarrow> queue_at s' = queue_at s \<Longrightarrow>
   semaphore_at s' = semaphore_at s \<Longrightarrow> rwlock_at s' = rwlock_at s \<Longrightarrow> same_objects s s'"
  by (simp add: same_objects_def)

lemma same_objects_trans: "same_objects s s' \<Longrightarrow> same_objects s' s'' \<Longrightarrow> same_objects s s''"
  by (auto simp: same_objects_def)

lemma same_objects_put_blocked:
  "(\<And>x. task_rest (h x) = task_rest (task s x)) \<Longrightarrow>
   same_objects s ((put_blocked b p s)\<lparr>task := h\<rparr>)"
  by (cases b) (auto simp: same_objects_def rest_defs)

lemma same_objects_leave_list: "same_objects s (leave_list b t xs s)"
  by (simp add: leave_list_def block_list_def unblock_def put_blocked_task)
    (auto intro!: same_objects_put_blocked simp: relink_def task_rest_def)

lemma same_objects_left: "same_objects s (left w t xs s)"
proof (cases w)
  case (Some b)
  have "same_objects (leave_list b t xs s) (left w t xs s)"
    using Some by (simp add: left_def Let_def same_objects_eqI task_rest_def)
  with same_objects_leave_list show ?thesis using same_objects_trans by blast
qed (simp add: left_def)

lemma same_objects_take_seat: "same_objects s (take_seat b t xs s)"
  by (simp add: take_seat_def Let_def block_list_def put_blocked_task)
    (auto intro!: same_objects_put_blocked simp: relink_def task_rest_def)

lemma same_objects_wake: "same_objects s (wake_state s rs ws)"
  by (auto simp: wake_state_def task_rest_def intro!: same_objects_eqI split: option.split)

lemma same_objects_dispatched: "same_objects s (dispatched r t rs ws s)"
  by (rule same_objects_eqI) (simp_all add: task_rest_def)

lemma same_objects_scheduled:
  "same_objects s (dispatched r t rs' ws' (left w t xs (wake_state s rs ws)))"
  using same_objects_trans [OF same_objects_wake same_objects_left] same_objects_dispatched
    same_objects_trans by blast

lemma same_objectsD:
  assumes "same_objects s s'"
  shows "mem s' = mem s" "target s' = target s" "running s' = running s"
    and "t_stack (task s' x) = t_stack (task s x)"
    and "t_sp (task s' x) = t_sp (task s x)"
    and "t_stack_kind (task s' x) = t_stack_kind (task s x)"
    and "prio_of s' x = prio_of s x"
    and "t_signal (task s' x) = t_signal (task s x)"
    and "m_owner (mutex_at s' m) = m_owner (mutex_at s m)"
    and "m_level (mutex_at s' m) = m_level (mutex_at s m)"
    and "m_flags (mutex_at s' m) = m_flags (mutex_at s m)"
    and "m_def (mutex_at s' m) = m_def (mutex_at s m)"
    and "q_def (queue_at s' q) = q_def (queue_at s q)"
    and "q_size (queue_at s' q) = q_size (queue_at s q)"
    and "q_number (queue_at s' q) = q_number (queue_at s q)"
    and "q_first (queue_at s' q) = q_first (queue_at s q)"
    and "q_last (queue_at s' q) = q_last (queue_at s q)"
    and "q_status (queue_at s' q) = q_status (queue_at s q)"
    and "q_messages (queue_at s' q) = q_messages (queue_at s q)"
    and "s_tokens (semaphore_at s' p) = s_tokens (semaphore_at s p)"
    and "r_readers (rwlock_at s' r) = r_readers (rwlock_at s r)"
    and "r_writers (rwlock_at s' r) = r_writers (rwlock_at s r)"
    and "r_writer (rwlock_at s' r) = r_writer (rwlock_at s r)"
  using assms by (auto simp: same_objects_def rest_defs)

text \<open>What does not touch the contents of any object but \<open>b\<close>.\<close>

definition others_kept :: "blocked_ref \<Rightarrow> kernel \<Rightarrow> kernel \<Rightarrow> bool" where
  "others_kept b s s' \<longleftrightarrow>
     (\<forall>m. b \<noteq> Mutex_blocked m \<longrightarrow> mutex_rest (mutex_at s' m) = mutex_rest (mutex_at s m)) \<and>
     (\<forall>q. b \<noteq> Queue_blocked q \<longrightarrow> queue_rest (queue_at s' q) = queue_rest (queue_at s q)) \<and>
     (\<forall>p. b \<noteq> Semaphore_blocked p \<longrightarrow> semaphore_rest (semaphore_at s' p) = semaphore_rest (semaphore_at s p)) \<and>
     (\<forall>l. b \<noteq> Rwlock_blocked l \<longrightarrow> rwlock_rest (rwlock_at s' l) = rwlock_rest (rwlock_at s l))"

lemma others_kept_objects: "same_objects s s' \<Longrightarrow> others_kept b s s'"
  by (simp add: others_kept_def same_objects_def)

lemma others_kept_trans: "others_kept b s s' \<Longrightarrow> others_kept b s' s'' \<Longrightarrow> others_kept b s s''"
  by (simp add: others_kept_def)

lemma others_kept_inert:
  "mutex_at s' = mutex_at s \<Longrightarrow> queue_at s' = queue_at s \<Longrightarrow> semaphore_at s' = semaphore_at s \<Longrightarrow>
   rwlock_at s' = rwlock_at s \<Longrightarrow> others_kept b s s'"
  by (simp add: others_kept_def)

section \<open>Blocking on an object\<close>

text \<open>The wake-up time of a wait of \<open>ms\<close>, and when such a wait is possible.\<close>

definition wake_time :: "kernel \<Rightarrow> u32 \<Rightarrow> u32" where
  "wake_time s ms = (if ms = UINT32_MAX then UINT32_MAX else uptime s + ms)"

definition may_wait :: "kernel \<Rightarrow> task_ptr \<Rightarrow> u32 \<Rightarrow> bool" where
  "may_wait s r ms \<longleftrightarrow> prio_of s r \<noteq> 0 \<and>
     (ms = UINT32_MAX \<or> uptime s < uptime s + ms \<and> uptime s + ms \<noteq> UINT32_MAX)"

lemma queues_ok_entered: "queues_ok (entered b t xs s) rs ws = queues_ok s rs ws"
  by (rule queues_ok_cong) (simp_all add: entered_def)

lemma steady_entered: "steady (entered b r xs s) r' rs ws = steady s r' rs ws"
  using queues_ok_entered
  by (simp add: steady_def higher_exists_def higher_def has_idle_def) (simp add: entered_def)

lemma same_objects_entered: "same_objects s (entered b t xs s)"
proof -
  have "same_objects (take_seat b t xs s) (entered b t xs s)"
    by (simp add: entered_def same_objects_eqI task_rest_def)
  with same_objects_take_seat show ?thesis by (rule same_objects_trans)
qed

text \<open>
  What a blocking call achieves: the calling task \<open>r\<close> waits, at the end of the room \<open>b\<close>,
  another task \<open>t\<close> is on its way to run, and after the context switch the invariant holds
  for it.
\<close>

definition gave_way ::
  "kernel \<Rightarrow> task_ptr \<Rightarrow> u32 \<Rightarrow> (blocked_ref \<Rightarrow> task_ptr list) \<Rightarrow> kernel \<Rightarrow> bool" where
  "gave_way s r ms L s' \<longleftrightarrow>
     running s' = Some r \<and>
     (\<exists>t rs ws w. t \<noteq> r \<and> scheduled s' = Some t \<and> status_of s' r = OS_TASK_STATUS_WAIT \<and>
        r \<in> set ws \<and> t_delay (task s' r) = wake_time s ms \<and> t_c (task s' r) = t_c (task s r) \<and>
        (\<forall>sp kind. kernel_ok (switched sp kind r s') t rs ws (leave_rooms w t L)))"

lemma delay_gives_way:
  assumes st: "steady s r rs ws" and ok: "rooms_ok s L"
    and tk: "\<And>t. t \<in> set rs \<union> set ws \<Longrightarrow> \<exists>w. waits_for (task s t) w"
    and mem: "\<And>b. set (L b) \<subseteq> set rs \<union> set ws" and ms: "may_wait s r ms"
  obtains s' where "svc_delay ms s = Some (Inr (OSS_ERROR_TO, s'))" "gave_way s r ms L s'"
    "same_objects s s'"
proof -
  let ?d = "wake_time s ms"
  let ?s = "delayed s r rs ws ?d" and ?ra = "remove1 r rs" and ?wa = "delayed_wait s r ws ?d"
  note sd = steadyD [OF st]
  have wt: "waiters_ok s rs ws" unfolding waiters_ok_def using tk waits_in_rooms [OF ok] by blast
  have c: "can_delay s r rs ws ?d"
    using st wt ms by (auto simp: can_delay_def may_wait_def wake_time_def)
  let ?rs = "wake_run ?s ?ra ?wa" and ?ws = "wake_wait ?s ?wa" and ?s1 = "wake_state ?s ?ra ?wa"
  obtain t w0 xs0 s0 where t: "first ?rs = Some t" "t \<noteq> r" "waits_in s t w0 xs0"
    and sched0: "osi_schedule ?s = Some (Inr (OSS_SUCCESS, s0))"
    and s0: "s0 = dispatched r t ?rs ?ws (left w0 t xs0 ?s1)" and q0: "queues_ok s0 ?rs ?ws"
    by (rule delay_schedule [OF c])
  obtain s' where s': "svc_delay ms s = Some (Inr (OSS_ERROR_TO, s'))"
      "osi_schedule ?s = Some (Inr (OSS_SUCCESS, s'))"
  proof (rule svc_delay_eq [OF c])
    show "?d = (if ms = UINT32_MAX then UINT32_MAX else uptime s + ms)" by (simp add: wake_time_def)
    show "ms \<noteq> UINT32_MAX \<Longrightarrow> ?d \<noteq> UINT32_MAX" using ms by (simp add: wake_time_def may_wait_def)
  qed
  with sched0 have eq: "s' = s0" by simp
  have w0: "waits_for (task s t) w0" using t(3) by (simp add: waits_in_def)
  have xs0: "xs0 = room_list w0 L"
    using t(3) rooms_okD(1) [OF ok] is_blocked_unique
    by (auto simp: waits_in_def room_list_def split: option.splits)
  have rs: "set rs = insert r (set ?ra)" using sd(4) queues_okD(15) [OF sd(1)] by auto
  have sub: "set ?wa = insert r (set ws)" by (simp add: delayed_wait_def)
  have all: "set ?rs \<union> set ?ws = set rs \<union> set ws"
  proof -
    have "distinct ?wa" using queues_okD(16) [OF delayed_eq(2) [OF sd(1,4)]] .
    then have "set ?rs \<union> set ?ws = set ?ra \<union> set ?wa"
      by (auto simp: wake_run_def wake_wait_def woken_def split: option.splits list.splits if_splits)
    then show ?thesis using rs sub by auto
  qed
  have q1: "queues_ok ?s1 ?rs ?ws"
    using wake_loop_eq(2) [OF delayed_eq(2) [OF sd(1,4)]] sd(7) queues_okD(8) [OF sd(1,4)] sub by auto
  have tr: "t \<in> set ?rs" using t(1) by (cases ?rs) auto
  have nw: "woken ?s ?wa \<noteq> Some r"
    using ms by (auto simp: woken_iff due_def wake_time_def may_wait_def)
  have rws: "r \<in> set ?ws"
    using nw sub by (auto simp: wake_wait_def split: option.split)
  have wf: "waits_for (task ?s1 x) v = waits_for (task s x) v" for x v
  proof -
    have "t_flags (task ?s1 x) = t_flags (task s x)" "t_mutex (task ?s1 x) = t_mutex (task s x)"
      "t_queue (task ?s1 x) = t_queue (task s x)" "t_semaphore (task ?s1 x) = t_semaphore (task s x)"
      "t_rwlock (task ?s1 x) = t_rwlock (task s x)"
      by (simp_all add: wake_state_def delayed_def with_delay_def split: option.split)
    then show ?thesis by (rule waits_for_cong)
  qed
  have nb: "nblocked_of ?s1 x = nblocked_of s x" for x
    by (simp add: wake_state_def delayed_def split: option.split)
  have "rooms_ok ?s1 L = rooms_ok s L" by (rule rooms_ok_cong) (simp_all add: wf nb)
  then have r1: "rooms_ok ?s1 L" using ok by simp
  have top: "\<forall>x\<in>set ?rs. \<not> higher ?s1 x t"
  proof -
    obtain ys where ys: "?rs = t # ys" using t(1) by (auto simp: first_Some)
    have "\<forall>x\<in>set ys. \<not> higher ?s1 x t" using queues_okD(5) [OF q1] unfolding ys by simp
    then show ?thesis unfolding ys by (simp add: higher_def)
  qed
  have hi: "has_idle ?s1 ?rs ?ws"
  proof (rule has_idle_cong [OF sd(8), of _ r])
    show "idle s \<noteq> Some r" using sd(8) ms by (auto simp: has_idle_def may_wait_def)
    show "set rs - {r} \<subseteq> set ?rs" using rs wake_run_superset [of ?ra] by blast
    show "set ?rs \<union> set ?ws \<subseteq> set rs \<union> set ws" using all by simp
  qed simp_all
  have ko: "kernel_ok (switched sp kind r s0) t ?rs ?ws (leave_rooms w0 t L)" for sp kind
    unfolding s0 xs0
  proof (rule kernel_ok_dispatched [OF _ tr top _ hi r1])
    show "queues_ok (dispatched r t ?rs ?ws (left w0 t (room_list w0 L) ?s1)) ?rs ?ws"
      using q0 s0 xs0 by simp
    show "\<forall>x\<in>set ?ws. prio_of ?s1 x \<le> 0xff"
      using sd(7) queues_okD(8) [OF sd(1)] all by auto
    show "waits_for (task ?s1 t) w0" using w0 wf by simp
    show "\<exists>w. waits_for (task ?s1 x) w" if "x \<in> set ?rs \<union> set ?ws" for x
      using tk [of x] that all wf by auto
    show "set (L b) \<subseteq> set ?rs \<union> set ?ws" for b using mem all by simp
  qed
  have st0: "status_of s0 r = OS_TASK_STATUS_WAIT" "t_delay (task s0 r) = ?d"
    using t(2) nw s0 by (simp_all add: dispatched_status wake_state_status)
      (simp add: wake_state_def split: option.split)
  have c0: "t_c (task s0 r) = t_c (task s r)"
    using t(2) s0
    by (simp add: left_def wake_state_def delayed_def with_delay_def Let_def split: option.split)
  have same: "same_objects s s0"
  proof -
    have "same_objects s ?s" by (rule same_objects_eqI) (simp_all add: delayed_def with_delay_def task_rest_def)
    then show ?thesis unfolding s0 using same_objects_scheduled same_objects_trans by blast
  qed
  have r0: "running s0 = Some r" using same sd(2) by (simp add: same_objects_def)
  have "gave_way s r ms L s0"
    unfolding gave_way_def using t(2) st0 rws ko s0 c0 r0 by (auto intro!: exI)
  then show thesis using that s'(1) same eq by simp
qed

lemma kernel_ok_flags:
  assumes k: "kernel_ok s r rs ws L"
  shows "t_flags (task s r) = 0" "t_mutex (task s r) = None" "t_queue (task s r) = None"
    "t_semaphore (task s r) = None" "t_rwlock (task s r) = None" "nblocked_of s r = None"
    "running s = Some r" "scheduled s = None"
  using kernel_okD(3) [OF k] not_in_rooms(2) [OF kernel_okD(2) [OF k] kernel_okD(3) [OF k]]
    steadyD(2,3) [OF kernel_okD(1) [OF k]]
  by auto

lemma may_wait_entered: "may_wait (entered b r xs s) r ms = may_wait s r ms"
  by (simp add: may_wait_def entered_def)

text \<open>Taking a seat in the room \<open>b\<close> and calling \<open>svc_block\<close>.\<close>

lemma block_in_room:
  assumes k: "kernel_ok s r rs ws L" and ms: "may_wait s r ms"
    and b: "\<And>p. b \<noteq> Semaphore_blocked p"
  obtains s' where "svc_block ms (room_flag b) (take_seat b r (L b) s) = Some (Inr (OSS_ERROR_TO, s'))"
    "gave_way s r ms (L(b := L b @ [r])) s'" "same_objects s s'"
proof -
  let ?s = "entered b r (L b) s" and ?L = "L(b := L b @ [r])"
  note kd = kernel_okD [OF k] and fl = kernel_ok_flags [OF k]
  have blk: "svc_block ms (room_flag b) (take_seat b r (L b) s) = svc_delay ms ?s"
    using fl by (simp add: svc_block_def running_task_def exec entered_def with_flags_def)
  have rm: "rooms_ok ?s ?L" using rooms_enter [OF kd(2,3) b] .
  have tk: "\<exists>w. waits_for (task ?s t) w" if "t \<in> set rs \<union> set ws" for t
    using waits_for_entered [OF kd(3) b] waits_for_entered_other kd(4) [OF that]
    by (cases "t = r") blast+
  have mem: "set (?L c) \<subseteq> set rs \<union> set ws" for c
    using kd(5) steadyD(4) [OF kd(1)] by auto
  have st: "steady ?s r rs ws" using kd(1) by (simp add: steady_entered)
  obtain s' where s': "svc_delay ms ?s = Some (Inr (OSS_ERROR_TO, s'))"
    "gave_way ?s r ms ?L s'" "same_objects ?s s'"
    using delay_gives_way [OF st rm tk mem] ms may_wait_entered by metis
  have "wake_time ?s ms = wake_time s ms" "t_c (task ?s r) = t_c (task s r)"
    by (simp_all add: wake_time_def entered_def)
  then have "gave_way s r ms ?L s'" using s'(2) by (simp only: gave_way_def)
  moreover have "same_objects s s'" using same_objects_entered s'(3) by (rule same_objects_trans)
  ultimately show thesis using that blk s'(1) by simp
qed

section \<open>Handing over\<close>

text \<open>
  What handing something to the first blocked task \<open>t\<close> does: it leaves the room \<open>b\<close>, and
  \<open>osi_dispatch_or_queue\<close> either makes it the next task, when it is at least as important as the
  running one, or puts it into the run queue and lets the scheduler choose.
\<close>

lemma rooms_deq:
  assumes ok: "rooms_ok s L" and xs: "L b = t # ys"
  shows "rooms_ok (leave_list b t (L b) s) (L(b := ys))"
proof (rule rooms_ok_change [OF ok])
  have wf: "waits_for (task (leave_list b t (L b) s) x) v = waits_for (task s x) v" for x v
    by (rule waits_for_cong) simp_all
  have d: "distinct (t # ys)" using is_blocked_distinct [OF rooms_okD(1) [OF ok, of b]] xs by simp
  show "is_blocked b (leave_list b t (L b) s) ys"
    using is_blocked_leave [OF rooms_okD(1) [OF ok, of b], of t] xs by simp
  show "waits_for (task (leave_list b t (L b) s) x) (Some b)" if "x \<in> set ys" for x
    using rooms_okD(2) [OF ok, of x b] that xs wf by simp
  show "get_blocked c (leave_list b t (L b) s) = get_blocked c s" if "c \<noteq> b" for c
    using leave_list_blocked(1) [OF that] .
  show "nblocked_of (leave_list b t (L b) s) x = nblocked_of s x" if "x \<notin> set ys" "x \<notin> set (L b)" for x
    using leave_list_blocked(2) [OF that(2)] .
  show "nblocked_of (leave_list b t (L b) s) x = None" if "x \<in> set (L b)" "x \<notin> set ys" for x
    using that xs leave_list_blocked(3) [of t "L b" b s] by auto
  show "x \<notin> set ys \<and> waits_for (task (leave_list b t (L b) s) x) (Some c) = waits_for (task s x) (Some c)"
    if "c \<noteq> b" "x \<in> set (L c)" for x c
    using rooms_disjoint [OF ok that(2), of b] that(1) xs wf by auto
qed

lemma queues_ok_leave_list: "queues_ok (leave_list b t xs s) rs ws = queues_ok s rs ws"
  by (rule queues_ok_cong) simp_all

lemma runqueue_has_higher_steady:
  assumes st: "steady s r rs ws"
  shows "runqueue_has_higher_priority t s = Some (Inr (prio_of s r > prio_of s t, s))"
proof -
  note sd = steadyD [OF st]
  have "(\<exists>x\<in>set rs. os_task_status_is_running (status_of s x) \<and> higher s x t) \<longleftrightarrow>
      prio_of s r > prio_of s t"
  proof
    assume "\<exists>x\<in>set rs. os_task_status_is_running (status_of s x) \<and> higher s x t"
    then obtain x where "x \<in> set rs" "prio_of s x > prio_of s t" by (auto simp: higher_def)
    then show "prio_of s r > prio_of s t" using sd(6) [of x] by (auto simp: higher_def not_less)
  next
    assume "prio_of s r > prio_of s t"
    then show "\<exists>x\<in>set rs. os_task_status_is_running (status_of s x) \<and> higher s x t"
      using sd(4) queues_okD(7) [OF sd(1,4)] by (auto simp: higher_def)
  qed
  then show ?thesis using runqueue_has_higher_priority_eq [OF queues_okD(2) [OF sd(1)], of t] by simp
qed

text \<open>
  After a call that does not block: either no switch is pending and the invariant holds for
  the same running task, or a better task is to run next and it will hold for that one.
\<close>

definition settled :: "task_ptr \<Rightarrow> (blocked_ref \<Rightarrow> task_ptr list) \<Rightarrow> kernel \<Rightarrow> bool" where
  "settled r L s' \<longleftrightarrow>
     (\<exists>rs ws. kernel_ok s' r rs ws L) \<or>
     running s' = Some r \<and>
     (\<exists>t rs ws w. t \<noteq> r \<and> scheduled s' = Some t \<and>
        (\<forall>sp kind. kernel_ok (switched sp kind r s') t rs ws (leave_rooms w t L)))"

lemma settledI:
  "running s' = Some r \<Longrightarrow> t \<noteq> r \<Longrightarrow> scheduled s' = Some t \<Longrightarrow>
   (\<And>sp kind. kernel_ok (switched sp kind r s') t rs ws (leave_rooms w t L)) \<Longrightarrow> settled r L s'"
  unfolding settled_def by blast

lemma has_idle_mono:
  assumes i: "has_idle s rs ws" and "\<And>x. prio_of s' x = prio_of s x" and "idle s' = idle s"
    and "set rs \<subseteq> set rs'" and "set rs' \<union> set ws' = set rs \<union> set ws"
  shows "has_idle s' rs' ws'"
proof -
  obtain j where "j \<in> set rs" "idle s = Some j" "prio_of s j = 0"
    "\<And>x. x \<in> set rs \<union> set ws \<Longrightarrow> prio_of s x = 0 \<Longrightarrow> x = j"
    using i by (auto simp: has_idle_def)
  then show ?thesis using assms(2-5) unfolding has_idle_def by (intro bexI [of _ j]) auto
qed

lemma choice_exists:
  assumes "r \<in> set rs" and "distinct rs"
  obtains c where "choice s r rs = Some c"
proof -
  obtain as bs where rs: "rs = as @ r # bs" using assms(1) by (auto simp: in_set_conv_decomp)
  then have "r \<in> set (rotation rs r)" using rotation_split assms(2) by simp
  then have "find (\<lambda>x. prio_of s x = prio_of s r) (rotation rs r) \<noteq> None"
    by (auto simp: find_None_iff)
  moreover have "first rs \<noteq> None" using rs by simp
  ultimately show thesis using that unfolding choice_def by (metis not_None_eq)
qed

text \<open>
  The scheduler does not need the running task to be among the best: the idle task that the
  system starts with is not, nor is a task that has just made a better one runnable.
\<close>

definition ready :: "kernel \<Rightarrow> task_ptr \<Rightarrow> task_ptr list \<Rightarrow> task_ptr list \<Rightarrow> bool" where
  "ready s r rs ws \<longleftrightarrow>
     queues_ok s rs ws \<and> running s = Some r \<and> scheduled s = None \<and> r \<in> set rs \<and>
     status_of s r = OS_TASK_STATUS_ACTIVE \<and> (\<forall>w\<in>set ws. prio_of s w \<le> 0xff) \<and> has_idle s rs ws"

lemma readyD:
  assumes "ready s r rs ws"
  shows "queues_ok s rs ws" "running s = Some r" "scheduled s = None" "r \<in> set rs"
    "status_of s r = OS_TASK_STATUS_ACTIVE" "\<forall>w\<in>set ws. prio_of s w \<le> 0xff" "has_idle s rs ws"
  using assms by (auto simp: ready_def)

lemma schedule_ready:
  assumes st: "ready s r rs ws" and ok: "rooms_ok s L" and wr: "waits_for (task s r) None"
    and tk: "\<And>t. t \<in> set rs \<union> set ws \<Longrightarrow> \<exists>w. waits_for (task s t) w"
    and mem: "\<And>b. set (L b) \<subseteq> set rs \<union> set ws"
  obtains s' where "osi_schedule s = Some (Inr (OSS_SUCCESS, s'))" "settled r L s'" "same_objects s s'"
proof -
  let ?rs = "wake_run s rs ws" and ?ws = "wake_wait s ws" and ?s1 = "wake_state s rs ws"
  note sd = readyD [OF st]
  have q1: "queues_ok ?s1 ?rs ?ws" using wake_loop_eq(2) [OF sd(1,6)] .
  have rr: "r \<in> set ?rs" using sd(4) wake_run_superset by blast
  have can: "can_schedule s r rs ws"
    using sd rr by (simp add: can_schedule_def choice_ends_def)
  have all: "set ?rs \<union> set ?ws = set rs \<union> set ws"
    using queues_okD(16) [OF sd(1)]
    by (auto simp: wake_run_def wake_wait_def woken_def split: option.splits list.splits if_splits)
  have wf: "waits_for (task ?s1 x) v = waits_for (task s x) v" for x v
    by (rule waits_for_cong) (simp_all add: wake_state_def split: option.split)
  have nb: "nblocked_of ?s1 x = nblocked_of s x" for x
    by (simp add: wake_state_def split: option.split)
  have "rooms_ok ?s1 L = rooms_ok s L" by (rule rooms_ok_cong) (simp_all add: wf nb)
  then have r1: "rooms_ok ?s1 L" using ok by simp
  have nidle: "has_idle ?s1 ?rs ?ws"
    by (rule has_idle_mono [OF sd(7)]) (use wake_run_superset all in auto)
  have tk1: "\<exists>w. waits_for (task ?s1 x) w" if "x \<in> set ?rs \<union> set ?ws" for x
    using tk [of x] that all wf by auto
  have p1: "\<forall>x\<in>set ?ws. prio_of ?s1 x \<le> 0xff"
    using sd(6) queues_okD(8) [OF sd(1)] all by auto
  obtain c where c: "choice ?s1 r ?rs = Some c"
    using choice_exists [OF rr queues_okD(15) [OF q1]] by blast
  have top: "c \<in> set ?rs" "\<forall>x\<in>set ?rs. \<not> higher ?s1 x c" using choice_not_lower [OF q1 c] by auto
  show thesis
  proof (cases "c = r")
    case True
    have "osi_schedule s = Some (Inr (OSS_SUCCESS, ?s1))"
      using osi_schedule_eq(1) [OF can c] True by simp
    moreover have "woken s ws \<noteq> Some r"
      using sd(1,4) queues_okD(10) by (force simp: woken_iff)
    then have "steady ?s1 r ?rs ?ws"
      using sd q1 rr top p1 nidle True
      by (auto simp: steady_def higher_exists_def wake_state_status)
    then have "kernel_ok ?s1 r ?rs ?ws L"
      using r1 wr tk1 mem all by (simp add: kernel_ok_def wf del: waits_for.simps)
    ultimately show thesis using that same_objects_wake settled_def by blast
  next
    case False
    obtain w where w: "waits_for (task s c) w" using tk1 [of c] top(1) wf by auto
    have wi: "waits_in s c w (room_list w L)" using waits_in_rooms [OF ok w] .
    have idle: "length ?rs = 1" if "idle s = Some c"
    proof -
      have "prio_of s c = 0" using that sd(7) by (auto simp: has_idle_def)
      then have "prio_of s r = 0" using top(2) rr by (auto simp: higher_def word_gt_0)
      then have "idle s = Some r" using sd(4,7) by (auto simp: has_idle_def)
      with that False show ?thesis by simp
    qed
    let ?s2 = "dispatched r c ?rs ?ws (left w c (room_list w L) ?s1)"
    have sched: "osi_schedule s = Some (Inr (OSS_SUCCESS, ?s2))"
      by (rule osi_schedule_eq(2) [OF can c refl False wi idle])
    have "queues_ok ?s2 ?rs ?ws"
      by (rule osi_schedule_eq(3) [OF can c refl False wi idle])
    then have "kernel_ok (switched sp kind r ?s2) c ?rs ?ws (leave_rooms w c L)" for sp kind
      by (rule kernel_ok_dispatched [OF _ top p1 nidle r1]) (use w wf tk1 mem all in auto)
    note ko = this
    have "settled r L ?s2" by (rule settledI [OF _ False _ ko]) (use sd(2) in simp_all)
    then show thesis using that sched same_objects_scheduled by blast
  qed
qed

lemma schedule_steady:
  assumes "steady s r rs ws" and "rooms_ok s L" and "waits_for (task s r) None"
    and "\<And>t. t \<in> set rs \<union> set ws \<Longrightarrow> \<exists>w. waits_for (task s t) w"
    and "\<And>b. set (L b) \<subseteq> set rs \<union> set ws"
  obtains s' where "osi_schedule s = Some (Inr (OSS_SUCCESS, s'))" "settled r L s'" "same_objects s s'"
proof (rule schedule_ready [OF _ assms(2-5)])
  show "ready s r rs ws" using steadyD [OF assms(1)] by (simp add: ready_def)
qed

lemma hand_over:
  assumes st: "steady s r rs ws" and ok: "rooms_ok s L" and wr: "waits_for (task s r) None"
    and tk: "\<And>x. x \<in> set rs \<union> set ws \<Longrightarrow> \<exists>w. waits_for (task s x) w"
    and mem: "\<And>b. set (L b) \<subseteq> set rs \<union> set ws"
    and t: "t \<in> set rs \<union> set ws" "t \<noteq> r"
  obtains s' where "osi_dispatch_or_queue t s = Some (Inr (OSS_SUCCESS, s'))" "settled r L s'"
    "same_objects s s'" "prio_of s r \<le> prio_of s t \<longrightarrow> scheduled s' = Some t"
proof -
  note sd = steadyD [OF st] and hp = runqueue_has_higher_steady [OF st, of t]
  have pt: "prio_of s t \<le> 0xff" using t(1) sd(7) queues_okD(8) [OF sd(1)] by auto
  show thesis
  proof (cases "prio_of s r > prio_of s t")
    case False
    obtain w where w: "waits_for (task s t) w" using tk t(1) by blast
    have wi: "waits_in s t w (room_list w L)" using waits_in_rooms [OF ok w] .
    let ?rs = "run_with s t rs ws" and ?ws = "remove1 t ws"
    let ?s = "dispatched r t rs ws (left w t (room_list w L) s)"
    have top: "\<not> higher s x t" if "x \<in> set rs" for x
      using sd(6) [OF that] False by (auto simp: higher_def not_less intro: order_trans)
    have idle: "idle s = Some t \<Longrightarrow> length ?rs = 1"
    proof -
      assume i: "idle s = Some t"
      then have "prio_of s r = 0" using False sd(8) by (auto simp: has_idle_def word_gt_0)
      then have "idle s = Some r" using sd(4,8) by (auto simp: has_idle_def)
      with i t(2) show ?thesis by simp
    qed
    have tm: "t \<in> set rs \<or> t \<in> set ws" using t(1) by simp
    have disp: "osi_dispatch (Some t) s = Some (Inr (OSS_SUCCESS, ?s))" "queues_ok ?s ?rs ?ws"
      using osi_dispatch_eq [OF sd(1,2) t(2) [symmetric] tm pt wi _ idle] top by auto
    have "distinct ws" using queues_okD(16) [OF sd(1)] .
    then have all: "set ?rs \<union> set ?ws = set rs \<union> set ws" and tr: "t \<in> set ?rs"
      using tm by (auto simp: run_with_def)
    have "kernel_ok (switched sp kind r ?s) t ?rs ?ws (leave_rooms w t L)" for sp kind
    proof (rule kernel_ok_dispatched [OF disp(2) tr _ _ _ ok w])
      show "\<forall>x\<in>set ?rs. \<not> higher s x t"
        using top prio.before_irrefl by (auto simp: run_with_def)
      show "\<forall>x\<in>set ?ws. prio_of s x \<le> 0xff"
        using sd(7) set_remove1_subset [of t ws] by auto
      show "has_idle s ?rs ?ws"
        by (rule has_idle_mono [OF sd(8)]) (use all in \<open>auto simp: run_with_def\<close>)
    qed (use tk mem all in auto)
    note ko = this
    have "settled r L ?s" by (rule settledI [OF _ t(2) _ ko]) (use sd(2) in simp_all)
    moreover have "same_objects s ?s"
      using same_objects_trans [OF same_objects_left same_objects_dispatched] .
    moreover have "osi_dispatch_or_queue t s = Some (Inr (OSS_SUCCESS, ?s))"
      using hp False disp(1) by (simp add: osi_dispatch_or_queue_def exec)
    ultimately show thesis using that by simp
  next
    case higher: True
    let ?s = "if t \<in> set ws then after_status s rs ws t OS_TASK_STATUS_IDLE else s"
    let ?rs = "if t \<in> set ws then insert_before (higher s) t rs else rs"
    let ?ws = "remove1 t ws"
    have start: "osi_dispatch_or_queue t s = osi_schedule ?s"
    proof (cases "t \<in> set ws")
      case True
      have c: "can_become s rs ws t OS_TASK_STATUS_IDLE"
        using True queues_okD(11) [OF sd(1)] pt by (simp add: can_become_def)
      have "\<not> task_is_running s t" using queues_okD(9) [OF sd(1) True] by (simp add: task_is_running_def)
      with hp higher True osi_task_status_set_eq [OF sd(1) c] sd(3) show ?thesis
        by (simp add: osi_dispatch_or_queue_def exec)
    next
      case False
      then have "task_is_running s t" using t(1) queues_okD(7) [OF sd(1)] by (simp add: task_is_running_def)
      with hp higher False sd(3) show ?thesis by (simp add: osi_dispatch_or_queue_def exec)
    qed
    have d: "distinct ws" using queues_okD(16) [OF sd(1)] .
    have all: "set ?rs \<union> set ?ws = set rs \<union> set ws" using t(1) d by auto
    have wf: "waits_for (task ?s x) v = waits_for (task s x) v" for x v
      by (rule waits_for_cong) simp_all
    have "rooms_ok ?s L = rooms_ok s L" by (rule rooms_ok_cong) (simp_all add: wf)
    then have ok': "rooms_ok ?s L" using ok by simp
    have "queues_ok ?s ?rs ?ws"
    proof (cases "t \<in> set ws")
      case True
      have "can_become s rs ws t OS_TASK_STATUS_IDLE"
        using True queues_okD(11) [OF sd(1)] pt by (simp add: can_become_def)
      with after_status_ok [OF sd(1)] True show ?thesis by (fastforce simp: next_run_def next_wait_def)
    qed (use sd(1) in \<open>simp add: remove1_idem\<close>)
    moreover have "has_idle ?s ?rs ?ws"
      by (rule has_idle_mono [OF sd(8)]) (use all in auto)
    ultimately have st': "steady ?s r ?rs ?ws"
      using sd higher t(2) set_remove1_subset [of t ws]
      by (auto simp: steady_def higher_exists_def higher_def)
    obtain s' where s': "osi_schedule ?s = Some (Inr (OSS_SUCCESS, s'))" "settled r L s'" "same_objects ?s s'"
    proof (rule schedule_steady [OF st' ok'])
      show "waits_for (task ?s r) None" using wr wf by blast
      show "\<exists>w. waits_for (task ?s x) w" if "x \<in> set ?rs \<union> set ?ws" for x
        using tk [of x] that all wf by blast
      show "set (L b) \<subseteq> set ?rs \<union> set ?ws" for b using mem all by simp
    qed
    have "same_objects s ?s" by (rule same_objects_eqI) (simp_all add: task_rest_def)
    then have "same_objects s s'" using s'(3) by (rule same_objects_trans)
    moreover have "osi_dispatch_or_queue t s = Some (Inr (OSS_SUCCESS, s'))" using start s'(1) by simp
    moreover have "prio_of s r \<le> prio_of s t \<longrightarrow> scheduled s' = Some t" using higher leD by blast
    ultimately show thesis using that s'(2) by blast
  qed
qed

end
