(* ===== verification/HandOver.thy ===== *)
theory HandOver
  imports Invariant
begin

text \<open>
  What releasing an object, or passing a message through it, has in common: the object and a few
  words of memory change, the first blocked task leaves the list, and \<open>osi_dispatch_or_queue\<close>
  decides whether it runs next.
\<close>

section \<open>Changes that leave the scheduler alone\<close>

text \<open>The fields of a task the scheduler reads.\<close>

definition task_core :: "os_task_t \<Rightarrow> (os_task_status \<times> u32 \<times> task_ptr option \<times> task_ptr option \<times> u32) \<times>
    (u32 \<times> mutex_ptr option \<times> queue_ptr option \<times> semaphore_ptr option \<times> rwlock_ptr option)" where
  "task_core x = ((t_status x, t_priority x, t_nrp x, t_nblocked x, t_delay x),
     (t_flags x, t_mutex x, t_queue x, t_semaphore x, t_rwlock x))"

definition same_kernel :: "kernel \<Rightarrow> kernel \<Rightarrow> bool" where
  "same_kernel s s' \<longleftrightarrow> (\<forall>x. task_core (task s' x) = task_core (task s x)) \<and>
     running s' = running s \<and> scheduled s' = scheduled s \<and>
     idle s' = idle s \<and> runqueue s' = runqueue s \<and> waitqueue s' = waitqueue s \<and>
     uptime s' = uptime s \<and> (\<forall>b. get_blocked b s' = get_blocked b s)"

lemma same_kernelD:
  assumes "same_kernel s s'"
  shows "running s' = running s" "scheduled s' = scheduled s" "idle s' = idle s"
    "runqueue s' = runqueue s" "waitqueue s' = waitqueue s" "uptime s' = uptime s"
    "get_blocked b s' = get_blocked b s" "status_of s' x = status_of s x" "prio_of s' x = prio_of s x"
    "nrp_of s' x = nrp_of s x" "nblocked_of s' x = nblocked_of s x"
    "t_delay (task s' x) = t_delay (task s x)" "waits_for (task s' x) w = waits_for (task s x) w"
proof -
  show "waits_for (task s' x) w = waits_for (task s x) w"
    using assms by (intro waits_for_cong) (simp_all add: same_kernel_def task_core_def)
qed (use assms in \<open>simp_all add: same_kernel_def task_core_def\<close>)

lemma same_kernel_trans: "same_kernel s s' \<Longrightarrow> same_kernel s' s'' \<Longrightarrow> same_kernel s s''"
  by (simp add: same_kernel_def)

lemma same_kernel_steady:
  assumes "same_kernel s s'"
  shows "queues_ok s' rs ws = queues_ok s rs ws" "steady s' r rs ws = steady s r rs ws"
    "rooms_ok s' L = rooms_ok s L" "kernel_ok s' r rs ws L = kernel_ok s r rs ws L"
    "may_wait s' r ms = may_wait s r ms" "wake_time s' ms = wake_time s ms"
proof -
  note d = same_kernelD [OF assms]
  show q: "queues_ok s' rs ws = queues_ok s rs ws"
    by (rule queues_ok_cong) (simp_all add: d)
  show st: "steady s' r rs ws = steady s r rs ws"
    using d q by (simp add: steady_def higher_exists_def higher_def has_idle_def)
  show ro: "rooms_ok s' L = rooms_ok s L"
    by (rule rooms_ok_cong) (simp_all only: d)
  show "kernel_ok s' r rs ws L = kernel_ok s r rs ws L"
    using d st ro by (simp add: kernel_ok_def del: waits_for.simps)
  show "may_wait s' r ms = may_wait s r ms" "wake_time s' ms = wake_time s ms"
    by (simp_all add: may_wait_def wake_time_def d)
qed

lemma steady_leave_list: "steady (leave_list b t xs s) r rs ws = steady s r rs ws"
  by (simp add: steady_def queues_ok_leave_list higher_exists_def higher_def has_idle_def)

lemma waits_for_leave_list: "waits_for (task (leave_list b t xs s) x) w = waits_for (task s x) w"
  by (rule waits_for_cong) simp_all

lemma return_regs_leave_list [simp]:
  "osi_task_return_regs x (leave_list b t xs s) = osi_task_return_regs x s"
  by (simp add: osi_task_return_regs_def split: target.split)

text \<open>A word of memory, and the word of a task in which it keeps a message or a rwlock mode.\<close>

definition with_mem :: "u32 \<Rightarrow> u32 \<Rightarrow> kernel \<Rightarrow> kernel" where
  "with_mem a v s = s\<lparr>mem := (mem s)(a := v)\<rparr>"

definition with_c :: "task_ptr \<Rightarrow> u32 \<Rightarrow> kernel \<Rightarrow> kernel" where
  "with_c t v s = s\<lparr>task := (task s)(t := (task s t)\<lparr>t_c := v\<rparr>)\<rparr>"

lemma others_kept_with: "others_kept b s (with_mem a v s)" "others_kept b s (with_c t v s)"
  by (rule others_kept_inert; simp add: with_mem_def with_c_def)+

lemma get_blocked_with [simp]:
  "get_blocked b (with_mem a v s) = get_blocked b s" "get_blocked b (with_c t v s) = get_blocked b s"
  by (cases b; simp add: with_mem_def with_c_def)+

lemma same_kernel_with [simp]: "same_kernel s (with_mem a v s)" "same_kernel s (with_c t v s)"
  unfolding same_kernel_def
  by (simp_all add: task_core_def) (simp_all add: with_mem_def with_c_def)

lemma return_regs_with [simp]:
  "osi_task_return_regs x (with_mem a v s) = osi_task_return_regs x s"
  "osi_task_return_regs x (with_c t v s) = osi_task_return_regs x s"
  by (simp_all add: osi_task_return_regs_def with_mem_def with_c_def split: target.split)

lemma set_stacked_return_eq:
  "osi_task_set_stacked_return t v s = Some (Inr (v, with_mem (osi_task_return_regs t s) v s))"
  by (simp add: osi_task_set_stacked_return_def exec with_mem_def)

section \<open>Waking the first blocked task\<close>

lemma wake_first:
  assumes k: "kernel_ok s r rs ws L" and xs: "L b = t # ys"
    and pre: "same_kernel s s0" and post: "same_kernel (leave_list b t (t # ys) s0) s1"
  obtains s' where "osi_dispatch_or_queue t s1 = Some (Inr (OSS_SUCCESS, s'))"
    "settled r (L(b := ys)) s'" "same_objects s1 s'" "prio_of s r \<le> prio_of s t \<longrightarrow> scheduled s' = Some t"
proof -
  note kd = kernel_okD [OF k] and sk = same_kernel_steady [OF post]
  have t: "t \<in> set (L b)" using xs by simp
  have tr: "t \<noteq> r" using not_in_rooms(1) [OF kd(2,3)] t by auto
  have ok0: "rooms_ok s0 L" using kd(2) same_kernel_steady(3) [OF pre] by simp
  have st: "steady s1 r rs ws"
    using kd(1) sk(2) steady_leave_list same_kernel_steady(2) [OF pre] by simp
  have ok: "rooms_ok s1 (L(b := ys))" using rooms_deq [OF ok0 xs] sk(3) xs by simp
  have wf: "waits_for (task s1 x) w = waits_for (task s x) w" for x w
    using same_kernelD(13) [OF post] waits_for_leave_list same_kernelD(13) [OF pre] by metis
  have pr: "prio_of s1 x = prio_of s x" for x
    using same_kernelD(9) [OF post] same_kernelD(9) [OF pre] by simp
  have mem: "set ((L(b := ys)) c) \<subseteq> set rs \<union> set ws" for c
    using kd(5) [of c] kd(5) [of b] xs by (cases "c = b") auto
  have tm: "t \<in> set rs \<union> set ws" using kd(5) t by blast
  obtain s' where "osi_dispatch_or_queue t s1 = Some (Inr (OSS_SUCCESS, s'))"
    "settled r (L(b := ys)) s'" "same_objects s1 s'" "prio_of s1 r \<le> prio_of s1 t \<longrightarrow> scheduled s' = Some t"
  proof (rule hand_over [OF st ok _ _ mem tm tr])
    show "waits_for (task s1 r) None" using kd(3) wf by blast
    show "\<exists>w. waits_for (task s1 x) w" if "x \<in> set rs \<union> set ws" for x
      using kd(4) [OF that] wf by blast
  qed
  with pr that show thesis by simp
qed

lemma standing_block_list [simp]: "standing b (task (block_list b' xs s) x) = standing b (task s x)"
  by (cases b) (simp_all add: relink_def)

text \<open>What the first task of a list looks like to the code that takes it out.\<close>

lemma first_waiter:
  assumes k: "kernel_ok s r rs ws L" and xs: "L b = t # ys" and pre: "same_kernel s s0"
  shows "is_blocked b s0 (t # ys)" "get_blocked b s0 = Some t" "waits_for (task s0 t) (Some b)"
    "t \<noteq> r"
proof -
  note kd = kernel_okD [OF k]
  have ok0: "rooms_ok s0 L" using kd(2) same_kernel_steady(3) [OF pre] by simp
  show b: "is_blocked b s0 (t # ys)" using rooms_okD(1) [OF ok0, of b] xs by simp
  show "get_blocked b s0 = Some t" using is_blocked_first [OF b] by simp
  show w: "waits_for (task s0 t) (Some b)" using rooms_okD(2) [OF ok0, of t b] xs by simp
  show "t \<noteq> r" using not_in_rooms(1) [OF kd(2,3), of b] xs by auto
qed

section \<open>Waiting at the end of a list\<close>

lemma gave_way_cong:
  "wake_time s ms = wake_time s' ms \<Longrightarrow> t_c (task s r) = t_c (task s' r) \<Longrightarrow>
   gave_way s r ms L s'' = gave_way s' r ms L s''"
  by (simp add: gave_way_def)

lemma block_run: "block (m # m' # ms) s = (case m s of None \<Rightarrow> None | Some (Inl e) \<Rightarrow> Some (Inl e)
    | Some (Inr (a, s')) \<Rightarrow> block (m' # ms) s')"
  by (simp only: block_apply(3) bind_def)

context waiting_room
begin

lemma block_behind:
  assumes k: "kernel_ok s r rs ws L" and ms: "may_wait s r to"
    and b: "\<And>x. room p \<noteq> Semaphore_blocked x"
  obtains s' where "block [enq p r, ignore (svc_block to (room_flag (room p)))] s = Some (Inr ((), s'))"
    "gave_way s r to (L(room p := L (room p) @ [r])) s'" "same_objects s s'"
proof -
  note kd = kernel_okD [OF k] and fl = kernel_ok_flags [OF k]
  obtain s' where s': "svc_block to (room_flag (room p)) (take_seat (room p) r (L (room p)) s) =
      Some (Inr (OSS_ERROR_TO, s'))"
    "gave_way s r to (L(room p := L (room p) @ [r])) s'" "same_objects s s'"
    by (rule block_in_room [OF k ms b])
  have "standing (room p) (task s r)" using fl by (cases "room p") auto
  then have "enq p r s = Some (Inr ((), take_seat (room p) r (L (room p)) s))"
    by (intro enq_behind [OF rooms_okD(1) [OF kd(2)]])
      (use not_in_rooms [OF kd(2,3)] fl in auto)
  with s' that show thesis by (simp add: exec)
qed

end

end
