(* ===== verification/Examples.thy ===== *)
theory Examples
  imports HandOver
begin

text \<open>
  Concrete kernels on which the properties are shown to apply: an idle task and a running one,
  with or without a third task in the blocked list of an object.  The invariant holds in them.
\<close>

section \<open>Example states\<close>

text \<open>The idle task 0, the running task 1, and nothing else.\<close>

definition example_base :: kernel where
  "example_base = blank_kernel\<lparr>running := Some 1, idle := Some 0, os_state := OS_STATE_STARTED,
     runqueue := Some 1, uptime := 5, mem := (\<lambda>_. OSH_STACK_MAGIC_WORD), task := (\<lambda>x.
       if x = 0 then example_task OS_TASK_STATUS_IDLE 0 None
       else if x = 1 then example_task OS_TASK_STATUS_ACTIVE 0x10 (Some 0)
       else blank_task)\<rparr>"

text \<open>In addition a task 2, without a time limit, in the blocked list \<open>b\<close>.\<close>

definition example_waiter :: "blocked_ref \<Rightarrow> os_task_t" where
  "example_waiter b = (seat b (example_task OS_TASK_STATUS_WAIT 0x10 None))
     \<lparr>t_delay := UINT32_MAX, t_flags := room_flag b\<rparr>"

definition example_kernel :: "blocked_ref \<Rightarrow> kernel" where
  "example_kernel b = put_blocked b (Some 2)
     (example_base\<lparr>waitqueue := Some 2, task := (task example_base)(2 := example_waiter b)\<rparr>)"

definition example_rooms :: "blocked_ref \<Rightarrow> blocked_ref \<Rightarrow> task_ptr list" where
  "example_rooms b = (\<lambda>_. [])(b := [2])"

lemma example_base_simps [simp]:
  "running example_base = Some 1" "idle example_base = Some 0" "scheduled example_base = None"
  "os_state example_base = OS_STATE_STARTED" "runqueue example_base = Some 1"
  "waitqueue example_base = None" "uptime example_base = 5" "mem example_base a = OSH_STACK_MAGIC_WORD"
  "task example_base x =
     (if x = 0 then example_task OS_TASK_STATUS_IDLE 0 None
      else if x = 1 then example_task OS_TASK_STATUS_ACTIVE 0x10 (Some 0)
      else blank_task)"
  "get_blocked b example_base = None"
  "target example_base = SAMD51" "status_hook example_base = 0"
  by (cases b; simp add: example_base_def blank_defs)+

lemma get_blocked_waitqueue [simp]: "get_blocked b (s\<lparr>waitqueue := p\<rparr>) = get_blocked b s"
  by (cases b) simp_all

lemma example_kernel_simps [simp]:
  "running (example_kernel b) = Some 1" "idle (example_kernel b) = Some 0"
  "scheduled (example_kernel b) = None" "os_state (example_kernel b) = OS_STATE_STARTED"
  "runqueue (example_kernel b) = Some 1" "waitqueue (example_kernel b) = Some 2"
  "uptime (example_kernel b) = 5"
  "task (example_kernel b) = (task example_base)(2 := example_waiter b)"
  "get_blocked c (example_kernel b) = (if c = b then Some 2 else None)"
  by (simp_all add: example_kernel_def)

lemma example_waiter_simps [simp]:
  "t_status (example_waiter b) = OS_TASK_STATUS_WAIT" "t_priority (example_waiter b) = 0x10"
  "t_nrp (example_waiter b) = None" "t_nblocked (example_waiter b) = None"
  "t_delay (example_waiter b) = 0xFFFFFFFF"
  by (simp_all add: example_waiter_def)

lemma example_waits_for: "b \<noteq> Semaphore_blocked p \<Longrightarrow> \<forall>p. b \<noteq> Semaphore_blocked p \<Longrightarrow>
  waits_for (example_waiter b) (Some b)"
  by (cases b) (auto simp: example_waiter_def)

lemma example_base_ok: "kernel_ok example_base 1 [1, 0] [] (\<lambda>_. [])"
proof -
  have "queues_ok example_base [1, 0] []"
    by (auto simp: queues_ok_def wq_ok_def links_ok_def rq_ok_def is_list_def higher_def)
  moreover have "rooms_ok example_base (\<lambda>_. [])"
    by (simp add: rooms_ok_def is_blocked_def)
  moreover have "\<forall>t\<in>{1, 0}. waits_for (task example_base t) None" by simp
  ultimately show ?thesis
    by (auto simp: kernel_ok_def steady_def higher_exists_def higher_def has_idle_def
        simp del: waits_for.simps)
qed

lemma example_kernel_ok:
  assumes b: "\<forall>p. b \<noteq> Semaphore_blocked p"
  shows "kernel_ok (example_kernel b) 1 [1, 0] [2] (example_rooms b)"
proof -
  have w: "waits_for (example_waiter b) (Some b)" using example_waits_for b by blast
  have "queues_ok (example_kernel b) [1, 0] [2]"
    by (auto simp: queues_ok_def wq_ok_def links_ok_def rq_ok_def is_list_def higher_def)
  moreover have "rooms_ok (example_kernel b) (example_rooms b)"
    using w by (auto simp: rooms_ok_def is_blocked_def example_rooms_def)
  moreover have "\<forall>t\<in>{1, 0}. waits_for (task (example_kernel b) t) None" by simp
  moreover have "waits_for (task (example_kernel b) 2) (Some b)" using w by simp
  ultimately show ?thesis
    by (auto simp: kernel_ok_def steady_def higher_exists_def higher_def has_idle_def example_rooms_def
        simp del: waits_for.simps)
qed

end
