(* ===== verification/SchedulerSpec.thy ===== *)
theory SchedulerSpec
  imports Examples
begin

text \<open>
  What the scheduler promises: the task it chooses, the switch to it, the waking of tasks
  whose time has come, and the invariant kept by the tick and by the calls that give up the
  processor.
\<close>

section \<open>Choosing\<close>

text \<open>
  C13: \<open>find_new_task\<close> returns, changes nothing and reports nothing.  It chooses the head of the run
  queue when the running task is not runnable any more or when some runnable task has a
  higher priority, and otherwise the next task of the same priority in the rotation that
  starts behind the running task; no runnable task has a higher priority than the one chosen.
\<close>

theorem find_new_task_chooses:
  assumes "queues_ok s rs ws" and "r \<in> set rs \<or> \<not> task_is_running s r" and "choice_ends s r rs"
  shows "find_new_task r s = Some (Inr (choice s r rs, s)) \<and>
    (\<forall>t. choice s r rs = Some t \<longrightarrow> t \<in> set rs \<and> (\<forall>x\<in>set rs. \<not> higher s x t))"
  using find_new_task_eq [OF assms] choice_not_lower [OF assms(1)] by blast

theorem find_new_task_chooses_witness:
  "find_new_task 1 example_base = Some (Inr (Some 1, example_base))"
proof -
  have "queues_ok example_base [1, 0] []"
    using steadyD(1) [OF kernel_okD(1) [OF example_base_ok]] .
  from find_new_task_chooses [OF this, of 1] show ?thesis
    by (simp add: choice_ends_def choice_def higher_exists_def higher_def rotation_def)
qed

text \<open>
  C29: the walk of \<open>find_new_task\<close> never ends when the running task waits, another waiting task is
  behind it in the wait queue, and every runnable task has its priority: the walk starts in
  the wait queue, to which it cannot come back.
\<close>

theorem find_new_task_never_ends:
  assumes "queues_ok s rs (as @ r # u # us)" and "rs \<noteq> []"
    and "\<forall>x\<in>set rs. prio_of s x = prio_of s r"
  shows "diverges (find_new_task r) s"
  using find_new_task_diverges [OF assms(1) refl assms(2,3)] by (simp add: diverges_def)

definition example_spin :: kernel where
  "example_spin = blank_kernel\<lparr>running := Some 1, runqueue := Some 0, waitqueue := Some 1, task := (\<lambda>x.
     if x = 0 then example_task OS_TASK_STATUS_IDLE 0 None
     else if x = 1 then example_task OS_TASK_STATUS_WAIT 0 (Some 2)
     else if x = 2 then example_task OS_TASK_STATUS_WAIT 0x10 None
     else blank_task)\<rparr>"

theorem find_new_task_never_ends_witness: "diverges (find_new_task 1) example_spin"
proof -
  have "queues_ok example_spin [0] ([] @ 1 # 2 # [])"
    by (auto simp: queues_ok_def wq_ok_def links_ok_def rq_ok_def is_list_def higher_def earlier_def
        example_spin_def blank_kernel_def)
  from find_new_task_never_ends [OF this] show ?thesis
    by (simp add: example_spin_def)
qed

section \<open>Switching\<close>



section \<open>The tick\<close>

lemma settled_switched:
  assumes "settled r L s'" and t: "scheduled s' = Some t" and run: "running s' = Some r"
    and sp: "stack_ok s' r sp"
  obtains rs ws w where "t \<noteq> r" "PendSV_Handler sp kind s' = Some (Inr ((), switched sp kind r s'))"
    "kernel_ok (switched sp kind r s') t rs ws (leave_rooms w t L)"
proof -
  have "\<not> (\<exists>rs ws. kernel_ok s' r rs ws L)"
    using t kernel_ok_flags(8) by fastforce
  then obtain rs ws w where tr: "t \<noteq> r"
    and k: "\<And>sp kind. kernel_ok (switched sp kind r s') t rs ws (leave_rooms w t L)"
    using assms(1) t unfolding settled_def by auto
  note sd = steadyD [OF kernel_okD(1) [OF k]]
  have q: "queues_ok s' rs ws" using sd(1) by simp
  have "\<forall>x\<in>set rs. \<not> higher s' x t" using sd(6) by (simp add: higher_def)
  with PendSV_Handler_eq [OF q run t tr sd(4) _ sp] k tr that show thesis by blast
qed

lemma settled_switch:
  "settled r L s' \<Longrightarrow> scheduled s' = Some t \<Longrightarrow> running s' = Some r \<Longrightarrow> stack_ok s' r sp \<Longrightarrow>
   \<exists>s'' rs ws w. PendSV_Handler sp kind s' = Some (Inr ((), s'')) \<and>
     kernel_ok s'' t rs ws (leave_rooms w t L)"
  using settled_switched by metis

text \<open>
  C4: the tick keeps the invariant.  In an orderly kernel \<open>osi_irs_systick\<close> succeeds, leaves every
  object and every stack as it was, and either keeps the running task, with the invariant, or
  schedules another one, for which the invariant holds once \<open>PendSV_Handler\<close> has switched.
\<close>

theorem tick_keeps_invariant:
  assumes "kernel_ok s r rs ws L" and "os_state s = OS_STATE_STARTED" and "stack_ok s r sp"
  shows "\<exists>s'. osi_irs_systick s = Some (Inr (OSS_SUCCESS, s')) \<and> same_objects s s' \<and>
    ((\<exists>rs ws. kernel_ok s' r rs ws L) \<or>
     (\<exists>t s'' rs ws w. scheduled s' = Some t \<and> PendSV_Handler sp kind s' = Some (Inr ((), s'')) \<and>
        kernel_ok s'' t rs ws (leave_rooms w t L)))"
proof -
  note kd = kernel_okD [OF assms(1)]
  obtain s' where s': "osi_schedule s = Some (Inr (OSS_SUCCESS, s'))" "settled r L s'"
    "same_objects s s'"
    by (rule schedule_steady [OF kd(1,2,3) kd(4,5)])
  have run: "running s' = Some r"
    using same_objectsD(3) [OF s'(3)] kernel_ok_flags(7) [OF assms(1)] by simp
  have tick: "osi_irs_systick s = Some (Inr (OSS_SUCCESS, s'))"
    using s'(1) assms(2) kernel_ok_flags(8) [OF assms(1)] by (simp add: osi_irs_systick_def)
  have "stack_ok s' r sp"
    using assms(3) same_objectsD(1,4) [OF s'(3)] by (simp add: stack_ok_def)
  then show ?thesis
    using tick s'(2,3) settled_switch [OF s'(2) _ run] unfolding settled_def by metis
qed

theorem tick_keeps_invariant_witness:
  "\<exists>s'. osi_irs_systick example_base = Some (Inr (OSS_SUCCESS, s')) \<and> same_objects example_base s'"
  using tick_keeps_invariant [OF example_base_ok, of 0] by (auto simp: stack_ok_def)

section \<open>Delaying\<close>



text \<open>
  A delay that is due at once, of zero or past the wrap-around of the clock, fails an assertion
  when the task is alone at its priority: the scheduler wakes the task it has just put to
  wait and finds nobody else to run.
\<close>

lemma delay_due_at_once_fails:
  assumes st: "steady s r rs []" and due: "uptime s + ms \<le> uptime s" "ms \<noteq> UINT32_MAX"
      "uptime s + ms \<noteq> UINT32_MAX"
    and alone: "\<forall>x\<in>set rs. x \<noteq> r \<longrightarrow> prio_of s x < prio_of s r"
  shows "faults (svc_delay ms) s (Assertion ''osg.scheduled != NULL'')"
proof -
  let ?d = "uptime s + ms"
  let ?s = "delayed s r rs [] ?d" and ?ra = "remove1 r rs" and ?wa = "delayed_wait s r [] ?d"
  note sd = steadyD [OF st]
  have d: "distinct rs" using queues_okD(15) [OF sd(1)] .
  have wa: "?wa = [r]" by (simp add: delayed_wait_def)
  have q: "queues_ok ?s ?ra [r]" using delayed_eq(2) [OF sd(1,4), of ?d] wa by simp
  have w: "woken ?s [r] = Some r" using due by (simp add: woken_def due_def)
  let ?rs = "wake_run ?s ?ra [r]" and ?s1 = "wake_state ?s ?ra [r]"
  have rs: "set ?rs = set rs" "distinct ?rs"
    using w d sd(4) queues_okD(15) [OF wake_loop_eq(2) [OF q]] queues_okD(8) [OF sd(1,4)]
    by (auto simp: wake_run_def)
  have pr: "prio_of ?s r \<le> 0xff" using queues_okD(8) [OF sd(1,4)] by simp
  have can: "can_schedule ?s r ?ra [r]"
    using q pr sd rs by (simp add: can_schedule_def choice_ends_def)
  have nh: "\<not> higher_exists ?s1 r ?rs"
    using alone rs by (auto simp: higher_exists_def higher_def dest: less_asym)
  obtain c where c: "choice ?s1 r ?rs = Some c"
    using choice_exists [of r ?rs] rs sd(4) by metis
  then have "find (\<lambda>x. prio_of s x = prio_of s r) (rotation ?rs r) = Some c"
    using nh rs sd(4) by (simp add: choice_def)
  then have "c \<in> set (rotation ?rs r)" "prio_of s c = prio_of s r" by (auto simp: find_Some_iff)
  moreover have "c \<in> set rs" using choice_not_lower [OF wake_loop_eq(2) [OF q] c] pr rs by simp
  ultimately have "c = r" using alone by fastforce
  then have sched: "osi_schedule ?s = Some (Inr (OSS_SUCCESS, ?s1))"
    using osi_schedule_eq(1) [OF can c] by simp
  have upd: "s\<lparr>task := (task s)(r := (task s r)\<lparr>t_delay := ?d\<rparr>)\<rparr> = with_delay ?d r s"
    by (simp add: with_delay_def)
  have "scheduled ?s1 = None" using sd by simp
  then show ?thesis
    using sd due upd delayed_eq(1) [OF sd(1,4), of ?d] sched
    by (simp add: faults_def svc_delay_def running_task_def schedule_if_needed_def
        assert_switching_def exec)
qed

lemma delay_due_at_once_fails_example:
  "faults (svc_delay 0) example_base (Assertion ''osg.scheduled != NULL'')"
  using delay_due_at_once_fails [OF kernel_okD(1) [OF example_base_ok], of 0] by simp

end
