(* ===== verification/Tasks.thy ===== *)
theory Tasks
  imports Examples
begin

unbundle bit_operations_syntax

text \<open>
  The life of the system and of its tasks (\<open>src/src/os.c\<close>): initialising, starting and tearing
  down the kernel, creating, starting, suspending, resuming and finishing tasks, and the
  calls that report on them.
\<close>

section \<open>The kernel\<close>

definition os_initialize :: "u32 os" where
  "os_initialize s =
     (if os_state s \<noteq> OS_STATE_DEFAULT then ret OSS_ERROR_INVALID
      else
        seq [modify (\<lambda>s. s\<lparr>os_state := OS_STATE_INITIALIZED, status_hook := 0, logging_hook := 0\<rparr>)]
          (ret OSS_SUCCESS)) s"

definition os_configure_hooks :: "u32 \<Rightarrow> u32 \<Rightarrow> u32 os" where
  "os_configure_hooks status logging =
     seq [modify (\<lambda>s. s\<lparr>status_hook := status, logging_hook := logging\<rparr>)] (ret OSS_SUCCESS)"

definition os_teardown :: "u32 os" where
  "os_teardown =
     seq
       [modify (\<lambda>s. s\<lparr>running := None, scheduled := None, os_state := OS_STATE_DEFAULT, ntasks := 0,
          idle := None, tasks := None, runqueue := None, waitqueue := None\<rparr>)]
       (ret OSS_SUCCESS)"

definition os_is_running :: "kernel \<Rightarrow> bool" where
  "os_is_running s \<longleftrightarrow> os_state s = OS_STATE_STARTED"

definition os_task_name :: "kernel \<Rightarrow> string option" where
  "os_task_name s = (case running s of None \<Rightarrow> None | Some r \<Rightarrow> Some (t_name (task s r)))"

text \<open>
  The platform: the clocks of the Arduino core, \<open>millis\<close> and \<open>micros\<close>, are inputs of the state; on
  the hosted build the test sets the first (\<open>linux_uptime\<close>) and the second is 0.
\<close>

definition osi_platform_uptime :: "u32 os" where
  "osi_platform_uptime = gets uptime"

definition osi_platform_micros :: "u32 os" where
  "osi_platform_micros = gets micros"

definition tests_platform_time :: "u32 \<Rightarrow> u32 os" where
  "tests_platform_time t = seq [modify (\<lambda>s. s\<lparr>uptime := t\<rparr>)] (ret t)"

definition os_uptime :: "u32 os" where
  "os_uptime = osi_platform_uptime"

definition os_micros :: "u32 os" where
  "os_micros = osi_platform_micros"

text \<open>\<open>osi_platform_setup\<close> of both platforms.\<close>

definition osi_platform_setup :: "u32 os" where
  "osi_platform_setup = ret OSS_SUCCESS"

text \<open>
  \<open>os_start\<close> enters the idle task's handler, which is the application's: it is the parameter
  \<open>enter\<close>, applied to the handler and its parameter.  On the devices it runs in thread mode on
  the process stack, so bit 1 of \<open>CONTROL\<close> is set first.
\<close>

definition os_start :: "(u32 \<Rightarrow> u32 \<Rightarrow> unit os) \<Rightarrow> u32 os" where
  "os_start enter s =
     (if os_state s \<noteq> OS_STATE_TASKS_INITIALIZED then ret OSS_ERROR_INVALID
      else
        seq
          [bind osi_platform_setup (\<lambda>v. os_assert ''osi_platform_setup() == OSS_SUCCESS'' (v = OSS_SUCCESS)),
           os_assert ''osg.runqueue != NULL'' (runqueue s \<noteq> None),
           modify (\<lambda>s. s\<lparr>running := idle s\<rparr>),
           bind running_task (\<lambda>r. upd_task r (\<lambda>x. x\<lparr>t_status := OS_TASK_STATUS_ACTIVE\<rparr>)),
           guarded (is_device (target s))
             (block
                [modify (\<lambda>s. s\<lparr>control := 2\<rparr>),
                 modify (\<lambda>s. s\<lparr>os_state := OS_STATE_STARTED\<rparr>),
                 bind running_task (\<lambda>r s. enter (t_handler (task s r)) (t_params (task s r)) s),
                 os_assert ''0'' False])]
          (ret OSS_SUCCESS)) s"

section \<open>Creating and starting tasks\<close>

definition os_task_initialize_options :: "task_ptr \<Rightarrow> os_task_options_t \<Rightarrow> u32 os" where
  "os_task_initialize_options t options s =
     (if os_state s \<noteq> OS_STATE_INITIALIZED \<and> os_state s \<noteq> OS_STATE_TASKS_INITIALIZED
      then ret OSS_ERROR_INVALID
      else
        seq
          [upd_task t (\<lambda>x. x\<lparr>t_sp := 0, t_stack := o_stack options, t_stack_size := o_stack_size options,
             t_stack_kind := 0, t_params := o_params options, t_handler := o_handler options,
             t_status := (if o_status options = OS_TASK_START_RUNNING then OS_TASK_STATUS_IDLE
                          else OS_TASK_STATUS_SUSPENDED),
             t_name := o_name options, t_delay := 0, t_flags := 0, t_started := uptime s,
             t_runtime := 0, t_scheduled := 0, t_queue := None, t_mutex := None, t_nblocked := None,
             t_semaphore := None, t_rwlock := None, t_c := 0, t_nrp := None,
             t_priority := o_priority options, t_signal := 0\<rparr>),
           bind (initialize_stack t (o_stack options) (o_stack_size options))
             (\<lambda>sp. upd_task t (\<lambda>x. x\<lparr>t_sp := sp\<rparr>)),
           upd_task t (\<lambda>x. x\<lparr>t_np := tasks s\<rparr>),
           modify (\<lambda>s. s\<lparr>tasks := Some t, ntasks := ntasks s + 1\<rparr>),
           (\<lambda>s. guarded (idle s = None)
             (block
                [os_assert ''task->status != OS_TASK_STATUS_SUSPENDED''
                   (status_of s t \<noteq> OS_TASK_STATUS_SUSPENDED),
                 upd_task t (\<lambda>x. x\<lparr>t_priority := OS_PRIORITY_IDLE\<rparr>),
                 modify (\<lambda>s. s\<lparr>idle := Some t\<rparr>)]) s),
           (\<lambda>s. guarded (status_of s t \<noteq> OS_TASK_STATUS_SUSPENDED) (runqueue_add Runqueue t) s),
           modify (\<lambda>s. s\<lparr>os_state := OS_STATE_TASKS_INITIALIZED\<rparr>),
           call_status_hook t OS_TASK_STATUS_FINISHED]
          (ret OSS_SUCCESS)) s"

definition os_task_initialize ::
  "task_ptr \<Rightarrow> string \<Rightarrow> os_start_status \<Rightarrow> u32 \<Rightarrow> u32 \<Rightarrow> u32 \<Rightarrow> u32 \<Rightarrow> u32 os" where
  "os_task_initialize t name status handler params stack stack_size =
     os_task_initialize_options t
       \<lparr>o_name = name, o_status = status, o_handler = handler, o_params = params,
        o_stack = stack, o_stack_size = stack_size, o_priority = OS_PRIORITY_NORMAL\<rparr>"

definition os_task_start_options :: "task_ptr option \<Rightarrow> u8 \<Rightarrow> u32 \<Rightarrow> u32 os" where
  "os_task_start_options task_arg priority params =
     seq [os_assert ''task != NULL'' (task_arg \<noteq> None)]
       (bind (deref task_arg) (\<lambda>t s.
          seq
            [os_assert ''task->status != OS_TASK_STATUS_IDLE && task->status != OS_TASK_STATUS_ACTIVE''
               (status_of s t \<noteq> OS_TASK_STATUS_IDLE \<and> status_of s t \<noteq> OS_TASK_STATUS_ACTIVE),
             upd_task t (\<lambda>x. x\<lparr>t_stack_kind := 0, t_delay := 0, t_flags := 0, t_queue := None,
               t_mutex := None, t_rwlock := None, t_c := 0, t_nblocked := None, t_params := params,
               t_started := uptime s, t_runtime := 0, t_scheduled := 0,
               t_priority := ucast priority, t_signal := 0\<rparr>),
             bind (initialize_stack t (t_stack (task s t)) (t_stack_size (task s t)))
               (\<lambda>sp. upd_task t (\<lambda>x. x\<lparr>t_sp := sp\<rparr>)),
             upd_task t (\<lambda>x. x\<lparr>t_status := OS_TASK_STATUS_IDLE\<rparr>),
             waitqueue_remove Waitqueue t,
             runqueue_remove Runqueue t,
             runqueue_add Runqueue t,
             call_status_hook t OS_TASK_STATUS_FINISHED]
            (ret OSS_SUCCESS) s))"

text \<open>\<open>task->priority\<close> has 32 bits, the parameter it is passed for has 8.\<close>

definition os_task_start :: "task_ptr option \<Rightarrow> u32 os" where
  "os_task_start task_arg =
     bind (deref task_arg) (\<lambda>t s. os_task_start_options task_arg (ucast (prio_of s t)) 0 s)"

definition os_task_suspend :: "task_ptr option \<Rightarrow> u32 os" where
  "os_task_suspend task_arg =
     seq [os_assert ''task != NULL'' (task_arg \<noteq> None)]
       (bind (deref task_arg) (\<lambda>t s.
          seq
            [os_assert ''task->status == OS_TASK_STATUS_IDLE || task->status == OS_TASK_STATUS_ACTIVE''
               (status_of s t = OS_TASK_STATUS_IDLE \<or> status_of s t = OS_TASK_STATUS_ACTIVE),
             ignore (osi_task_status_set t OS_TASK_STATUS_SUSPENDED)]
            (ret OSS_SUCCESS) s))"

definition os_task_resume :: "task_ptr option \<Rightarrow> u32 os" where
  "os_task_resume task_arg =
     seq [os_assert ''task != NULL'' (task_arg \<noteq> None)]
       (bind (deref task_arg) (\<lambda>t s.
          seq
            [os_assert ''task->status == OS_TASK_STATUS_SUSPENDED''
               (status_of s t = OS_TASK_STATUS_SUSPENDED),
             ignore (osi_task_status_set t OS_TASK_STATUS_IDLE)]
            (ret OSS_SUCCESS) s))"

section \<open>The end of a task\<close>

partial_function (option) infinite_loop :: "u32 \<Rightarrow> kernel \<Rightarrow> (fault + unit \<times> kernel) option" where
  "infinite_loop i s = infinite_loop (i + 1) s"

text \<open>
  A handler that returns arrives here.  The statements before the endless loop are a
  definition of their own: the task is gone from the run queue when the loop begins, and the
  next tick takes the processor away.
\<close>

definition task_finish :: "unit os" where
  "task_finish s =
     seq
       [os_assert ''osg.running != NULL'' (running s \<noteq> None),
        os_assert ''osg.running != osg.idle'' (running s \<noteq> idle s)]
       (bind running_task (\<lambda>r s.
          block
            [os_assert ''osg.running->status == OS_TASK_STATUS_ACTIVE''
               (status_of s r = OS_TASK_STATUS_ACTIVE),
             ignore (osi_task_status_set r OS_TASK_STATUS_FINISHED)] s)) s"

definition task_finished :: "unit os" where
  "task_finished = bind task_finish (\<lambda>_. infinite_loop 0)"

section \<open>Reports\<close>

definition os_task_get_status :: "task_ptr \<Rightarrow> kernel \<Rightarrow> os_task_status" where
  "os_task_get_status t s = status_of s t"

definition os_task_is_running :: "task_ptr \<Rightarrow> kernel \<Rightarrow> bool" where
  "os_task_is_running t s =
     (case os_task_get_status t s of
        OS_TASK_STATUS_IDLE \<Rightarrow> True
      | OS_TASK_STATUS_ACTIVE \<Rightarrow> True
      | OS_TASK_STATUS_WAIT \<Rightarrow> True
      | OS_TASK_STATUS_SUSPENDED \<Rightarrow> False
      | OS_TASK_STATUS_FINISHED \<Rightarrow> False
      | OS_TASK_STATUS_PANIC \<Rightarrow> False
      | OS_TASK_STATUS_ABORTED \<Rightarrow> False)"

definition os_task_is_stop :: "task_ptr option \<Rightarrow> u32 os" where
  "os_task_is_stop t = seq [os_assert ''task != NULL'' (t \<noteq> None)] (ret OSS_SUCCESS)"

definition os_task_uptime :: "task_ptr option \<Rightarrow> u32 os" where
  "os_task_uptime task_arg =
     seq [os_assert ''task != NULL'' (task_arg \<noteq> None)]
       (bind (deref task_arg) (\<lambda>t. gets (\<lambda>s. uptime s - t_started (task s t))))"

definition os_task_runtime :: "task_ptr option \<Rightarrow> u32 os" where
  "os_task_runtime task_arg =
     seq [os_assert ''task != NULL'' (task_arg \<noteq> None)]
       (bind (deref task_arg) (\<lambda>t. gets (\<lambda>s. uptime s - t_started (task s t))))"

definition os_task_user_data_get :: "task_ptr \<Rightarrow> u32 os" where
  "os_task_user_data_get t = gets (\<lambda>s. t_user_data (task s t))"

definition os_task_user_data_set :: "task_ptr \<Rightarrow> u32 \<Rightarrow> unit os" where
  "os_task_user_data_set t v = upd_task t (\<lambda>x. x\<lparr>t_user_data := v\<rparr>)"

definition os_status_str :: "u32 \<Rightarrow> string" where
  "os_status_str status =
     (if status = OSS_SUCCESS then ''OSS_SUCCESS''
      else if status = OSS_ERROR_TO then ''OSS_ERROR_TO''
      else if status = OSS_ERROR_MEM then ''OSS_ERROR_MEM''
      else if status = OSS_ERROR_INT then ''OSS_ERROR_INT''
      else if status = OSS_ERROR_INVALID then ''OSS_ERROR_INVALID''
      else ''UNKNOWN'')"

fun os_task_status_str :: "os_task_status \<Rightarrow> string" where
  "os_task_status_str OS_TASK_STATUS_IDLE = ''OS_TASK_STATUS_IDLE''"
| "os_task_status_str OS_TASK_STATUS_ACTIVE = ''OS_TASK_STATUS_ACTIVE''"
| "os_task_status_str OS_TASK_STATUS_WAIT = ''OS_TASK_STATUS_WAIT''"
| "os_task_status_str OS_TASK_STATUS_SUSPENDED = ''OS_TASK_STATUS_SUSPENDED''"
| "os_task_status_str OS_TASK_STATUS_FINISHED = ''OS_TASK_STATUS_FINISHED''"
| "os_task_status_str OS_TASK_STATUS_PANIC = ''OS_TASK_STATUS_PANIC''"
| "os_task_status_str OS_TASK_STATUS_ABORTED = ''OS_TASK_STATUS_ABORTED''"

fun os_panic_kind_str :: "os_panic_kind_t \<Rightarrow> string" where
  "os_panic_kind_str OS_PANIC_NONE = ''OS_PANIC_NONE''"
| "os_panic_kind_str OS_PANIC_ASSERTION = ''OS_PANIC_ASSERTION''"
| "os_panic_kind_str OS_PANIC_STACK_OVERFLOW = ''OS_PANIC_STACK_OVERFLOW''"
| "os_panic_kind_str OS_PANIC_APP = ''OS_PANIC_APP''"
| "os_panic_kind_str OS_PANIC_UNKNOWN = ''OS_PANIC_UNKNOWN''"

end
