(* ===== verification/MsgQueue.thy ===== *)
theory MsgQueue
  imports Examples Fifo
begin

unbundle bit_operations_syntax

text \<open>
  Message queues (\<open>src/src/queue.c\<close>): bounded buffers of 32-bit messages with one list of
  blocked tasks, senders or receivers as the status says.
\<close>

section \<open>The operations\<close>

definition queue_blocked_enq :: "queue_ptr \<Rightarrow> task_ptr \<Rightarrow> unit os" where
  "queue_blocked_enq q t =
     block
       [blocked_append (Queue_blocked q) t,
        (\<lambda>s. os_assert ''task->queue == NULL'' (t_queue (task s t) = None) s),
        upd_task t (\<lambda>x. x\<lparr>t_queue := Some q\<rparr>)]"

definition queue_blocked_deq :: "queue_ptr \<Rightarrow> task_ptr option os" where
  "queue_blocked_deq q s =
     (case get_blocked (Queue_blocked q) s of
        None \<Rightarrow> ret None
      | Some t \<Rightarrow>
          seq
            [os_assert ''task->queue == queue'' (t_queue (task s t) = Some q),
             modify (put_blocked (Queue_blocked q) (nblocked_of s t)),
             upd_task t (\<lambda>x. x\<lparr>t_nblocked := None\<rparr>)]
            (ret (Some t))) s"

text \<open>\<open>queue->messages[i]\<close>, read and written.\<close>

definition read_message :: "queue_ptr \<Rightarrow> u16 \<Rightarrow> u32 os" where
  "read_message q i s =
     (if unat i < length (q_messages (queue_at s q)) then ret (q_messages (queue_at s q) ! unat i)
      else fail Out_of_bounds) s"

definition write_message :: "queue_ptr \<Rightarrow> u16 \<Rightarrow> u32 \<Rightarrow> unit os" where
  "write_message q i v s =
     (if unat i < length (q_messages (queue_at s q))
      then upd_queue q (\<lambda>x. x\<lparr>q_messages := (q_messages x)[unat i := v]\<rparr>)
      else fail Out_of_bounds) s"

partial_function (option) queue_clear_loop ::
  "queue_ptr \<Rightarrow> u16 \<Rightarrow> kernel \<Rightarrow> (fault + unit \<times> kernel) option" where
  "queue_clear_loop q i s =
     (if i < q_size (queue_at s q)
      then bind (write_message q i 0) (\<lambda>_. queue_clear_loop q (i + 1)) s
      else ret () s)"

definition osi_queue_create :: "queue_ptr \<Rightarrow> os_queue_definition_t \<Rightarrow> u32 os" where
  "osi_queue_create q def =
     seq
       [upd_queue q (\<lambda>x. x\<lparr>q_def := def, q_size := qd_size def, q_number := 0, q_first := 0,
          q_last := 0, q_status := OS_QUEUE_FINE, q_blocked := \<lparr>b_type = 0, b_tasks = None\<rparr>\<rparr>),
        queue_clear_loop q 0]
       (ret OSS_SUCCESS)"

text \<open>\<open>if (++queue->first == queue->size) queue->first = 0\<close>, and the same for \<open>last\<close>.\<close>

definition advance_first :: "os_queue_t \<Rightarrow> os_queue_t" where
  "advance_first x = (if q_first x + 1 = q_size x then x\<lparr>q_first := 0\<rparr> else x\<lparr>q_first := q_first x + 1\<rparr>)"

definition advance_last :: "os_queue_t \<Rightarrow> os_queue_t" where
  "advance_last x = (if q_last x + 1 = q_size x then x\<lparr>q_last := 0\<rparr> else x\<lparr>q_last := q_last x + 1\<rparr>)"

text \<open>A message may go straight to a blocked receiver.\<close>

definition receiver_waits :: "queue_ptr \<Rightarrow> kernel \<Rightarrow> bool" where
  "receiver_waits q s \<longleftrightarrow> qd_flags (q_def (queue_at s q)) AND OS_QUEUE_FLAGS_QUEUE_ONLY = 0 \<and>
     get_blocked (Queue_blocked q) s \<noteq> None \<and> q_status (queue_at s q) = OS_QUEUE_BLOCKED_RECEIVE"

definition queue_deliver :: "queue_ptr \<Rightarrow> u32 \<Rightarrow> unit os" where
  "queue_deliver q msg =
     bind (queue_blocked_deq q) (\<lambda>p. bind (deref p) (\<lambda>t.
       block
         [set_stacked_return_tuple t \<lparr>tu_status = OSS_SUCCESS, tu_value = msg\<rparr>,
          ignore (osi_dispatch_or_queue t)]))"

definition queue_append :: "queue_ptr \<Rightarrow> u32 \<Rightarrow> unit os" where
  "queue_append q msg =
     block
       [upd_queue q (\<lambda>x. x\<lparr>q_status := OS_QUEUE_FINE\<rparr>),
        (\<lambda>s. write_message q (q_first (queue_at s q)) msg s),
        upd_queue q (\<lambda>x. x\<lparr>q_number := q_number x + 1\<rparr>),
        upd_queue q advance_first]"

definition osi_queue_enqueue_isr :: "queue_ptr \<Rightarrow> u32 \<Rightarrow> os_tuple_t os" where
  "osi_queue_enqueue_isr q msg s =
     (if receiver_waits q s
      then
        seq [queue_deliver q msg, modify (\<lambda>s. if is_device (target s) then s\<lparr>pendsv := True\<rparr> else s)]
          (ret \<lparr>tu_status = OSS_SUCCESS, tu_value = 0\<rparr>)
      else if q_number (queue_at s q) = q_size (queue_at s q)
      then ret \<lparr>tu_status = OSS_ERROR_MEM, tu_value = 0\<rparr>
      else seq [queue_append q msg] (ret \<lparr>tu_status = OSS_SUCCESS, tu_value = 0\<rparr>)) s"

definition osi_queue_enqueue :: "queue_ptr \<Rightarrow> u32 \<Rightarrow> u32 \<Rightarrow> u32 os" where
  "osi_queue_enqueue q msg to s =
     seq [os_assert ''running != NULL'' (running s \<noteq> None)]
       (bind running_task (\<lambda>r. seq
         [os_assert ''running->nblocked == NULL'' (nblocked_of s r = None)]
         (if receiver_waits q s
          then seq [queue_deliver q msg] (ret OSS_SUCCESS)
          else if q_number (queue_at s q) = q_size (queue_at s q)
          then
            (if to = 0 then ret OSS_ERROR_MEM
             else
               seq
                 [upd_task r (\<lambda>x. x\<lparr>t_c := msg\<rparr>),
                  upd_queue q (\<lambda>x. x\<lparr>q_status := OS_QUEUE_BLOCKED_SEND\<rparr>),
                  queue_blocked_enq q r,
                  ignore (svc_block to OS_TASK_FLAG_QUEUE)]
                 (ret OSS_ERROR_TO))
          else seq [queue_append q msg] (ret OSS_SUCCESS)))) s"

text \<open>The message of the longest blocked sender takes the place that has become free.\<close>

definition queue_accept :: "queue_ptr \<Rightarrow> unit os" where
  "queue_accept q =
     bind (queue_blocked_deq q) (\<lambda>p. bind (deref p) (\<lambda>t.
       block
         [(\<lambda>s. write_message q (q_first (queue_at s q)) (t_c (task s t)) s),
          upd_queue q advance_first,
          upd_queue q (\<lambda>x. x\<lparr>q_number := q_number x + 1\<rparr>),
          upd_task t (\<lambda>x. x\<lparr>t_c := 0\<rparr>),
          set_stacked_return_tuple t \<lparr>tu_status = OSS_SUCCESS, tu_value = 0\<rparr>,
          ignore (osi_dispatch_or_queue t)]))"

text \<open>
  \<open>*message\<close> is written only when a message is taken: the function gets its old value \<open>m0\<close>
  and returns the new one.
\<close>

definition osi_queue_dequeue :: "queue_ptr \<Rightarrow> u32 \<Rightarrow> u32 \<Rightarrow> (u32 \<times> u32) os" where
  "osi_queue_dequeue q m0 to s =
     seq [os_assert ''osg.running != NULL'' (running s \<noteq> None)]
       (bind running_task (\<lambda>r. seq
         [os_assert ''osg.running->nblocked == NULL'' (nblocked_of s r = None)]
         (if q_number (queue_at s q) > 0
          then
            bind (read_message q (q_last (queue_at s q))) (\<lambda>msg.
              seq
                [upd_queue q advance_last,
                 upd_queue q (\<lambda>x. x\<lparr>q_number := q_number x - 1\<rparr>),
                 (\<lambda>s. guarded (get_blocked (Queue_blocked q) s \<noteq> None \<and>
                                q_status (queue_at s q) = OS_QUEUE_BLOCKED_SEND)
                        (queue_accept q) s)]
                (ret (OSS_SUCCESS, msg)))
          else if to = 0 then ret (OSS_ERROR_MEM, m0)
          else
            seq
              [upd_queue q (\<lambda>x. x\<lparr>q_status := OS_QUEUE_BLOCKED_RECEIVE\<rparr>),
               queue_blocked_enq q r,
               ignore (svc_block to OS_TASK_FLAG_QUEUE)]
              (ret (OSS_ERROR_TO, m0))))) s"

section \<open>The blocked tasks\<close>

interpretation queue_room: waiting_room Queue_blocked queue_blocked_enq queue_blocked_deq
proof
  fix p s xs t
  assume "is_blocked (Queue_blocked p) s xs" "t \<notin> set xs" "nblocked_of s t = None"
    and st: "standing (Queue_blocked p) (task s t)"
  then have "blocked_append (Queue_blocked p) t s = Some (Inr ((), block_list (Queue_blocked p) (xs @ [t]) s))"
    by (intro blocked_append_eq)
  moreover have "t_queue (task (block_list (Queue_blocked p) (xs @ [t]) s) t) = None"
    using standing_block_list [of "Queue_blocked p"] st by (metis standing.simps(2))
  ultimately show "queue_blocked_enq p t s = Some (Inr ((), take_seat (Queue_blocked p) t xs s))"
    by (simp add: queue_blocked_enq_def take_seat_def exec Let_def)
next
  fix p s
  assume "is_blocked (Queue_blocked p) s []"
  then show "queue_blocked_deq p s = Some (Inr (None, s))"
    using is_blocked_first [of "Queue_blocked p" s "[]"] by (simp add: queue_blocked_deq_def exec)
next
  fix p s t xs
  assume b: "is_blocked (Queue_blocked p) s (t # xs)" and "seated_at (Queue_blocked p) (task s t)"
  then show "queue_blocked_deq p s = Some (Inr (Some t, leave_list (Queue_blocked p) t (t # xs) s))"
    using is_blocked_first [OF b] is_blocked_mid [of "Queue_blocked p" s "[]" t xs]
    unfolding leave_list_head [OF b]
    by (simp add: queue_blocked_deq_def exec del: put_blocked.simps)
qed

section \<open>The ring of messages\<close>

definition queue_ok :: "os_queue_t \<Rightarrow> bool" where
  "queue_ok x \<longleftrightarrow> unat (q_size x) \<le> length (q_messages x) \<and> q_first x < q_size x \<and>
     q_last x < q_size x \<and> q_number x \<le> q_size x \<and>
     unat (q_first x) = (unat (q_last x) + unat (q_number x)) mod unat (q_size x)"

definition queue_contents :: "os_queue_t \<Rightarrow> u32 list" where
  "queue_contents x =
     ring_slice (q_messages x) (unat (q_size x)) (unat (q_last x)) (unat (q_number x))"

definition put_message :: "u32 \<Rightarrow> os_queue_t \<Rightarrow> os_queue_t" where
  "put_message v x = advance_first
     (x\<lparr>q_messages := (q_messages x)[unat (q_first x) := v], q_number := q_number x + 1\<rparr>)"

definition get_message :: "os_queue_t \<Rightarrow> u32 \<times> os_queue_t" where
  "get_message x = (q_messages x ! unat (q_last x), (advance_last x)\<lparr>q_number := q_number x - 1\<rparr>)"

lemma next_index:
  fixes i n :: u16
  assumes "i < n"
  shows "unat (if i + 1 = n then 0 else i + 1) = (unat i + 1) mod unat n" "(if i + 1 = n then 0 else i + 1) < n"
proof -
  have i: "unat i + 1 \<le> unat n" using assms by (simp add: word_less_nat_alt)
  have u: "unat (i + 1) = unat i + 1"
    using assms by (intro unat_succ) (simp add: word_less_nat_alt)
  have e: "i + 1 = n \<longleftrightarrow> unat i + 1 = unat n" using u by (metis word_unat_eq_iff)
  show "unat (if i + 1 = n then 0 else i + 1) = (unat i + 1) mod unat n"
    using u e i by simp
  have "n > 0" using assms word_gt_0 by force
  with u e i show "(if i + 1 = n then 0 else i + 1) < n" by (auto simp: word_less_nat_alt)
qed

lemma advance_simps [simp]:
  "q_messages (advance_first x) = q_messages x" "q_number (advance_first x) = q_number x"
  "q_size (advance_first x) = q_size x" "q_last (advance_first x) = q_last x"
  "q_status (advance_first x) = q_status x" "q_def (advance_first x) = q_def x"
  "q_blocked (advance_first x) = q_blocked x"
  "q_first (advance_first x) = (if q_first x + 1 = q_size x then 0 else q_first x + 1)"
  "q_messages (advance_last x) = q_messages x" "q_number (advance_last x) = q_number x"
  "q_size (advance_last x) = q_size x" "q_first (advance_last x) = q_first x"
  "q_status (advance_last x) = q_status x" "q_def (advance_last x) = q_def x"
  "q_blocked (advance_last x) = q_blocked x"
  "q_last (advance_last x) = (if q_last x + 1 = q_size x then 0 else q_last x + 1)"
  by (simp_all add: advance_first_def advance_last_def)

lemma put_get_simps [simp]:
  "q_size (put_message v x) = q_size x" "q_last (put_message v x) = q_last x"
  "q_number (put_message v x) = q_number x + 1" "q_status (put_message v x) = q_status x"
  "q_def (put_message v x) = q_def x" "q_blocked (put_message v x) = q_blocked x"
  "fst (get_message x) = q_messages x ! unat (q_last x)"
  "q_size (snd (get_message x)) = q_size x" "q_first (snd (get_message x)) = q_first x"
  "q_number (snd (get_message x)) = q_number x - 1" "q_status (snd (get_message x)) = q_status x"
  "q_def (snd (get_message x)) = q_def x" "q_blocked (snd (get_message x)) = q_blocked x"
  "q_messages (snd (get_message x)) = q_messages x"
  by (simp_all add: put_message_def get_message_def)

lemma put_get_more:
  "q_messages (put_message v x) = (q_messages x)[unat (q_first x) := v]"
  "q_first (put_message v x) = (if q_first x + 1 = q_size x then 0 else q_first x + 1)"
  "q_last (snd (get_message x)) = (if q_last x + 1 = q_size x then 0 else q_last x + 1)"
  by (simp_all add: put_message_def get_message_def)

lemma length_queue_contents [simp]: "length (queue_contents x) = unat (q_number x)"
  by (simp add: queue_contents_def)

lemma queue_contents_status [simp]:
  "queue_contents (x\<lparr>q_status := st\<rparr>) = queue_contents x" "queue_ok (x\<lparr>q_status := st\<rparr>) = queue_ok x"
  "queue_contents (x\<lparr>q_blocked := bl\<rparr>) = queue_contents x" "queue_ok (x\<lparr>q_blocked := bl\<rparr>) = queue_ok x"
  by (simp_all add: queue_contents_def queue_ok_def)

lemma number_less:
  assumes "queue_ok x" and "length (queue_contents x) < unat (q_size x)"
  shows "unat (q_number x + 1) = unat (q_number x) + 1" "q_number x + 1 \<le> q_size x"
proof -
  have n: "unat (q_number x) < unat (q_size x)" using assms by simp
  then show u: "unat (q_number x + 1) = unat (q_number x) + 1"
    by (rule unat_succ)
  with n show "q_number x + 1 \<le> q_size x" by (simp add: word_le_nat_alt)
qed

interpretation msg_fifo: fifo put_message get_message queue_contents "\<lambda>x. unat (q_size x)" queue_ok
proof
  fix x
  assume "queue_ok x"
  then show "length (queue_contents x) \<le> unat (q_size x)" by (simp add: queue_ok_def word_le_nat_alt)
next
  fix x v
  assume ok: "queue_ok x" and room: "length (queue_contents x) < unat (q_size x)"
  let ?y = "put_message v x" and ?k = "unat (q_size x)"
  note n = number_less [OF ok room]
  have f: "q_first x < q_size x" "unat (q_first x) = (unat (q_last x) + unat (q_number x)) mod ?k"
    "?k \<le> length (q_messages x)"
    using ok by (auto simp: queue_ok_def)
  have "unat (q_first ?y) = (unat (q_first x) + 1) mod ?k" "q_first ?y < q_size x"
    using next_index [OF f(1)] by (simp_all only: put_get_more)
  moreover have "queue_contents ?y = queue_contents x @ [v]"
    using ring_slice_write [of "unat (q_number x)" ?k "q_messages x" "unat (q_last x)" v] room f n
    by (simp add: queue_contents_def) (simp add: put_get_more)
  moreover have "unat (q_size x) \<le> length (q_messages ?y)" using f by (simp add: put_get_more)
  ultimately show "queue_ok ?y \<and> queue_contents ?y = queue_contents x @ [v] \<and> unat (q_size ?y) = ?k"
    using ok n f by (simp add: queue_ok_def mod_simps add.assoc)
next
  fix x v vs
  assume ok: "queue_ok x" and c: "queue_contents x = v # vs"
  let ?y = "snd (get_message x)" and ?k = "unat (q_size x)"
  have l: "q_last x < q_size x" "unat (q_number x) \<le> ?k"
    "unat (q_first x) = (unat (q_last x) + unat (q_number x)) mod ?k"
    using ok by (auto simp: queue_ok_def word_le_nat_alt)
  have len: "unat (q_number x) = Suc (length vs)" using c length_queue_contents [of x] by simp
  then have n: "unat (q_number x - 1) = length vs"
    by (subst unat_minus_one) auto
  have idx: "unat (q_last ?y) = (unat (q_last x) + 1) mod ?k" "q_last ?y < q_size x"
    using next_index [OF l(1)] by (simp_all only: put_get_more)
  have "queue_contents x = q_messages x ! unat (q_last x) # queue_contents ?y"
    using ring_slice_Cons [of "unat (q_last x)" ?k] l(1) len n idx
    by (simp add: queue_contents_def word_less_nat_alt)
  moreover have "queue_ok ?y"
    using ok idx n len l by (simp add: queue_ok_def mod_simps word_le_nat_alt)
  ultimately show "fst (get_message x) = v \<and> queue_ok ?y \<and> queue_contents ?y = vs \<and> unat (q_size ?y) = ?k"
    using c by simp
qed

section \<open>The operations on the ring\<close>

definition with_queue :: "queue_ptr \<Rightarrow> os_queue_t \<Rightarrow> kernel \<Rightarrow> kernel" where
  "with_queue q x s = s\<lparr>queue_at := (queue_at s)(q := x)\<rparr>"

lemma others_kept_queue: "others_kept (Queue_blocked q) s (with_queue q x s)"
  by (simp add: others_kept_def with_queue_def)

lemma with_queue_simps [simp]:
  "queue_at (with_queue q x s) = (queue_at s)(q := x)" "task (with_queue q x s) = task s"
  "running (with_queue q x s) = running s" "with_queue q y (with_queue q x s) = with_queue q y s"
  "with_queue q (queue_at s q) s = s" "mem (with_queue q x s) = mem s"
  "target (with_queue q x s) = target s"
  "osi_task_return_regs t (with_queue q x s) = osi_task_return_regs t s"
  by (simp_all add: with_queue_def osi_task_return_regs_def split: target.split)

lemma get_blocked_with_queue:
  "get_blocked b (with_queue q x s) =
     (if b = Queue_blocked q then b_tasks (q_blocked x) else get_blocked b s)"
  by (cases b) (simp_all add: with_queue_def)

lemma same_kernel_queue:
  "b_tasks (q_blocked x) = b_tasks (q_blocked (queue_at s q)) \<Longrightarrow> same_kernel s (with_queue q x s)"
  unfolding same_kernel_def by (simp add: get_blocked_with_queue) (simp add: with_queue_def)

lemma upd_queue_eq: "upd_queue q f s = Some (Inr ((), with_queue q (f (queue_at s q)) s))"
  by (simp add: exec with_queue_def)

lemma advance_status:
  "advance_first (x\<lparr>q_status := st, q_messages := ms, q_number := n\<rparr>) =
   (advance_first (x\<lparr>q_messages := ms, q_number := n\<rparr>))\<lparr>q_status := st\<rparr>"
  by (simp add: advance_first_def)

lemma queue_append_eq:
  assumes "queue_ok (queue_at s q)"
  shows "queue_append q msg s =
    Some (Inr ((), with_queue q ((put_message msg (queue_at s q))\<lparr>q_status := OS_QUEUE_FINE\<rparr>) s))"
proof -
  have "unat (q_first (queue_at s q)) < length (q_messages (queue_at s q))"
    using assms by (simp add: queue_ok_def word_less_nat_alt)
  then show ?thesis
    by (simp add: queue_append_def write_message_def upd_queue_eq exec put_message_def advance_status
        del: statement_apply(3))
qed

lemma queue_full: "queue_ok x \<Longrightarrow> q_number x = q_size x \<longleftrightarrow> \<not> length (queue_contents x) < unat (q_size x)"
  by (simp add: queue_ok_def word_le_nat_alt word_unat_eq_iff not_less) linarith

lemma read_last:
  assumes "queue_ok (queue_at s q)"
  shows "read_message q (q_last (queue_at s q)) s = Some (Inr (fst (get_message (queue_at s q)), s))"
  using assms by (simp add: read_message_def exec queue_ok_def word_less_nat_alt)

lemma enqueue_nowait:
  assumes "running s = Some r" and "nblocked_of s r = None" and "\<not> receiver_waits q s"
    and "queue_ok (queue_at s q)"
  shows "osi_queue_enqueue q v 0 s =
    (if length (queue_contents (queue_at s q)) < unat (q_size (queue_at s q))
     then Some (Inr (OSS_SUCCESS, with_queue q ((put_message v (queue_at s q))\<lparr>q_status := OS_QUEUE_FINE\<rparr>) s))
     else Some (Inr (OSS_ERROR_MEM, s)))"
  using assms queue_full [OF assms(4)] queue_append_eq [OF assms(4), of v]
  by (simp add: osi_queue_enqueue_def running_task_def exec)

lemma dequeue_taken:
  assumes "running s = Some r" and "nblocked_of s r = None"
    and "queue_ok (queue_at s q)" and "queue_contents (queue_at s q) \<noteq> []"
  shows "osi_queue_dequeue q m0 to s =
    bind (guarded (get_blocked (Queue_blocked q) s \<noteq> None \<and> q_status (queue_at s q) = OS_QUEUE_BLOCKED_SEND)
        (queue_accept q)) (\<lambda>_. ret (OSS_SUCCESS, hd (queue_contents (queue_at s q))))
      (with_queue q (snd (get_message (queue_at s q))) s)"
proof -
  obtain v vs where c: "queue_contents (queue_at s q) = v # vs" using assms(4) by (cases "queue_contents (queue_at s q)") auto
  then have "length (queue_contents (queue_at s q)) > 0" by simp
  then have "q_number (queue_at s q) > 0" by (simp add: word_gt_0 unat_gt_0)
  moreover have "fst (get_message (queue_at s q)) = v" using msg_fifo.get_ok [OF assms(3) c] by simp
  moreover have "(advance_last x)\<lparr>q_number := q_number x - 1\<rparr> = snd (get_message x)" for x
    by (simp add: get_message_def)
  ultimately show ?thesis
    using assms(1,2) c read_last [OF assms(3)]
    by (simp add: osi_queue_dequeue_def running_task_def exec upd_queue_eq get_blocked_with_queue
        del: statement_apply(3) put_get_simps(7))
qed

lemma queue_empty: "queue_contents (queue_at s q) = [] \<longleftrightarrow> q_number (queue_at s q) = 0"
  using length_queue_contents [of "queue_at s q"] by (metis length_0_conv unat_eq_0)

lemma dequeue_nothing:
  assumes "running s = Some r" and "nblocked_of s r = None" and "queue_contents (queue_at s q) = []"
  shows "osi_queue_dequeue q m0 0 s = Some (Inr ((OSS_ERROR_MEM, m0), s))"
  using assms queue_empty [of s q] by (simp add: osi_queue_dequeue_def running_task_def exec)

section \<open>A bounded buffer\<close>

text \<open>The calls that do not wait, and what a bounded first-in first-out buffer answers to them.\<close>

datatype queue_op = Enqueue u32 | Dequeue

fun run_queue :: "queue_ptr \<Rightarrow> queue_op list \<Rightarrow> (u32 \<times> u32) list os" where
  "run_queue q [] = ret []"
| "run_queue q (Enqueue v # ops) =
     bind (osi_queue_enqueue q v 0) (\<lambda>st. bind (run_queue q ops) (\<lambda>rs. ret ((st, 0) # rs)))"
| "run_queue q (Dequeue # ops) =
     bind (osi_queue_dequeue q 0 0) (\<lambda>r. bind (run_queue q ops) (\<lambda>rs. ret (r # rs)))"

fun run_buffer :: "nat \<Rightarrow> queue_op list \<Rightarrow> u32 list \<Rightarrow> (u32 \<times> u32) list \<times> u32 list" where
  "run_buffer k [] xs = ([], xs)"
| "run_buffer k (Enqueue v # ops) xs =
     (if length xs < k
      then let (rs, ys) = run_buffer k ops (xs @ [v]) in ((OSS_SUCCESS, 0) # rs, ys)
      else let (rs, ys) = run_buffer k ops xs in ((OSS_ERROR_MEM, 0) # rs, ys))"
| "run_buffer k (Dequeue # ops) [] =
     (let (rs, ys) = run_buffer k ops [] in ((OSS_ERROR_MEM, 0) # rs, ys))"
| "run_buffer k (Dequeue # ops) (x # xs) =
     (let (rs, ys) = run_buffer k ops xs in ((OSS_SUCCESS, x) # rs, ys))"

lemma run_queue_buffer:
  assumes "running s = Some r" and "nblocked_of s r = None" and "is_blocked (Queue_blocked q) s []"
    and "queue_ok (queue_at s q)"
  shows "\<exists>x. run_queue q ops s = Some (Inr (fst (run_buffer (unat (q_size (queue_at s q))) ops
      (queue_contents (queue_at s q))), with_queue q x s)) \<and> queue_ok x \<and> q_size x = q_size (queue_at s q) \<and>
      queue_contents x = snd (run_buffer (unat (q_size (queue_at s q))) ops (queue_contents (queue_at s q)))"
  using assms
proof (induction ops arbitrary: s)
  case Nil
  then show ?case by (intro exI [of _ "queue_at s q"]) (simp add: exec)
next
  case (Cons op ops)
  let ?x = "queue_at s q" and ?b = "Queue_blocked q"
  have nb: "get_blocked ?b s = None" using is_blocked_first [OF Cons.prems(3)] by simp
  have keep: "is_blocked ?b (with_queue q y s) []" "running (with_queue q y s) = Some r"
    "nblocked_of (with_queue q y s) r = None" if "q_blocked y = q_blocked ?x" for y
    using that nb Cons.prems(1,2) by (simp_all add: is_blocked_def get_blocked_with_queue)
  have rw: "\<not> receiver_waits q s" using nb by (simp add: receiver_waits_def)
  show ?case
  proof (cases op)
    case (Enqueue v)
    show ?thesis
    proof (cases "length (queue_contents ?x) < unat (q_size ?x)")
      case True
      let ?y = "(put_message v ?x)\<lparr>q_status := OS_QUEUE_FINE\<rparr>"
      have y: "queue_ok ?y" "queue_contents ?y = queue_contents ?x @ [v]" "q_size ?y = q_size ?x"
        using msg_fifo.put_ok [OF Cons.prems(4) True] by simp_all
      obtain z where "run_queue q ops (with_queue q ?y s) =
          Some (Inr (fst (run_buffer (unat (q_size ?x)) ops (queue_contents ?x @ [v])), with_queue q z s))"
        "queue_ok z" "q_size z = q_size ?x"
        "queue_contents z = snd (run_buffer (unat (q_size ?x)) ops (queue_contents ?x @ [v]))"
        using Cons.IH [of "with_queue q ?y s"] keep [of ?y] y by auto
      with True enqueue_nowait [OF Cons.prems(1,2) rw Cons.prems(4), of v] show ?thesis
        by (auto simp: Enqueue exec split_beta Let_def)
    next
      case False
      with Cons.IH [OF Cons.prems] enqueue_nowait [OF Cons.prems(1,2) rw Cons.prems(4), of v]
      show ?thesis by (auto simp: Enqueue exec split_beta Let_def)
    qed
  next
    case Dequeue
    show ?thesis
    proof (cases "queue_contents ?x")
      case Nil
      with Cons.IH [OF Cons.prems] dequeue_nothing [OF Cons.prems(1,2) Nil, of 0]
      show ?thesis by (auto simp: Dequeue exec split_beta Let_def)
    next
      case c: (Cons v vs)
      let ?y = "snd (get_message ?x)"
      have y: "queue_ok ?y" "queue_contents ?y = vs" "q_size ?y = q_size ?x"
        using msg_fifo.get_ok [OF Cons.prems(4) c] by simp_all
      obtain z where "run_queue q ops (with_queue q ?y s) =
          Some (Inr (fst (run_buffer (unat (q_size ?x)) ops vs), with_queue q z s))"
        "queue_ok z" "q_size z = q_size ?x"
        "queue_contents z = snd (run_buffer (unat (q_size ?x)) ops vs)"
        using Cons.IH [of "with_queue q ?y s"] keep [of ?y] y by auto
      with c nb dequeue_taken [OF Cons.prems(1,2,4), of 0 0] show ?thesis
        by (auto simp: Dequeue exec split_beta Let_def)
    qed
  qed
qed

text \<open>
  C11: as long as nobody waits, a message queue is a bounded first-in first-out buffer: every sequence of
  \<open>osi_queue_enqueue\<close> and \<open>osi_queue_dequeue\<close> calls without waiting answers as the buffer does, with
  the same messages in the same order and \<open>OSS_ERROR_MEM\<close> when it is full or empty, and changes
  nothing but the queue.
\<close>

theorem queue_refines_buffer:
  assumes "running s = Some r" and "nblocked_of s r = None" and "is_blocked (Queue_blocked q) s []"
    and "queue_ok (queue_at s q)"
  shows "\<exists>x. run_queue q ops s = Some (Inr (fst (run_buffer (unat (q_size (queue_at s q))) ops
      (queue_contents (queue_at s q))), with_queue q x s)) \<and> queue_ok x \<and>
      queue_contents x = snd (run_buffer (unat (q_size (queue_at s q))) ops (queue_contents (queue_at s q)))"
  using run_queue_buffer [OF assms] by blast

definition example_queue :: os_queue_t where
  "example_queue = blank_queue\<lparr>q_size := 2, q_messages := [7, 8], q_number := 1, q_first := 1\<rparr>"

lemma example_queue_ok: "queue_ok example_queue" "queue_contents example_queue = [7]"
  by (simp_all add: example_queue_def queue_ok_def queue_contents_def ring_slice_def blank_defs)

theorem queue_refines_buffer_witness:
  "\<exists>s'. run_queue 0 [Enqueue 5, Enqueue 6, Dequeue, Dequeue, Dequeue] (with_queue 0 example_queue example_base) =
     Some (Inr ([(0, 0), (3, 0), (0, 7), (0, 5), (3, 0)], s'))"
proof -
  let ?s = "with_queue 0 example_queue example_base"
  have "is_blocked (Queue_blocked 0) ?s []"
    by (simp add: is_blocked_def get_blocked_with_queue example_queue_def blank_defs)
  moreover have "q_size example_queue = 2" by (simp add: example_queue_def)
  ultimately show ?thesis
    using queue_refines_buffer [of ?s 1 0 "[Enqueue 5, Enqueue 6, Dequeue, Dequeue, Dequeue]"]
    by (auto simp: example_queue_ok)
qed

section \<open>Messages to and from blocked tasks\<close>

lemma stacked_tuple_eq:
  "set_stacked_return_tuple t r s = Some (Inr ((), with_mem (osi_task_return_regs t s + 4) (tu_value r)
     (with_mem (osi_task_return_regs t s) (tu_status r) s)))"
  by (simp add: set_stacked_return_tuple_def exec with_mem_def)

lemma stacked_tuple_same:
  assumes "same_objects s s'"
  shows "osi_task_stacked_return_tuple t s' = osi_task_stacked_return_tuple t s"
  using same_objectsD [OF assms]
  by (simp add: osi_task_stacked_return_tuple_def osi_task_return_regs_def split: target.split)

lemma stacked_tuple_with [simp]:
  "a = osi_task_return_regs t s \<Longrightarrow> osi_task_stacked_return_tuple t
     (with_mem (a + 4) v (with_mem a st s)) = \<lparr>tu_status = st, tu_value = v\<rparr>"
  by (simp add: osi_task_stacked_return_tuple_def) (simp add: with_mem_def)

lemma write_message_eq:
  "unat i < length (q_messages (queue_at s q)) \<Longrightarrow> write_message q i v s = Some (Inr ((), with_queue q
     ((queue_at s q)\<lparr>q_messages := (q_messages (queue_at s q))[unat i := v]\<rparr>) s))"
  by (simp add: write_message_def upd_queue_eq)

lemma upd_c_eq: "upd_task t (\<lambda>x. x\<lparr>t_c := v\<rparr>) s = Some (Inr ((), with_c t v s))"
  by (simp add: exec with_c_def)

lemma put_message_order:
  "(advance_first (x\<lparr>q_messages := (q_messages x)[unat (q_first x) := v]\<rparr>))\<lparr>q_number := q_number x + 1\<rparr> =
   put_message v x"
  by (simp add: put_message_def advance_first_def)

lemma queue_accept_eq:
  assumes "queue_blocked_deq q s0 = Some (Inr (Some t, s1))"
    and "unat (q_first (queue_at s1 q)) < length (q_messages (queue_at s1 q))"
    and "s2 = with_c t 0 (with_queue q (put_message (t_c (task s1 t)) (queue_at s1 q)) s1)"
  shows "queue_accept q s0 = ignore (osi_dispatch_or_queue t)
    (with_mem (osi_task_return_regs t s2 + 4) 0 (with_mem (osi_task_return_regs t s2) OSS_SUCCESS s2))"
  using assms(1) write_message_eq [OF assms(2)] put_message_order [of "queue_at s1 q"]
  unfolding assms(3)
  by (simp add: queue_accept_def exec stacked_tuple_eq upd_queue_eq upd_c_eq del: statement_apply(2,3))

lemma queue_rest_eq:
  assumes "queue_rest x = queue_rest y"
  shows "queue_ok x = queue_ok y" "queue_contents x = queue_contents y" "q_size x = q_size y"
    "q_status x = q_status y" "q_first x = q_first y" "q_messages x = q_messages y" "q_last x = q_last y"
    "q_number x = q_number y" "q_def x = q_def y"
  using assms by (simp_all add: queue_rest_def queue_ok_def queue_contents_def)

text \<open>A message goes to the receiver that has waited longest.\<close>

lemma message_to_receiver:
  assumes k: "kernel_ok s r rs ws L" and xs: "L (Queue_blocked q) = t # ys"
    and st: "q_status (queue_at s q) = OS_QUEUE_BLOCKED_RECEIVE"
    and fl: "qd_flags (q_def (queue_at s q)) AND OS_QUEUE_FLAGS_QUEUE_ONLY = 0"
  shows "\<exists>s'. osi_queue_enqueue q msg to s = Some (Inr (OSS_SUCCESS, s')) \<and>
    osi_task_stacked_return_tuple t s' = \<lparr>tu_status = OSS_SUCCESS, tu_value = msg\<rparr> \<and>
    queue_rest (queue_at s' q) = queue_rest (queue_at s q) \<and>
    settled r (L(Queue_blocked q := ys)) s' \<and>
    (prio_of s r \<le> prio_of s t \<longrightarrow> scheduled s' = Some t) \<and>
    others_kept (Queue_blocked q) s s'"
proof -
  let ?b = "Queue_blocked q"
  let ?s1 = "leave_list ?b t (t # ys) s"
  let ?s2 = "with_mem (osi_task_return_regs t ?s1 + 4) msg
    (with_mem (osi_task_return_regs t ?s1) OSS_SUCCESS ?s1)"
  have refl: "same_kernel s s" by (simp add: same_kernel_def)
  note kf = kernel_ok_flags [OF k] and fw = first_waiter [of s r rs ws L ?b, OF k xs refl]
  have sk: "same_kernel ?s1 ?s2" using same_kernel_with(1) same_kernel_trans by blast
  obtain s' where s': "osi_dispatch_or_queue t ?s2 = Some (Inr (OSS_SUCCESS, s'))"
    "settled r (L(?b := ys)) s'" "same_objects ?s2 s'" "prio_of s r \<le> prio_of s t \<longrightarrow> scheduled s' = Some t"
    by (rule wake_first [of s r rs ws L ?b, OF k xs refl sk])
  have "queue_blocked_deq q s = Some (Inr (Some t, ?s1))"
    using queue_room.deq_head fw by simp
  then have "queue_deliver q msg s = Some (Inr ((), s'))"
    using s'(1) stacked_tuple_eq by (simp add: queue_deliver_def exec)
  then have "osi_queue_enqueue q msg to s = Some (Inr (OSS_SUCCESS, s'))"
    using kf st fl fw(2) by (simp add: osi_queue_enqueue_def running_task_def receiver_waits_def exec)
  moreover have "osi_task_stacked_return_tuple t s' = \<lparr>tu_status = OSS_SUCCESS, tu_value = msg\<rparr>"
    using stacked_tuple_same [OF s'(3)] by simp
  moreover have "queue_rest (queue_at s' q) = queue_rest (queue_at s q)"
    using s'(3) same_objects_leave_list [of s ?b t "t # ys"]
    by (simp add: same_objects_def) (simp add: with_mem_def)
  moreover have "others_kept ?b s s'"
    by (rule others_kept_trans [OF others_kept_objects [OF same_objects_leave_list]
          others_kept_trans [OF others_kept_trans [OF others_kept_with(1) others_kept_with(1)] others_kept_objects [OF s'(3)]]])
  ultimately show ?thesis using s'(2,4) by blast
qed



text \<open>A message comes from the sender that has waited longest.\<close>

lemma message_from_sender:
  assumes k: "kernel_ok s r rs ws L" and xs: "L (Queue_blocked q) = t # ys"
    and st: "q_status (queue_at s q) = OS_QUEUE_BLOCKED_SEND"
    and ok: "queue_ok (queue_at s q)" and c: "queue_contents (queue_at s q) = v # vs"
  shows "\<exists>s'. osi_queue_dequeue q m0 to s = Some (Inr ((OSS_SUCCESS, v), s')) \<and>
    queue_ok (queue_at s' q) \<and> queue_contents (queue_at s' q) = vs @ [t_c (task s t)] \<and>
    osi_task_stacked_return_tuple t s' = \<lparr>tu_status = OSS_SUCCESS, tu_value = 0\<rparr> \<and>
    settled r (L(Queue_blocked q := ys)) s' \<and>
    (prio_of s r \<le> prio_of s t \<longrightarrow> scheduled s' = Some t) \<and>
    others_kept (Queue_blocked q) s s'"
proof -
  let ?b = "Queue_blocked q" and ?y = "snd (get_message (queue_at s q))"
  let ?s0 = "with_queue q ?y s"
  let ?s1 = "leave_list ?b t (t # ys) ?s0"
  let ?y1 = "queue_at ?s1 q"
  let ?z = "put_message (t_c (task s t)) ?y1"
  let ?s2 = "with_c t 0 (with_queue q ?z ?s1)"
  let ?s3 = "with_mem (osi_task_return_regs t ?s2 + 4) 0 (with_mem (osi_task_return_regs t ?s2) OSS_SUCCESS ?s2)"
  have pre: "same_kernel s ?s0" by (rule same_kernel_queue) simp
  note kf = kernel_ok_flags [OF k] and fw = first_waiter [of s r rs ws L ?b, OF k xs pre]
  have g: "fst (get_message (queue_at s q)) = v" "queue_ok ?y" "queue_contents ?y = vs"
    using msg_fifo.get_ok [OF ok c] by auto
  have y1: "queue_rest ?y1 = queue_rest ?y"
    using same_objects_leave_list [of ?s0 ?b t "t # ys"] by (simp add: same_objects_def)
  have room: "length (queue_contents ?y1) < unat (q_size ?y1)"
  proof -
    have "length (v # vs) \<le> unat (q_size (queue_at s q))"
      using msg_fifo.contents_bound [OF ok] c by simp
    then show ?thesis unfolding queue_rest_eq(2,3) [OF y1] g(3) by simp
  qed
  have z: "queue_ok ?z" "queue_contents ?z = vs @ [t_c (task s t)]"
    using msg_fifo.put_ok [OF _ room] g queue_rest_eq [OF y1] by auto
  have bl: "b_tasks (q_blocked ?z) = b_tasks (q_blocked ?y1)" by simp
  have post: "same_kernel ?s1 ?s3"
    by (rule same_kernel_trans [OF same_kernel_trans [OF same_kernel_queue [OF bl] same_kernel_with(2)]
          same_kernel_trans [OF same_kernel_with(1) same_kernel_with(1)]])
  obtain s' where s': "osi_dispatch_or_queue t ?s3 = Some (Inr (OSS_SUCCESS, s'))"
    "settled r (L(?b := ys)) s'" "same_objects ?s3 s'" "prio_of s r \<le> prio_of s t \<longrightarrow> scheduled s' = Some t"
    by (rule wake_first [of s r rs ws L ?b, OF k xs pre post])
  have deq: "queue_blocked_deq q ?s0 = Some (Inr (Some t, ?s1))"
    using queue_room.deq_head fw by simp
  have w: "unat (q_first ?y1) < length (q_messages ?y1)"
    using g(2) queue_rest_eq [OF y1] by (simp add: queue_ok_def word_less_nat_alt)
  have "?s2 = with_c t 0 (with_queue q (put_message (t_c (task ?s1 t)) ?y1) ?s1)" by simp
  from queue_accept_eq [OF deq w this] s'(1) have "queue_accept q ?s0 = Some (Inr ((), s'))"
    by (simp only: ignore_apply bind_apply) (simp add: ret_apply)
  moreover have "queue_contents (queue_at s q) \<noteq> []" using c by simp
  ultimately have "osi_queue_dequeue q m0 to s = Some (Inr ((OSS_SUCCESS, v), s'))"
    using dequeue_taken [OF kf(7) kf(6) ok, of m0 to] c fw(2) st
    by (simp add: exec)
  moreover have "queue_ok (queue_at s' q)" "queue_contents (queue_at s' q) = vs @ [t_c (task s t)]"
  proof -
    have "queue_rest (queue_at s' q) = queue_rest ?z"
      using s'(3) by (simp add: same_objects_def) (simp add: with_mem_def with_c_def)
    from queue_rest_eq [OF this] z
    show "queue_ok (queue_at s' q)" "queue_contents (queue_at s' q) = vs @ [t_c (task s t)]" by simp_all
  qed
  moreover have "osi_task_stacked_return_tuple t s' = \<lparr>tu_status = OSS_SUCCESS, tu_value = 0\<rparr>"
    using stacked_tuple_same [OF s'(3)] by simp
  moreover have "others_kept ?b s s'"
  proof -
    have "others_kept ?b s ?s1"
      by (rule others_kept_trans [OF others_kept_queue others_kept_objects [OF same_objects_leave_list]])
    moreover have "others_kept ?b ?s1 ?s2" by (rule others_kept_trans [OF others_kept_queue others_kept_with(2)])
    moreover have "others_kept ?b ?s2 ?s3" by (rule others_kept_trans [OF others_kept_with(1) others_kept_with(1)])
    ultimately show ?thesis using others_kept_objects [OF s'(3)] others_kept_trans by blast
  qed
  ultimately show ?thesis using s'(2,4) by blast
qed

text \<open>
  C30: taking a message from a queue on which a task waits to send yields the oldest one, lets the
  message of the task that has waited longest into the queue, behind all others, and wakes
  that task with \<open>OSS_SUCCESS\<close> in its stacked return registers; the invariant is kept.
\<close>

theorem queue_accepts_from_sender:
  assumes k: "kernel_ok s r rs ws L" and xs: "L (Queue_blocked q) = t # ys"
    and st: "q_status (queue_at s q) = OS_QUEUE_BLOCKED_SEND"
    and ok: "queue_ok (queue_at s q)" and c: "queue_contents (queue_at s q) = v # vs"
  shows "\<exists>s'. osi_queue_dequeue q m0 to s = Some (Inr ((OSS_SUCCESS, v), s')) \<and>
    queue_ok (queue_at s' q) \<and> queue_contents (queue_at s' q) = vs @ [t_c (task s t)] \<and>
    osi_task_stacked_return_tuple t s' = \<lparr>tu_status = OSS_SUCCESS, tu_value = 0\<rparr> \<and>
    settled r (L(Queue_blocked q := ys)) s' \<and>
    (prio_of s r \<le> prio_of s t \<longrightarrow> scheduled s' = Some t)"
  using message_from_sender [OF assms] by blast

theorem queue_accepts_from_sender_witness:
  "\<exists>s'. osi_queue_dequeue 0 0 0 (with_queue 0 (blank_queue\<lparr>q_status := OS_QUEUE_BLOCKED_SEND, q_size := 1,
        q_number := 1, q_messages := [4], q_blocked := \<lparr>b_type = 0, b_tasks = Some 2\<rparr>\<rparr>)
        (example_kernel (Queue_blocked 0))) = Some (Inr ((OSS_SUCCESS, 4), s')) \<and>
    queue_contents (queue_at s' 0) = [t_c (example_waiter (Queue_blocked 0))]"
proof -
  let ?b = "Queue_blocked 0"
  let ?x = "blank_queue\<lparr>q_status := OS_QUEUE_BLOCKED_SEND, q_size := 1,
        q_number := 1, q_messages := [4], q_blocked := \<lparr>b_type = 0, b_tasks = Some 2\<rparr>\<rparr>"
  let ?s = "with_queue 0 ?x (example_kernel ?b)"
  have "kernel_ok (example_kernel ?b) 1 [1, 0] [2] (example_rooms ?b)" by (rule example_kernel_ok) simp
  moreover have "get_blocked ?b (example_kernel ?b) = Some 2" by simp
  then have "same_kernel (example_kernel ?b) ?s" by (intro same_kernel_queue) (simp only: get_blocked.simps, simp)
  ultimately have k: "kernel_ok ?s 1 [1, 0] [2] (example_rooms ?b)"
    using same_kernel_steady(4) by blast
  have "queue_ok ?x" "queue_contents ?x = [4]"
    by (simp_all add: queue_ok_def queue_contents_def ring_slice_def blank_defs)
  then show ?thesis
    using queue_accepts_from_sender [OF k, of 0 2 "[]" 4 "[]" 0 0]
    by (auto simp: example_rooms_def)
qed

section \<open>Waiting for room or for a message\<close>

text \<open>A sender waits for room.\<close>

lemma sender_waits:
  assumes k: "kernel_ok s r rs ws L" and ms: "may_wait s r to" and to: "to \<noteq> 0"
    and full: "q_number (queue_at s q) = q_size (queue_at s q)" and nr: "\<not> receiver_waits q s"
  shows "\<exists>s'. osi_queue_enqueue q msg to s = Some (Inr (OSS_ERROR_TO, s')) \<and>
    gave_way (with_c r msg s) r to (L(Queue_blocked q := L (Queue_blocked q) @ [r])) s' \<and>
    queue_rest (queue_at s' q) = queue_rest ((queue_at s q)\<lparr>q_status := OS_QUEUE_BLOCKED_SEND\<rparr>) \<and>
    others_kept (Queue_blocked q) s s'"
proof -
  let ?x = "(queue_at s q)\<lparr>q_status := OS_QUEUE_BLOCKED_SEND\<rparr>"
  let ?s = "with_queue q ?x (with_c r msg s)"
  have qc: "queue_at (with_c r msg s) = queue_at s" by (simp add: with_c_def)
  have sk: "same_kernel s ?s"
    by (rule same_kernel_trans [OF same_kernel_with(2) same_kernel_queue]) (simp add: qc)
  note fl = kernel_ok_flags [OF k]
  have k': "kernel_ok ?s r rs ws L" "may_wait ?s r to" using k ms same_kernel_steady [OF sk] by auto
  obtain s' where s': "block [queue_blocked_enq q r, ignore (svc_block to (room_flag (Queue_blocked q)))] ?s = Some (Inr ((), s'))"
    "gave_way ?s r to (L(Queue_blocked q := L (Queue_blocked q) @ [r])) s'" "same_objects ?s s'"
    by (rule queue_room.block_behind [OF k', of q]) simp
  have "osi_queue_enqueue q msg to s = Some (Inr (OSS_ERROR_TO, s'))"
    using fl full nr to s'(1)
    by (simp add: osi_queue_enqueue_def running_task_def seq_def upd_c_eq upd_queue_eq qc block_run
        bind_def ret_def os_assert_apply deref_apply block_single del: statement_apply)
  moreover have "gave_way (with_c r msg s) r to (L(Queue_blocked q := L (Queue_blocked q) @ [r])) s'"
    using s'(2) gave_way_cong [of ?s to "with_c r msg s" r] by (simp add: wake_time_def with_queue_def)
  moreover have "queue_rest (queue_at s' q) = queue_rest ?x"
    using s'(3) by (simp add: same_objects_def)
  moreover have "others_kept (Queue_blocked q) s s'"
    by (rule others_kept_trans [OF others_kept_trans [OF others_kept_with(2) others_kept_queue] others_kept_objects [OF s'(3)]])
  ultimately show ?thesis by blast
qed



text \<open>
  Receiving from an empty queue makes the task wait at the end of the queue's blocked tasks, with
  the status saying that receivers wait, and the invariant holds for the task that runs next.
\<close>

lemma receiver_joins:
  assumes k: "kernel_ok s r rs ws L" and ms: "may_wait s r to" and to: "to \<noteq> 0"
    and empty: "queue_contents (queue_at s q) = []"
  shows "\<exists>s'. osi_queue_dequeue q m0 to s = Some (Inr ((OSS_ERROR_TO, m0), s')) \<and>
    gave_way s r to (L(Queue_blocked q := L (Queue_blocked q) @ [r])) s' \<and>
    queue_rest (queue_at s' q) = queue_rest ((queue_at s q)\<lparr>q_status := OS_QUEUE_BLOCKED_RECEIVE\<rparr>) \<and>
    others_kept (Queue_blocked q) s s'"
proof -
  let ?x = "(queue_at s q)\<lparr>q_status := OS_QUEUE_BLOCKED_RECEIVE\<rparr>"
  let ?s = "with_queue q ?x s"
  have sk: "same_kernel s ?s" by (rule same_kernel_queue) simp
  note fl = kernel_ok_flags [OF k]
  have k': "kernel_ok ?s r rs ws L" "may_wait ?s r to" using k ms same_kernel_steady [OF sk] by auto
  obtain s' where s': "block [queue_blocked_enq q r, ignore (svc_block to (room_flag (Queue_blocked q)))] ?s = Some (Inr ((), s'))"
    "gave_way ?s r to (L(Queue_blocked q := L (Queue_blocked q) @ [r])) s'" "same_objects ?s s'"
    by (rule queue_room.block_behind [OF k', of q]) simp
  have "osi_queue_dequeue q m0 to s = Some (Inr ((OSS_ERROR_TO, m0), s'))"
    using fl queue_empty [of s q] empty to s'(1)
    by (simp add: osi_queue_dequeue_def running_task_def seq_def upd_queue_eq block_run
        bind_def ret_def os_assert_apply deref_apply block_single del: statement_apply)
  moreover have "gave_way s r to (L(Queue_blocked q := L (Queue_blocked q) @ [r])) s'"
    using s'(2) gave_way_cong [of ?s to s r] by (simp add: wake_time_def with_queue_def)
  moreover have "queue_rest (queue_at s' q) = queue_rest ?x"
    using s'(3) by (simp add: same_objects_def)
  moreover have "others_kept (Queue_blocked q) s s'"
    by (rule others_kept_trans [OF others_kept_queue others_kept_objects [OF s'(3)]])
  ultimately show ?thesis by blast
qed

lemma receiver_joins_example:
  "\<exists>s'. osi_queue_dequeue 0 0 UINT32_MAX example_base = Some (Inr ((OSS_ERROR_TO, 0), s')) \<and>
     q_status (queue_at s' 0) = OS_QUEUE_BLOCKED_RECEIVE"
proof -
  have "queue_contents (queue_at example_base 0) = []"
    by (simp add: example_base_def blank_defs queue_contents_def)
  from receiver_joins [OF example_base_ok _ _ this, of UINT32_MAX 0]
  obtain s' where "osi_queue_dequeue 0 0 UINT32_MAX example_base = Some (Inr ((OSS_ERROR_TO, 0), s'))"
    "queue_rest (queue_at s' 0) = queue_rest ((queue_at example_base 0)\<lparr>q_status := OS_QUEUE_BLOCKED_RECEIVE\<rparr>)"
    by (auto simp: may_wait_def)
  then show ?thesis by (auto simp: queue_rest_def)
qed

section \<open>Sending from an interrupt\<close>

text \<open>
  \<open>osi_queue_enqueue_isr\<close> does what \<open>osi_queue_enqueue\<close> does without a time limit, with the same
  status and the same faults, except that it requests the context switch itself after it has
  handed the message to a receiver.
\<close>

lemma enqueue_isr_equivalent:
  assumes "running s = Some r" and "nblocked_of s r = None"
  shows "osi_queue_enqueue_isr q msg s =
    (case osi_queue_enqueue q msg 0 s of
       None \<Rightarrow> None
     | Some (Inl e) \<Rightarrow> Some (Inl e)
     | Some (Inr (st, s')) \<Rightarrow> Some (Inr (\<lparr>tu_status = st, tu_value = 0\<rparr>,
         if receiver_waits q s \<and> is_device (target s') then s'\<lparr>pendsv := True\<rparr> else s')))"
  using assms
  by (simp add: osi_queue_enqueue_isr_def osi_queue_enqueue_def running_task_def exec
      split: option.split sum.split)

lemma enqueue_isr_equivalent_example:
  "osi_queue_enqueue_isr 0 9 example_base = Some (Inr (\<lparr>tu_status = OSS_ERROR_MEM, tu_value = 0\<rparr>, example_base))"
  using enqueue_isr_equivalent [of example_base 1 0 9]
  by (simp add: osi_queue_enqueue_def running_task_def exec receiver_waits_def)
    (simp add: example_base_def blank_defs)

section \<open>Queues that only queue\<close>

text \<open>
  With \<open>OS_QUEUE_FLAGS_QUEUE_ONLY\<close> a message is put into the queue past the tasks that wait to
  receive, and the status that says that receivers wait is lost: no task is woken, and the
  blocked receivers and the message stay where they are.
\<close>

lemma queue_only_leaves_receivers:
  assumes "running s = Some r" and "nblocked_of s r = None"
    and fl: "qd_flags (q_def (queue_at s q)) AND OS_QUEUE_FLAGS_QUEUE_ONLY \<noteq> 0"
    and ok: "queue_ok (queue_at s q)" and "queue_contents (queue_at s q) = []"
    and "is_blocked (Queue_blocked q) s xs"
  shows "\<exists>s'. osi_queue_enqueue q msg to s = Some (Inr (OSS_SUCCESS, s')) \<and>
    queue_contents (queue_at s' q) = [msg] \<and> q_status (queue_at s' q) = OS_QUEUE_FINE \<and>
    is_blocked (Queue_blocked q) s' xs \<and> task s' = task s \<and> scheduled s' = scheduled s"
proof -
  let ?y = "(put_message msg (queue_at s q))\<lparr>q_status := OS_QUEUE_FINE\<rparr>"
  have room: "length (queue_contents (queue_at s q)) < unat (q_size (queue_at s q))"
    using ok assms(5) by (simp add: queue_ok_def word_less_nat_alt)
  have "osi_queue_enqueue q msg to s = Some (Inr (OSS_SUCCESS, with_queue q ?y s))"
    using assms(1,2) fl room queue_full [OF ok] queue_append_eq [OF ok, of msg]
    by (simp add: osi_queue_enqueue_def running_task_def exec receiver_waits_def)
  moreover have "queue_contents ?y = [msg]"
    using msg_fifo.put_ok [OF ok room, of msg] assms(5) by simp
  moreover have "is_blocked (Queue_blocked q) (with_queue q ?y s) xs"
    using assms(6) by (simp add: is_blocked_def get_blocked_with_queue)
  moreover have "scheduled (with_queue q ?y s) = scheduled s" by (simp add: with_queue_def)
  ultimately show ?thesis by (intro exI [of _ "with_queue q ?y s"]) simp
qed

lemma queue_only_leaves_receivers_example:
  "\<exists>s'. osi_queue_enqueue 0 9 0 (with_queue 0 (blank_queue\<lparr>q_size := 1, q_messages := [0],
        q_def := \<lparr>qd_name = ''q'', qd_size = 1, qd_flags = 1\<rparr>, q_status := OS_QUEUE_BLOCKED_RECEIVE,
        q_blocked := \<lparr>b_type = 0, b_tasks = Some 2\<rparr>\<rparr>) (example_kernel (Queue_blocked 0))) =
      Some (Inr (OSS_SUCCESS, s')) \<and> status_of s' 2 = OS_TASK_STATUS_WAIT \<and>
      is_blocked (Queue_blocked 0) s' [2]"
proof -
  let ?x = "blank_queue\<lparr>q_size := 1, q_messages := [0], q_def := \<lparr>qd_name = ''q'', qd_size = 1, qd_flags = 1\<rparr>,
    q_status := OS_QUEUE_BLOCKED_RECEIVE, q_blocked := \<lparr>b_type = 0, b_tasks = Some 2\<rparr>\<rparr>"
  let ?s = "with_queue 0 ?x (example_kernel (Queue_blocked 0))"
  have "queue_ok ?x" "queue_contents ?x = []"
    by (simp_all add: queue_ok_def queue_contents_def blank_defs)
  moreover have "is_blocked (Queue_blocked 0) ?s [2]"
    by (simp add: is_blocked_def get_blocked_with_queue)
  ultimately show ?thesis
    using queue_only_leaves_receivers [of ?s 1 0 "[2]" 9 0] by auto
qed

section \<open>Creating\<close>

lemma queue_clear_loop_eq:
  assumes "unat (q_size (queue_at s q)) \<le> length (q_messages (queue_at s q))"
    and "unat i + n = unat (q_size (queue_at s q))"
    and "\<And>j. j < unat i \<Longrightarrow> q_messages (queue_at s q) ! j = 0"
  shows "\<exists>ms. queue_clear_loop q i s = Some (Inr ((), with_queue q ((queue_at s q)\<lparr>q_messages := ms\<rparr>) s)) \<and>
    length ms = length (q_messages (queue_at s q)) \<and> (\<forall>j < unat (q_size (queue_at s q)). ms ! j = 0)"
  using assms
proof (induction n arbitrary: i s)
  case 0
  then have "i = q_size (queue_at s q)" by (simp add: word_unat_eq_iff)
  with 0 show ?case
    by (intro exI [of _ "q_messages (queue_at s q)"]) (subst queue_clear_loop.simps, simp add: exec)
next
  case (Suc n)
  let ?x = "queue_at s q"
  let ?y = "?x\<lparr>q_messages := (q_messages ?x)[unat i := 0]\<rparr>"
  have lt: "unat i < unat (q_size ?x)" using Suc.prems(2) by simp
  then have i: "i < q_size ?x" "unat (i + 1) = unat i + 1" using unat_succ by (auto simp: word_less_nat_alt)
  have "write_message q i 0 s = Some (Inr ((), with_queue q ?y s))"
    using lt Suc.prems(1) by (intro write_message_eq) simp
  moreover obtain ms where "queue_clear_loop q (i + 1) (with_queue q ?y s) =
      Some (Inr ((), with_queue q (?x\<lparr>q_messages := ms\<rparr>) s))"
    "length ms = length (q_messages ?x)" "\<forall>j < unat (q_size ?x). ms ! j = 0"
  proof -
    have "q_messages ?y ! j = 0" if "j < unat (i + 1)" for j
      using that Suc.prems(1,3) lt i by (auto simp: nth_list_update less_Suc_eq)
    then show thesis using that Suc.IH [of "with_queue q ?y s" "i + 1"] Suc.prems(1,2) i by auto
  qed
  ultimately show ?case using i
    by (intro exI [of _ ms]) (subst queue_clear_loop.simps, simp add: exec)
qed

text \<open>
  Creating a queue always returns, empties the queue, sets every message of its storage to
  \<open>NULL\<close>, and leaves a queue that is in order whenever it has room for a message.
\<close>

lemma queue_create_empties:
  assumes "unat (qd_size def) \<le> length (q_messages (queue_at s q))"
  shows "\<exists>s'. osi_queue_create q def s = Some (Inr (OSS_SUCCESS, s')) \<and>
    queue_contents (queue_at s' q) = [] \<and> (\<forall>j < unat (qd_size def). q_messages (queue_at s' q) ! j = 0) \<and>
    is_blocked (Queue_blocked q) s' [] \<and> (queue_ok (queue_at s' q) \<longleftrightarrow> qd_size def > 0) \<and>
    task s' = task s"
proof -
  let ?x = "(queue_at s q)\<lparr>q_def := def, q_size := qd_size def, q_number := 0, q_first := 0,
    q_last := 0, q_status := OS_QUEUE_FINE, q_blocked := \<lparr>b_type = 0, b_tasks = None\<rparr>\<rparr>"
  obtain ms where ms: "queue_clear_loop q 0 (with_queue q ?x s) =
      Some (Inr ((), with_queue q (?x\<lparr>q_messages := ms\<rparr>) s))"
    "length ms = length (q_messages (queue_at s q))" "\<forall>j < unat (qd_size def). ms ! j = 0"
    using queue_clear_loop_eq [of "with_queue q ?x s" q 0 "unat (qd_size def)"] assms by auto
  then have "osi_queue_create q def s = Some (Inr (OSS_SUCCESS, with_queue q (?x\<lparr>q_messages := ms\<rparr>) s))"
    by (simp add: osi_queue_create_def upd_queue_eq exec del: statement_apply(3))
  moreover have "queue_contents (?x\<lparr>q_messages := ms\<rparr>) = []" by (simp add: queue_contents_def)
  moreover have "queue_ok (?x\<lparr>q_messages := ms\<rparr>) \<longleftrightarrow> qd_size def > 0"
    using ms(2) assms by (simp add: queue_ok_def)
  moreover have "is_blocked (Queue_blocked q) (with_queue q (?x\<lparr>q_messages := ms\<rparr>) s) []"
    by (simp add: is_blocked_def get_blocked_with_queue)
  ultimately show ?thesis using ms(3) by (intro exI [of _ "with_queue q (?x\<lparr>q_messages := ms\<rparr>) s"]) simp
qed

lemma queue_create_empties_example:
  "\<exists>s'. osi_queue_create 0 \<lparr>qd_name = ''q'', qd_size = 2, qd_flags = 0\<rparr>
      (with_queue 0 (blank_queue\<lparr>q_messages := [1, 2, 3]\<rparr>) blank_kernel) = Some (Inr (OSS_SUCCESS, s')) \<and>
    queue_ok (queue_at s' 0)"
  using queue_create_empties [of "\<lparr>qd_name = ''q'', qd_size = 2, qd_flags = 0\<rparr>"
      "with_queue 0 (blank_queue\<lparr>q_messages := [1, 2, 3]\<rparr>) blank_kernel" 0] by auto

end
