(* ===== verification/Semaphore.thy ===== *)
theory Semaphore
  imports Examples
begin

unbundle bit_operations_syntax

text \<open>
  Counting semaphores (\<open>src/src/semaphore.c\<close>), and why a task that has waited for one cannot
  run again.
\<close>

section \<open>The operations\<close>

definition semaphore_blocked_enq :: "semaphore_ptr \<Rightarrow> task_ptr \<Rightarrow> unit os" where
  "semaphore_blocked_enq p t =
     block
       [blocked_append (Semaphore_blocked p) t,
        (\<lambda>s. os_assert ''task->semaphore == NULL'' (t_semaphore (task s t) = None) s),
        upd_task t (\<lambda>x. x\<lparr>t_semaphore := Some p\<rparr>)]"

definition semaphore_blocked_deq :: "semaphore_ptr \<Rightarrow> task_ptr option os" where
  "semaphore_blocked_deq p s =
     (case get_blocked (Semaphore_blocked p) s of
        None \<Rightarrow> ret None
      | Some t \<Rightarrow>
          seq
            [os_assert ''task->semaphore == semaphore'' (t_semaphore (task s t) = Some p),
             modify (put_blocked (Semaphore_blocked p) (nblocked_of s t)),
             upd_task t (\<lambda>x. x\<lparr>t_nblocked := None\<rparr>)]
            (ret (Some t))) s"

definition osi_semaphore_create :: "semaphore_ptr \<Rightarrow> os_semaphore_definition_t \<Rightarrow> u32 os" where
  "osi_semaphore_create p def =
     seq
       [upd_semaphore p (\<lambda>x. x\<lparr>s_def := def, s_tokens := sd_tokens def,
          s_blocked := \<lparr>b_type = 0, b_tasks = None\<rparr>, s_flags := sd_flags def\<rparr>)]
       (ret OSS_SUCCESS)"

definition osi_semaphore_acquire :: "semaphore_ptr \<Rightarrow> u32 \<Rightarrow> u32 os" where
  "osi_semaphore_acquire p to =
     bind running_task (\<lambda>r s.
       seq [os_assert ''task->semaphore == NULL || task->semaphore == semaphore''
              (t_semaphore (task s r) = None \<or> t_semaphore (task s r) = Some p)]
         (if s_tokens (semaphore_at s p) > 0 then
            seq [upd_semaphore p (\<lambda>x. x\<lparr>s_tokens := s_tokens x - 1\<rparr>)] (ret OSS_SUCCESS)
          else if to = 0 then ret OSS_ERROR_TO
          else
            seq [semaphore_blocked_enq p r, ignore (svc_block to OS_TASK_FLAG_SEMAPHORE)]
              (ret OSS_ERROR_TO)) s)"

definition osi_semaphore_release :: "semaphore_ptr \<Rightarrow> u32 os" where
  "osi_semaphore_release p s =
     (if get_blocked (Semaphore_blocked p) s \<noteq> None then
        seq
          [bind (semaphore_blocked_deq p) (\<lambda>b. bind (deref b) (\<lambda>t.
             block
               [ignore (osi_task_set_stacked_return t OSS_SUCCESS),
                ignore (osi_dispatch_or_queue t)]))]
          (ret OSS_SUCCESS)
      else
        seq [upd_semaphore p (\<lambda>x. x\<lparr>s_tokens := s_tokens x + 1\<rparr>)] (ret OSS_SUCCESS)) s"

section \<open>The blocked tasks\<close>

interpretation semaphore_room:
  waiting_room Semaphore_blocked semaphore_blocked_enq semaphore_blocked_deq
proof
  fix p s xs t
  assume "is_blocked (Semaphore_blocked p) s xs" "t \<notin> set xs" "nblocked_of s t = None"
    and st: "standing (Semaphore_blocked p) (task s t)"
  then have "blocked_append (Semaphore_blocked p) t s =
      Some (Inr ((), block_list (Semaphore_blocked p) (xs @ [t]) s))"
    by (intro blocked_append_eq)
  moreover have "t_semaphore (task (block_list (Semaphore_blocked p) (xs @ [t]) s) t) = None"
    using standing_block_list [of "Semaphore_blocked p"] st by (metis standing.simps(3))
  ultimately show "semaphore_blocked_enq p t s = Some (Inr ((), take_seat (Semaphore_blocked p) t xs s))"
    by (simp add: semaphore_blocked_enq_def take_seat_def exec Let_def)
next
  fix p s
  assume "is_blocked (Semaphore_blocked p) s []"
  then show "semaphore_blocked_deq p s = Some (Inr (None, s))"
    using is_blocked_first [of "Semaphore_blocked p" s "[]"] by (simp add: semaphore_blocked_deq_def exec)
next
  fix p s t xs
  assume b: "is_blocked (Semaphore_blocked p) s (t # xs)"
    and "seated_at (Semaphore_blocked p) (task s t)"
  then show "semaphore_blocked_deq p s = Some (Inr (Some t, leave_list (Semaphore_blocked p) t (t # xs) s))"
    using is_blocked_first [OF b] is_blocked_mid [of "Semaphore_blocked p" s "[]" t xs]
    unfolding leave_list_head [OF b]
    by (simp add: semaphore_blocked_deq_def exec del: put_blocked.simps)
qed

section \<open>Tokens\<close>

definition with_tokens :: "semaphore_ptr \<Rightarrow> u32 \<Rightarrow> kernel \<Rightarrow> kernel" where
  "with_tokens p n s = s\<lparr>semaphore_at := (semaphore_at s)(p := (semaphore_at s p)\<lparr>s_tokens := n\<rparr>)\<rparr>"

text \<open>
  As long as nobody waits, a semaphore counts its tokens: an acquisition takes one, or answers
  \<open>OSS_ERROR_TO\<close> when there is none and the time limit is zero; a release adds one, modulo
  \<open>2 ^ 32\<close>; and a release undoes an acquisition.
\<close>

lemma semaphore_counts:
  assumes r: "running s = Some r" and "t_semaphore (task s r) = None"
    and b: "is_blocked (Semaphore_blocked p) s []"
  shows "osi_semaphore_release p s = Some (Inr (OSS_SUCCESS, with_tokens p (s_tokens (semaphore_at s p) + 1) s)) \<and>
    osi_semaphore_acquire p 0 s =
      (if s_tokens (semaphore_at s p) = 0 then Some (Inr (OSS_ERROR_TO, s))
       else Some (Inr (OSS_SUCCESS, with_tokens p (s_tokens (semaphore_at s p) - 1) s))) \<and>
    (s_tokens (semaphore_at s p) \<noteq> 0 \<longrightarrow>
      bind (osi_semaphore_acquire p to) (\<lambda>_. osi_semaphore_release p) s = Some (Inr (OSS_SUCCESS, s)))"
proof -
  have nb: "get_blocked (Semaphore_blocked p) s = None" using is_blocked_first [OF b] by simp
  have "(semaphore_at s p)\<lparr>s_tokens := s_tokens (semaphore_at s p)\<rparr> = semaphore_at s p" by simp
  with assms nb show ?thesis
    by (simp add: osi_semaphore_release_def osi_semaphore_acquire_def running_task_def exec
        with_tokens_def word_gt_0)
qed

lemma semaphore_counts_example:
  "osi_semaphore_release 0 example_base = Some (Inr (OSS_SUCCESS, with_tokens 0 1 example_base))"
  using semaphore_counts [of example_base 1 0 0]
  by (simp add: is_blocked_def example_task_def) (simp add: example_base_def blank_defs)

section \<open>Waking\<close>

lemma dispatch_semaphore_waiter:
  assumes "running s = Some r" and "r \<noteq> t" and "t_flags (task s t) = OS_TASK_FLAG_SEMAPHORE"
    and "t_mutex (task s t) = None" and "t_queue (task s t) = None"
  shows "osi_dispatch (Some t) s = Some (Inl (Assertion ''task->mutex != NULL''))"
  using assms by (simp add: osi_dispatch_def dispatch_leave_def dispatch_leave_mutex_def exec)

text \<open>
  C35: releasing a semaphore on which a task waits that should run next fails an assertion.  The flags
  of the waiting task, \<open>OS_TASK_FLAG_SEMAPHORE = 3\<close>, contain the flag of a mutex, 1, so that
  \<open>osi_dispatch\<close> takes it for a task blocked on a mutex.
\<close>

theorem semaphore_release_fails:
  assumes r: "running s = Some r" "r \<noteq> t"
    and b: "is_blocked (Semaphore_blocked p) s (t # ts)"
    and w: "t_semaphore (task s t) = Some p" "t_flags (task s t) = OS_TASK_FLAG_SEMAPHORE"
      "t_mutex (task s t) = None" "t_queue (task s t) = None"
    and q: "queues_ok s rs ws" "\<forall>x\<in>set rs. \<not> higher s x t"
  shows "faults (osi_semaphore_release p) s (Assertion ''task->mutex != NULL'')"
proof -
  let ?b = "Semaphore_blocked p"
  let ?s1 = "with_mem (osi_task_return_regs t s) OSS_SUCCESS (leave_list ?b t (t # ts) s)"
  have "get_blocked ?b s = Some t" using is_blocked_first [OF b] by simp
  moreover have "semaphore_blocked_deq p s = Some (Inr (Some t, leave_list ?b t (t # ts) s))"
    using semaphore_room.deq_head [OF b] w by simp
  moreover have "osi_dispatch_or_queue t ?s1 = Some (Inl (Assertion ''task->mutex != NULL''))"
  proof -
    have "queues_ok ?s1 rs ws"
      using q(1) queues_ok_leave_list same_kernel_steady(1) [OF same_kernel_with(1)] by metis
    then have "runqueue_has_higher_priority t ?s1 = Some (Inr (False, ?s1))"
      using runqueue_has_higher_priority_eq [OF queues_okD(2), of ?s1 rs ws t] q(2)
      by (simp add: higher_def with_mem_def)
    moreover have "osi_dispatch (Some t) ?s1 = Some (Inl (Assertion ''task->mutex != NULL''))"
      by (rule dispatch_semaphore_waiter [of _ r]) (use r w in \<open>simp_all add: with_mem_def\<close>)
    ultimately show ?thesis by (simp add: osi_dispatch_or_queue_def exec)
  qed
  ultimately show ?thesis
    by (simp add: faults_def osi_semaphore_release_def exec set_stacked_return_eq)
qed

theorem semaphore_release_fails_witness:
  "faults (osi_semaphore_release 0) (example_kernel (Semaphore_blocked 0)) (Assertion ''task->mutex != NULL'')"
proof -
  let ?s = "example_kernel (Semaphore_blocked 0)"
  have "queues_ok ?s [1, 0] [2]"
    by (auto simp: queues_ok_def wq_ok_def links_ok_def rq_ok_def is_list_def higher_def)
  moreover have "is_blocked (Semaphore_blocked 0) ?s [2]" by (simp add: is_blocked_def)
  ultimately show ?thesis
    using semaphore_release_fails [of ?s 1 2 0 "[]" "[1, 0]" "[2]"]
    by (simp add: example_waiter_def higher_def)
qed

end
