(* ===== verification/Mutex.thy ===== *)
theory Mutex
  imports Examples
begin

unbundle bit_operations_syntax

text \<open>
  Mutexes (\<open>src/src/mutex.c\<close>): recursive locks with an owner and a nesting level, handed to
  the blocked tasks in the order of their arrival.
\<close>

section \<open>The operations\<close>

definition mutex_blocked_enq :: "mutex_ptr \<Rightarrow> task_ptr \<Rightarrow> unit os" where
  "mutex_blocked_enq m t =
     block
       [blocked_append (Mutex_blocked m) t,
        (\<lambda>s. os_assert ''task->mutex == NULL'' (t_mutex (task s t) = None) s),
        upd_task t (\<lambda>x. x\<lparr>t_mutex := Some m\<rparr>)]"

definition mutex_blocked_deq :: "mutex_ptr \<Rightarrow> task_ptr option os" where
  "mutex_blocked_deq m s =
     (case get_blocked (Mutex_blocked m) s of
        None \<Rightarrow> ret None
      | Some t \<Rightarrow>
          seq
            [os_assert ''task->mutex == mutex'' (t_mutex (task s t) = Some m),
             modify (put_blocked (Mutex_blocked m) (nblocked_of s t)),
             upd_task t (\<lambda>x. x\<lparr>t_nblocked := None\<rparr>)]
            (ret (Some t))) s"

definition osi_mutex_create :: "mutex_ptr \<Rightarrow> os_mutex_definition_t \<Rightarrow> u32 os" where
  "osi_mutex_create m def =
     seq
       [upd_mutex m (\<lambda>x. x\<lparr>m_def := def, m_owner := None,
          m_blocked := \<lparr>b_type = 0, b_tasks = None\<rparr>, m_level := 0, m_flags := md_flags def\<rparr>)]
       (ret OSS_SUCCESS)"

definition os_mutex_is_owner :: "mutex_ptr \<Rightarrow> u32 os" where
  "os_mutex_is_owner m s =
     (if m_owner (mutex_at s m) = running s then ret OSS_SUCCESS else ret OSS_ERROR) s"

definition osi_mutex_acquire :: "mutex_ptr \<Rightarrow> u32 \<Rightarrow> u32 os" where
  "osi_mutex_acquire m to =
     bind running_task (\<lambda>r s.
       seq [os_assert ''task->mutex == NULL || task->mutex == mutex''
              (t_mutex (task s r) = None \<or> t_mutex (task s r) = Some m)]
         (if m_level (mutex_at s m) = 0 then
            seq [upd_mutex m (\<lambda>x. x\<lparr>m_owner := Some r, m_level := 1\<rparr>)] (ret OSS_SUCCESS)
          else if m_owner (mutex_at s m) = Some r then
            (if (ucast (m_level (mutex_at s m)) :: u32) = UINT32_MAX then ret OSS_ERROR
             else seq [upd_mutex m (\<lambda>x. x\<lparr>m_level := m_level x + 1\<rparr>)] (ret OSS_SUCCESS))
          else if to = 0 then ret OSS_ERROR_TO
          else
            seq [mutex_blocked_enq m r, ignore (svc_block to OS_TASK_FLAG_MUTEX)]
              (ret OSS_ERROR_TO)) s)"

definition osi_mutex_release :: "mutex_ptr \<Rightarrow> u32 os" where
  "osi_mutex_release m s =
     seq
       [os_assert ''mutex->level > 0'' (m_level (mutex_at s m) > 0),
        os_assert ''mutex->owner == os_task_self()'' (m_owner (mutex_at s m) = running s),
        upd_mutex m (\<lambda>x. x\<lparr>m_level := m_level x - 1\<rparr>)]
       (\<lambda>s. if m_level (mutex_at s m) \<noteq> 0 then ret OSS_SUCCESS s
            else
              seq
                [bind (deref (m_owner (mutex_at s m)))
                   (\<lambda>r. os_assert ''mutex->owner->mutex == NULL'' (t_mutex (task s r) = None)),
                 upd_mutex m (\<lambda>x. x\<lparr>m_owner := None\<rparr>),
                 guarded (get_blocked (Mutex_blocked m) s \<noteq> None)
                   (bind (mutex_blocked_deq m) (\<lambda>p. bind (deref p) (\<lambda>t.
                      block
                        [upd_mutex m (\<lambda>x. x\<lparr>m_owner := Some t\<rparr>),
                         upd_mutex m (\<lambda>x. x\<lparr>m_level := 1\<rparr>),
                         ignore (osi_task_set_stacked_return t OSS_SUCCESS),
                         ignore (osi_dispatch_or_queue t)])))]
                (ret OSS_SUCCESS) s) s"

section \<open>The blocked tasks\<close>

interpretation mutex_room: waiting_room Mutex_blocked mutex_blocked_enq mutex_blocked_deq
proof
  fix p s xs t
  assume "is_blocked (Mutex_blocked p) s xs" "t \<notin> set xs" "nblocked_of s t = None"
    and st: "standing (Mutex_blocked p) (task s t)"
  then have "blocked_append (Mutex_blocked p) t s = Some (Inr ((), block_list (Mutex_blocked p) (xs @ [t]) s))"
    by (intro blocked_append_eq)
  moreover have "t_mutex (task (block_list (Mutex_blocked p) (xs @ [t]) s) t) = None"
    using standing_block_list [of "Mutex_blocked p"] st by (metis standing.simps(1))
  ultimately show "mutex_blocked_enq p t s = Some (Inr ((), take_seat (Mutex_blocked p) t xs s))"
    by (simp add: mutex_blocked_enq_def take_seat_def exec Let_def)
next
  fix p s
  assume "is_blocked (Mutex_blocked p) s []"
  then show "mutex_blocked_deq p s = Some (Inr (None, s))"
    using is_blocked_first [of "Mutex_blocked p" s "[]"] by (simp add: mutex_blocked_deq_def exec)
next
  fix p s t xs
  assume b: "is_blocked (Mutex_blocked p) s (t # xs)" and "seated_at (Mutex_blocked p) (task s t)"
  then show "mutex_blocked_deq p s = Some (Inr (Some t, leave_list (Mutex_blocked p) t (t # xs) s))"
    using is_blocked_first [OF b] is_blocked_mid [of "Mutex_blocked p" s "[]" t xs]
    unfolding leave_list_head [OF b]
    by (simp add: mutex_blocked_deq_def exec del: put_blocked.simps)
qed

section \<open>Acquiring\<close>

definition with_mutex :: "mutex_ptr \<Rightarrow> task_ptr option \<Rightarrow> u16 \<Rightarrow> kernel \<Rightarrow> kernel" where
  "with_mutex m ow lv s =
     s\<lparr>mutex_at := (mutex_at s)(m := (mutex_at s m)\<lparr>m_owner := ow, m_level := lv\<rparr>)\<rparr>"

lemma others_kept_mutex: "others_kept (Mutex_blocked m) s (with_mutex m ow lv s)"
  by (simp add: others_kept_def with_mutex_def)

lemma mutex_update_order: "x\<lparr>m_level := lv, m_owner := ow\<rparr> = x\<lparr>m_owner := ow, m_level := lv\<rparr>"
  by simp

lemma mutex_same [simp]:
  "m_owner x = ow \<Longrightarrow> x\<lparr>m_owner := ow\<rparr> = x" "m_level x = lv \<Longrightarrow> x\<lparr>m_level := lv\<rparr> = x"
  by auto

lemma with_mutex_simps [simp]:
  "get_blocked b (with_mutex m ow lv s) = get_blocked b s"
  "same_kernel s (with_mutex m ow lv s)"
  "osi_task_return_regs t (with_mutex m ow lv s) = osi_task_return_regs t s"
proof -
  show "get_blocked b (with_mutex m ow lv s) = get_blocked b s" for b
    by (cases b) (simp_all add: with_mutex_def)
  then show "same_kernel s (with_mutex m ow lv s)"
    unfolding same_kernel_def by (simp add: task_core_def) (simp add: with_mutex_def)
qed (simp add: osi_task_return_regs_def with_mutex_def split: target.split)

text \<open>Acquiring where nothing makes the task wait.\<close>

lemma mutex_acquire_free:
  assumes r: "running s = Some r"
    and c: "m_level (mutex_at s m) = 0 \<or> m_owner (mutex_at s m) = Some r \<or> to = 0"
  shows "osi_mutex_acquire m to s =
    (if t_mutex (task s r) \<notin> {None, Some m}
     then Some (Inl (Assertion ''task->mutex == NULL || task->mutex == mutex''))
     else if m_level (mutex_at s m) = 0 then Some (Inr (OSS_SUCCESS, with_mutex m (Some r) 1 s))
     else if m_owner (mutex_at s m) = Some r
     then Some (Inr (OSS_SUCCESS, with_mutex m (Some r) (m_level (mutex_at s m) + 1) s))
     else Some (Inr (OSS_ERROR_TO, s)))"
proof -
  have n: "(ucast (m_level (mutex_at s m)) :: u32) \<noteq> UINT32_MAX"
  proof
    assume "(ucast (m_level (mutex_at s m)) :: u32) = UINT32_MAX"
    then have "uint (ucast (m_level (mutex_at s m)) :: u32) = 0xFFFFFFFF" by simp
    then have "take_bit 32 (uint (m_level (mutex_at s m))) = 0xFFFFFFFF" by (simp add: unsigned_ucast_eq)
    moreover have "take_bit 32 (uint (m_level (mutex_at s m))) = uint (m_level (mutex_at s m))"
      using uint_lt2p [of "m_level (mutex_at s m)"] by (intro take_bit_int_eq_self) simp_all
    ultimately show False using uint_lt2p [of "m_level (mutex_at s m)"] by simp
  qed
  consider "m_level (mutex_at s m) = 0"
    | "m_level (mutex_at s m) \<noteq> 0" "m_owner (mutex_at s m) = Some r"
    | "m_level (mutex_at s m) \<noteq> 0" "m_owner (mutex_at s m) \<noteq> Some r" "to = 0"
    using c by blast
  then show ?thesis
    by cases (use r n in \<open>simp_all add: osi_mutex_acquire_def running_task_def exec with_mutex_def\<close>)
qed

text \<open>
  \<open>osi_mutex_acquire\<close> without contention: a free mutex goes to the caller, a second acquisition
  by the owner nests, and with a zero time limit a held mutex is left alone.  A task that is
  on record as waiting for another mutex fails the assertion, and nothing else can happen.
\<close>

lemma mutex_acquire_without_waiting:
  assumes r: "running s = Some r"
    and c: "m_level (mutex_at s m) = 0 \<or> m_owner (mutex_at s m) = Some r \<or> to = 0"
  shows "osi_mutex_acquire m to s =
    (if t_mutex (task s r) \<notin> {None, Some m}
     then Some (Inl (Assertion ''task->mutex == NULL || task->mutex == mutex''))
     else if m_level (mutex_at s m) = 0 then Some (Inr (OSS_SUCCESS, with_mutex m (Some r) 1 s))
     else if m_owner (mutex_at s m) = Some r
     then Some (Inr (OSS_SUCCESS, with_mutex m (Some r) (m_level (mutex_at s m) + 1) s))
     else Some (Inr (OSS_ERROR_TO, s)))"
  by (rule mutex_acquire_free [OF assms])

lemma mutex_acquire_without_waiting_example:
  "osi_mutex_acquire 0 5 example_base = Some (Inr (OSS_SUCCESS, with_mutex 0 (Some 1) 1 example_base))"
  using mutex_acquire_without_waiting [of example_base 1 0 5]
  by (simp add: example_base_def blank_defs)

text \<open>
  C28: the nesting level has 16 bits and the code tests it against the largest 32-bit number, so the
  65536th nested acquisition wraps it to zero: the owner holds a mutex that counts as free,
  and the next task to ask for it gets it as well.
\<close>

theorem mutex_level_wraps:
  assumes "running s = Some r" and "m_owner (mutex_at s m) = Some r" and "m_level (mutex_at s m) = 0xFFFF"
    and "t_mutex (task s r) = None" and "t_mutex (task s x) = None"
  shows "\<exists>s'. osi_mutex_acquire m to s = Some (Inr (OSS_SUCCESS, s')) \<and>
    m_owner (mutex_at s' m) = Some r \<and> m_level (mutex_at s' m) = 0 \<and>
    osi_mutex_acquire m to (s'\<lparr>running := Some x\<rparr>) =
      Some (Inr (OSS_SUCCESS, with_mutex m (Some x) 1 (s'\<lparr>running := Some x\<rparr>)))"
  using assms
  by (simp add: osi_mutex_acquire_def running_task_def exec with_mutex_def mutex_update_order)

theorem mutex_level_wraps_witness:
  "\<exists>s'. osi_mutex_acquire 0 0 (with_mutex 0 (Some 1) 0xFFFF example_base) = Some (Inr (OSS_SUCCESS, s')) \<and>
     m_level (mutex_at s' 0) = 0"
  using mutex_level_wraps [of "with_mutex 0 (Some 1) 0xFFFF example_base" 1 0 0 0]
  by (auto simp: with_mutex_def)




section \<open>Releasing\<close>

lemma mutex_release_eq:
  assumes lv: "m_level (mutex_at s m) > 0" and ow: "m_owner (mutex_at s m) = Some r"
    and r: "running s = Some r"
  shows "m_level (mutex_at s m) \<noteq> 1 \<Longrightarrow> osi_mutex_release m s =
      Some (Inr (OSS_SUCCESS, with_mutex m (Some r) (m_level (mutex_at s m) - 1) s))"
    and "m_level (mutex_at s m) = 1 \<Longrightarrow> t_mutex (task s r) = None \<Longrightarrow>
      get_blocked (Mutex_blocked m) s = None \<Longrightarrow>
      osi_mutex_release m s = Some (Inr (OSS_SUCCESS, with_mutex m None 0 s))"
proof -
  have lv0: "m_level (mutex_at s m) - 1 = 0 \<longleftrightarrow> m_level (mutex_at s m) = 1" by simp
  show "m_level (mutex_at s m) \<noteq> 1 \<Longrightarrow> osi_mutex_release m s =
      Some (Inr (OSS_SUCCESS, with_mutex m (Some r) (m_level (mutex_at s m) - 1) s))"
    using lv ow r lv0 by (simp add: osi_mutex_release_def exec with_mutex_def)
  show "m_level (mutex_at s m) = 1 \<Longrightarrow> t_mutex (task s r) = None \<Longrightarrow>
      get_blocked (Mutex_blocked m) s = None \<Longrightarrow>
      osi_mutex_release m s = Some (Inr (OSS_SUCCESS, with_mutex m None 0 s))"
    using ow r by (simp add: osi_mutex_release_def exec with_mutex_def mutex_update_order)
qed

text \<open>
  Acquiring a free mutex and releasing it again leaves the kernel as it was.
\<close>

lemma mutex_acquire_release:
  assumes "running s = Some r" and "t_mutex (task s r) = None" and "m_level (mutex_at s m) = 0"
    and "m_owner (mutex_at s m) = None" and "is_blocked (Mutex_blocked m) s []"
  shows "bind (osi_mutex_acquire m to) (\<lambda>_. osi_mutex_release m) s = Some (Inr (OSS_SUCCESS, s))"
proof -
  let ?s = "with_mutex m (Some r) 1 s"
  have "get_blocked (Mutex_blocked m) s = None" using is_blocked_first [OF assms(5)] by simp
  then have g: "get_blocked (Mutex_blocked m) ?s = None"
    using with_mutex_simps(2) [of s m "Some r" 1] unfolding same_kernel_def by metis
  have undo: "with_mutex m None 0 ?s = s"
    using assms(3,4) by (simp add: with_mutex_def)
  have "osi_mutex_release m ?s = Some (Inr (OSS_SUCCESS, with_mutex m None 0 ?s))"
    by (rule mutex_release_eq(2)) (use assms g in \<open>simp_all add: with_mutex_def\<close>)
  moreover have "osi_mutex_acquire m to s = Some (Inr (OSS_SUCCESS, ?s))"
    using assms by (simp add: osi_mutex_acquire_def running_task_def exec with_mutex_def)
  ultimately show ?thesis using undo by (simp add: exec)
qed

lemma mutex_acquire_release_example:
  "bind (osi_mutex_acquire 0 3) (\<lambda>_. osi_mutex_release 0) example_base = Some (Inr (OSS_SUCCESS, example_base))"
  using mutex_acquire_release [of example_base 1 0 3]
  by (simp add: example_base_def blank_defs is_blocked_def)

text \<open>The mutex goes to the task that has waited longest.\<close>

lemma mutex_to_waiter:
  assumes k: "kernel_ok s r rs ws L" and ow: "m_owner (mutex_at s m) = Some r"
    and lv: "m_level (mutex_at s m) = 1" and xs: "L (Mutex_blocked m) = t # ys"
  shows "\<exists>s'. osi_mutex_release m s = Some (Inr (OSS_SUCCESS, s')) \<and>
    m_owner (mutex_at s' m) = Some t \<and> m_level (mutex_at s' m) = 1 \<and>
    mem s' (osi_task_return_regs t s) = OSS_SUCCESS \<and>
    settled r (L(Mutex_blocked m := ys)) s' \<and>
    (prio_of s r \<le> prio_of s t \<longrightarrow> scheduled s' = Some t) \<and>
    others_kept (Mutex_blocked m) s s'"
proof -
  let ?b = "Mutex_blocked m" and ?a = "osi_task_return_regs t s"
  let ?s0 = "with_mutex m None 0 s"
  let ?s1 = "leave_list ?b t (t # ys) ?s0"
  let ?s2 = "with_mutex m (Some t) 1 ?s1"
  let ?s3 = "with_mem ?a OSS_SUCCESS ?s2"
  note fl = kernel_ok_flags [OF k] and fw = first_waiter [of s r rs ws L ?b, OF k xs with_mutex_simps(2)]
  have deq: "mutex_blocked_deq m ?s0 = Some (Inr (Some t, ?s1))"
    using mutex_room.deq_head fw by simp
  obtain s' where s': "osi_dispatch_or_queue t ?s3 = Some (Inr (OSS_SUCCESS, s'))"
    "settled r (L(?b := ys)) s'" "same_objects ?s3 s'"
    "prio_of s r \<le> prio_of s t \<longrightarrow> scheduled s' = Some t"
    by (rule wake_first [of s r rs ws L ?b, OF k xs with_mutex_simps(2)
          same_kernel_trans [OF with_mutex_simps(2) same_kernel_with(1)]])
  have step: "s\<lparr>mutex_at := (mutex_at s)(m := (mutex_at s m)\<lparr>m_level := 0, m_owner := None\<rparr>)\<rparr> = ?s0"
    by (simp add: with_mutex_def mutex_update_order)
  have own: "?s1\<lparr>mutex_at := (mutex_at ?s1)(m := (mutex_at ?s1 m)\<lparr>m_owner := Some t, m_level := 1\<rparr>)\<rparr> = ?s2"
    by (simp add: with_mutex_def)
  have gb: "get_blocked ?b s = Some t" using fw(2) by simp
  have "osi_mutex_release m s = Some (Inr (OSS_SUCCESS, s'))"
    using ow lv fl gb deq s'(1)
    by (simp add: osi_mutex_release_def exec step own set_stacked_return_eq)
  moreover have "m_owner (mutex_at s' m) = Some t" "m_level (mutex_at s' m) = 1"
    "mem s' ?a = OSS_SUCCESS"
    using same_objectsD [OF s'(3)] by (simp_all add: with_mem_def with_mutex_def)
  moreover have "others_kept ?b s s'"
  proof -
    have "others_kept ?b s ?s1"
      by (rule others_kept_trans [OF others_kept_mutex others_kept_objects [OF same_objects_leave_list]])
    moreover have "others_kept ?b ?s1 ?s3" by (rule others_kept_trans [OF others_kept_mutex others_kept_with(1)])
    ultimately show ?thesis using others_kept_objects [OF s'(3)] others_kept_trans by blast
  qed
  ultimately show ?thesis using s'(2,4) by blast
qed

text \<open>
  C8: the last release of a mutex that tasks are blocked on hands it to the one that has waited longest:
  that task owns it at level 1, finds \<open>OSS_SUCCESS\<close> in its stacked return register, has left the
  list, and is scheduled at once unless its priority is lower than the caller's; the
  invariant is kept.
\<close>

theorem mutex_release_hands_over:
  assumes k: "kernel_ok s r rs ws L" and ow: "m_owner (mutex_at s m) = Some r"
    and lv: "m_level (mutex_at s m) = 1" and xs: "L (Mutex_blocked m) = t # ys"
  shows "\<exists>s'. osi_mutex_release m s = Some (Inr (OSS_SUCCESS, s')) \<and>
    m_owner (mutex_at s' m) = Some t \<and> m_level (mutex_at s' m) = 1 \<and>
    mem s' (osi_task_return_regs t s) = OSS_SUCCESS \<and>
    settled r (L(Mutex_blocked m := ys)) s' \<and>
    (prio_of s r \<le> prio_of s t \<longrightarrow> scheduled s' = Some t)"
  using mutex_to_waiter [OF assms] by blast

theorem mutex_release_hands_over_witness:
  "\<exists>s'. osi_mutex_release 0 (with_mutex 0 (Some 1) 1 (example_kernel (Mutex_blocked 0))) =
      Some (Inr (OSS_SUCCESS, s')) \<and> m_owner (mutex_at s' 0) = Some 2 \<and> scheduled s' = Some 2"
proof -
  let ?b = "Mutex_blocked 0"
  let ?s = "with_mutex 0 (Some 1) 1 (example_kernel ?b)"
  have "kernel_ok (example_kernel ?b) 1 [1, 0] [2] (example_rooms ?b)" by (rule example_kernel_ok) simp
  then have k: "kernel_ok ?s 1 [1, 0] [2] (example_rooms ?b)"
    using same_kernel_steady(4) [OF with_mutex_simps(2)] by blast
  have "m_owner (mutex_at ?s 0) = Some 1" "m_level (mutex_at ?s 0) = 1"
    "prio_of ?s 1 \<le> prio_of ?s 2" "example_rooms ?b ?b = [2]"
    by (simp_all add: with_mutex_def example_rooms_def)
  then show ?thesis using mutex_release_hands_over [OF k, of 0 2 "[]"] by metis
qed

end
