(* ===== verification/Rwlock.thy ===== *)
theory Rwlock
  imports Examples
begin

unbundle bit_operations_syntax

text \<open>
  Read-write locks (\<open>src/src/rwlock.c\<close>): any number of readers or one writer.  The mode a
  blocked task asks for is kept in the word it also uses for messages.
\<close>

section \<open>The operations\<close>

definition rwlock_blocked_enq :: "rwlock_ptr \<Rightarrow> task_ptr \<Rightarrow> unit os" where
  "rwlock_blocked_enq l t =
     block
       [blocked_append (Rwlock_blocked l) t,
        (\<lambda>s. os_assert ''task->rwlock == NULL'' (t_rwlock (task s t) = None) s),
        upd_task t (\<lambda>x. x\<lparr>t_rwlock := Some l\<rparr>)]"

definition osi_rwlock_create :: "rwlock_ptr \<Rightarrow> os_rwlock_definition_t \<Rightarrow> u32 os" where
  "osi_rwlock_create l def =
     seq
       [upd_rwlock l (\<lambda>x. x\<lparr>r_def := def, r_blocked := \<lparr>b_type = 0, b_tasks = None\<rparr>,
          r_readers := 0, r_writers := 0, r_flags := rd_flags def, r_writer := None\<rparr>)]
       (ret OSS_SUCCESS)"

definition osi_rwlock_acquire_read :: "rwlock_ptr \<Rightarrow> u32 \<Rightarrow> u32 os" where
  "osi_rwlock_acquire_read l to =
     bind running_task (\<lambda>r s.
       seq [os_assert ''task->rwlock == NULL || task->rwlock == rwlock''
              (t_rwlock (task s r) = None \<or> t_rwlock (task s r) = Some l)]
         (if r_writers (rwlock_at s l) = 0 then
            seq [upd_rwlock l (\<lambda>x. x\<lparr>r_readers := r_readers x + 1\<rparr>)] (ret OSS_SUCCESS)
          else if to = 0 then ret OSS_ERROR_TO
          else
            seq
              [upd_task r (\<lambda>x. x\<lparr>t_c := OS_RWLOCK_DESIRED_READ\<rparr>),
               rwlock_blocked_enq l r,
               ignore (svc_block to OS_TASK_FLAG_RWLOCK)]
              (ret OSS_ERROR_TO)) s)"

definition osi_rwlock_acquire_write :: "rwlock_ptr \<Rightarrow> u32 \<Rightarrow> u32 os" where
  "osi_rwlock_acquire_write l to =
     bind running_task (\<lambda>r s.
       seq [os_assert ''task->rwlock == NULL || task->rwlock == rwlock''
              (t_rwlock (task s r) = None \<or> t_rwlock (task s r) = Some l)]
         (if r_readers (rwlock_at s l) = 0 \<and> r_writers (rwlock_at s l) = 0 then
            seq
              [upd_rwlock l (\<lambda>x. x\<lparr>r_writers := r_writers x + 1\<rparr>),
               upd_rwlock l (\<lambda>x. x\<lparr>r_writer := Some r\<rparr>)]
              (ret OSS_SUCCESS)
          else if to = 0 then ret OSS_ERROR_TO
          else
            seq
              [upd_task r (\<lambda>x. x\<lparr>t_c := OS_RWLOCK_DESIRED_WRITE\<rparr>),
               rwlock_blocked_enq l r,
               ignore (svc_block to OS_TASK_FLAG_RWLOCK)]
              (ret OSS_ERROR_TO)) s)"

text \<open>The reader \<open>t\<close>, behind \<open>prev\<close> in the list, gets the lock.\<close>

definition rwlock_unlink :: "rwlock_ptr \<Rightarrow> task_ptr option \<Rightarrow> task_ptr \<Rightarrow> unit os" where
  "rwlock_unlink l prev t s =
     (case prev of
        None \<Rightarrow> modify (put_blocked (Rwlock_blocked l) (nblocked_of s t))
      | Some p \<Rightarrow> upd_task p (\<lambda>x. x\<lparr>t_nblocked := nblocked_of s t\<rparr>)) s"

definition rwlock_wake_reader :: "rwlock_ptr \<Rightarrow> task_ptr option \<Rightarrow> task_ptr \<Rightarrow> unit os" where
  "rwlock_wake_reader l prev t =
     block
       [rwlock_unlink l prev t,
        upd_task t (\<lambda>x. x\<lparr>t_nblocked := None\<rparr>),
        upd_task t (\<lambda>x. x\<lparr>t_c := OS_RWLOCK_DESIRED_NONE\<rparr>),
        ignore (osi_task_set_stacked_return t OSS_SUCCESS),
        ignore (osi_task_status_set t OS_TASK_STATUS_IDLE),
        upd_rwlock l (\<lambda>x. x\<lparr>r_readers := r_readers x + 1\<rparr>)]"

text \<open>
  The walk over the blocked tasks; the link of a reader that has been woken is read after it
  has been cleared.
\<close>

partial_function (option) rwlock_wake_loop ::
  "rwlock_ptr \<Rightarrow> task_ptr option \<Rightarrow> task_ptr option \<Rightarrow> kernel \<Rightarrow> (fault + unit \<times> kernel) option" where
  "rwlock_wake_loop l prev iter s =
     (case iter of
        None \<Rightarrow> ret () s
      | Some t \<Rightarrow>
          if t_c (task s t) = OS_RWLOCK_DESIRED_READ
          then bind (rwlock_wake_reader l prev t) (\<lambda>_ s. rwlock_wake_loop l prev (nblocked_of s t) s) s
          else rwlock_wake_loop l (Some t) (nblocked_of s t) s)"

text \<open>
  There is no \<open>blocked_deq\<close> in this file: the release takes the first blocked task out itself.
\<close>

definition rwlock_first :: "rwlock_ptr \<Rightarrow> task_ptr option os" where
  "rwlock_first l s =
     (case get_blocked (Rwlock_blocked l) s of
        None \<Rightarrow> ret None
      | Some t \<Rightarrow>
          seq
            [(\<lambda>s. modify (put_blocked (Rwlock_blocked l) (nblocked_of s t)) s),
             upd_task t (\<lambda>x. x\<lparr>t_nblocked := None\<rparr>)]
            (ret (Some t))) s"

definition rwlock_wake_writer :: "rwlock_ptr \<Rightarrow> unit os" where
  "rwlock_wake_writer l =
     bind (rwlock_first l) (\<lambda>p. bind (deref p) (\<lambda>t.
       block
         [upd_task t (\<lambda>x. x\<lparr>t_c := OS_RWLOCK_DESIRED_NONE\<rparr>),
          upd_rwlock l (\<lambda>x. x\<lparr>r_writers := r_writers x + 1\<rparr>),
          upd_rwlock l (\<lambda>x. x\<lparr>r_writer := Some t\<rparr>),
          ignore (osi_task_set_stacked_return t OSS_SUCCESS),
          ignore (osi_dispatch_or_queue t)]))"

definition rwlock_wake :: "rwlock_ptr \<Rightarrow> unit os" where
  "rwlock_wake l s =
     (case get_blocked (Rwlock_blocked l) s of
        None \<Rightarrow> ret ()
      | Some t \<Rightarrow>
          if r_readers (rwlock_at s l) = 0 \<and> t_c (task s t) = OS_RWLOCK_DESIRED_WRITE
          then rwlock_wake_writer l
          else rwlock_wake_loop l None (Some t)) s"

definition osi_rwlock_release :: "rwlock_ptr \<Rightarrow> u32 os" where
  "osi_rwlock_release l s =
     seq
       [os_assert ''rwlock->readers > 0 || rwlock->writers == 1''
          (r_readers (rwlock_at s l) > 0 \<or> r_writers (rwlock_at s l) = 1),
        guarded (r_readers (rwlock_at s l) > 0) (upd_rwlock l (\<lambda>x. x\<lparr>r_readers := r_readers x - 1\<rparr>)),
        guarded (r_writers (rwlock_at s l) > 0)
          (block
             [os_assert ''rwlock->writer == task'' (r_writer (rwlock_at s l) = running s),
              upd_rwlock l (\<lambda>x. x\<lparr>r_writer := None\<rparr>),
              upd_rwlock l (\<lambda>x. x\<lparr>r_writers := r_writers x - 1\<rparr>)]),
        rwlock_wake l]
       (ret OSS_SUCCESS) s"

interpretation rwlock_room: waiting_room Rwlock_blocked rwlock_blocked_enq rwlock_first
proof
  fix p s xs t
  assume "is_blocked (Rwlock_blocked p) s xs" "t \<notin> set xs" "nblocked_of s t = None"
    and st: "standing (Rwlock_blocked p) (task s t)"
  then have "blocked_append (Rwlock_blocked p) t s = Some (Inr ((), block_list (Rwlock_blocked p) (xs @ [t]) s))"
    by (intro blocked_append_eq)
  moreover have "t_rwlock (task (block_list (Rwlock_blocked p) (xs @ [t]) s) t) = None"
    using standing_block_list [of "Rwlock_blocked p"] st by (metis standing.simps(4))
  ultimately show "rwlock_blocked_enq p t s = Some (Inr ((), take_seat (Rwlock_blocked p) t xs s))"
    by (simp add: rwlock_blocked_enq_def take_seat_def exec Let_def)
next
  fix p s
  assume "is_blocked (Rwlock_blocked p) s []"
  then show "rwlock_first p s = Some (Inr (None, s))"
    using is_blocked_first [of "Rwlock_blocked p" s "[]"] by (simp add: rwlock_first_def exec)
next
  fix p s t xs
  assume b: "is_blocked (Rwlock_blocked p) s (t # xs)" and "seated_at (Rwlock_blocked p) (task s t)"
  then show "rwlock_first p s = Some (Inr (Some t, leave_list (Rwlock_blocked p) t (t # xs) s))"
    using is_blocked_first [OF b] is_blocked_mid [of "Rwlock_blocked p" s "[]" t xs]
    unfolding leave_list_head [OF b]
    by (simp add: rwlock_first_def exec del: put_blocked.simps)
qed

section \<open>The state of the lock\<close>

definition with_rwlock :: "rwlock_ptr \<Rightarrow> os_rwlock_t \<Rightarrow> kernel \<Rightarrow> kernel" where
  "with_rwlock l x s = s\<lparr>rwlock_at := (rwlock_at s)(l := x)\<rparr>"

lemma others_kept_rwlock: "others_kept (Rwlock_blocked l) s (with_rwlock l x s)"
  by (simp add: others_kept_def with_rwlock_def)

lemma with_rwlock_simps [simp]:
  "rwlock_at (with_rwlock l x s) = (rwlock_at s)(l := x)" "task (with_rwlock l x s) = task s"
  "running (with_rwlock l x s) = running s" "scheduled (with_rwlock l x s) = scheduled s"
  "with_rwlock l y (with_rwlock l x s) = with_rwlock l y s"
  "with_rwlock l (rwlock_at s l) s = s" "mem (with_rwlock l x s) = mem s"
  "uptime (with_rwlock l x s) = uptime s" "target (with_rwlock l x s) = target s"
  "osi_task_return_regs t (with_rwlock l x s) = osi_task_return_regs t s"
  by (simp_all add: with_rwlock_def osi_task_return_regs_def split: target.split)

lemma get_blocked_with_rwlock:
  "get_blocked b (with_rwlock l x s) =
     (if b = Rwlock_blocked l then b_tasks (r_blocked x) else get_blocked b s)"
  by (cases b) (simp_all add: with_rwlock_def)

lemma same_kernel_rwlock:
  "b_tasks (r_blocked x) = b_tasks (r_blocked (rwlock_at s l)) \<Longrightarrow> same_kernel s (with_rwlock l x s)"
  unfolding same_kernel_def by (simp add: get_blocked_with_rwlock) (simp add: with_rwlock_def)

lemma upd_rwlock_eq: "upd_rwlock l f s = Some (Inr ((), with_rwlock l (f (rwlock_at s l)) s))"
  by (simp add: exec with_rwlock_def)

lemma upd_desired_eq: "upd_task t (\<lambda>x. x\<lparr>t_c := v\<rparr>) s = Some (Inr ((), with_c t v s))"
  by (simp add: exec with_c_def)

text \<open>At most one writer, and no reader beside it.\<close>

definition rw_ok :: "os_rwlock_t \<Rightarrow> bool" where
  "rw_ok x \<longleftrightarrow> r_writers x = 0 \<or> r_writers x = 1 \<and> r_readers x = 0"

definition released :: "os_rwlock_t \<Rightarrow> os_rwlock_t" where
  "released x =
     (let y = if r_readers x > 0 then x\<lparr>r_readers := r_readers x - 1\<rparr> else x
      in if r_writers y > 0 then y\<lparr>r_writer := None, r_writers := r_writers y - 1\<rparr> else y)"

lemma released_simps [simp]:
  "r_blocked (released x) = r_blocked x" "r_def (released x) = r_def x"
  "r_readers (released x) = (if r_readers x > 0 then r_readers x - 1 else r_readers x)"
  "r_writers (released x) = (if r_writers x > 0 then r_writers x - 1 else r_writers x)"
  by (simp_all add: released_def Let_def)

lemma rwlock_release_eq:
  assumes "r_readers (rwlock_at s l) > 0 \<or> r_writers (rwlock_at s l) = 1"
    and "r_writers (rwlock_at s l) > 0 \<Longrightarrow> r_writer (rwlock_at s l) = running s"
  shows "osi_rwlock_release l s =
    bind (rwlock_wake l) (\<lambda>_. ret OSS_SUCCESS) (with_rwlock l (released (rwlock_at s l)) s)"
  using assms
  by (simp add: osi_rwlock_release_def upd_rwlock_eq exec released_def Let_def del: statement_apply(6))

lemma rest_with:
  "rwlock_at (with_mem a v s) = rwlock_at s" "rwlock_at (with_c t v s) = rwlock_at s"
  "rwlock_at (put_blocked b p s) = (case b of Rwlock_blocked l \<Rightarrow>
     (rwlock_at s)(l := (rwlock_at s l)\<lparr>r_blocked := (r_blocked (rwlock_at s l))\<lparr>b_tasks := p\<rparr>\<rparr>)
     | _ \<Rightarrow> rwlock_at s)"
  by (simp_all add: with_mem_def with_c_def) (cases b; simp)

section \<open>Waiting\<close>

lemma rwlock_waits:
  fixes l :: rwlock_ptr
  assumes k: "kernel_ok s r rs ws L" and ms: "may_wait s r to"
  defines "gives \<equiv> \<lambda>v s'. gave_way (with_c r v s) r to
      (L(Rwlock_blocked l := L (Rwlock_blocked l) @ [r])) s' \<and>
      rwlock_rest (rwlock_at s' l) = rwlock_rest (rwlock_at s l) \<and>
      others_kept (Rwlock_blocked l) s s'"
  shows "\<not> (r_writers (rwlock_at s l) = 0 \<or> to = 0) \<Longrightarrow>
      \<exists>s'. osi_rwlock_acquire_read l to s = Some (Inr (OSS_ERROR_TO, s')) \<and> gives OS_RWLOCK_DESIRED_READ s'"
    and "\<not> (r_readers (rwlock_at s l) = 0 \<and> r_writers (rwlock_at s l) = 0 \<or> to = 0) \<Longrightarrow>
      \<exists>s'. osi_rwlock_acquire_write l to s = Some (Inr (OSS_ERROR_TO, s')) \<and> gives OS_RWLOCK_DESIRED_WRITE s'"
proof -
  note fl = kernel_ok_flags [OF k]
  let ?L = "L(Rwlock_blocked l := L (Rwlock_blocked l) @ [r])"
  have blk: "\<exists>s'. block [rwlock_blocked_enq l r, ignore (svc_block to (room_flag (Rwlock_blocked l)))]
      (with_c r v s) = Some (Inr ((), s')) \<and> gave_way (with_c r v s) r to ?L s' \<and>
      rwlock_rest (rwlock_at s' l) = rwlock_rest (rwlock_at s l) \<and>
      others_kept (Rwlock_blocked l) s s'" for v
  proof -
    have k': "kernel_ok (with_c r v s) r rs ws L" "may_wait (with_c r v s) r to"
      using k ms same_kernel_steady [OF same_kernel_with(2)] by auto
    obtain s' where "block [rwlock_blocked_enq l r, ignore (svc_block to (room_flag (Rwlock_blocked l)))]
        (with_c r v s) = Some (Inr ((), s'))" "gave_way (with_c r v s) r to ?L s'"
      "same_objects (with_c r v s) s'"
      by (rule rwlock_room.block_behind [OF k', of l]) simp
    moreover from this have "others_kept (Rwlock_blocked l) s s'"
      using others_kept_trans [OF others_kept_with(2) others_kept_objects] by blast
    ultimately show ?thesis by (auto simp: same_objects_def rest_with)
  qed
  have "\<exists>s'. block [rwlock_blocked_enq l r, ignore (svc_block to (room_flag (Rwlock_blocked l)))]
      (with_c r v s) = Some (Inr ((), s')) \<and> gives v s'" for v
    using blk unfolding gives_def .
  note b = this [of OS_RWLOCK_DESIRED_READ] this [of OS_RWLOCK_DESIRED_WRITE]
  show "\<not> (r_writers (rwlock_at s l) = 0 \<or> to = 0) \<Longrightarrow>
      \<exists>s'. osi_rwlock_acquire_read l to s = Some (Inr (OSS_ERROR_TO, s')) \<and> gives OS_RWLOCK_DESIRED_READ s'"
    using b(1) fl
    by (auto simp: osi_rwlock_acquire_read_def running_task_def seq_def upd_desired_eq block_run bind_def
        ret_def os_assert_apply deref_apply block_single simp del: statement_apply)
  show "\<not> (r_readers (rwlock_at s l) = 0 \<and> r_writers (rwlock_at s l) = 0 \<or> to = 0) \<Longrightarrow>
      \<exists>s'. osi_rwlock_acquire_write l to s = Some (Inr (OSS_ERROR_TO, s')) \<and> gives OS_RWLOCK_DESIRED_WRITE s'"
    using b(2) fl
    by (auto simp: osi_rwlock_acquire_write_def running_task_def seq_def upd_desired_eq block_run bind_def
        ret_def os_assert_apply deref_apply block_single simp del: statement_apply)
qed



section \<open>Handing the lock to a writer\<close>

lemma rwlock_wake_writer_eq:
  assumes "rwlock_first l s = Some (Inr (Some t, s1))"
    and "s2 = with_rwlock l ((rwlock_at s1 l)\<lparr>r_writers := r_writers (rwlock_at s1 l) + 1, r_writer := Some t\<rparr>)
      (with_c t OS_RWLOCK_DESIRED_NONE s1)"
  shows "rwlock_wake_writer l s =
    ignore (osi_dispatch_or_queue t) (with_mem (osi_task_return_regs t s2) OSS_SUCCESS s2)"
  using assms(1) unfolding assms(2)
  by (simp add: rwlock_wake_writer_def exec set_stacked_return_eq upd_rwlock_eq upd_desired_eq rest_with
      del: statement_apply(2,6))

lemma rwlock_to_writer:
  assumes k: "kernel_ok s r rs ws L" and xs: "L (Rwlock_blocked l) = t # ys"
    and want: "t_c (task s t) = OS_RWLOCK_DESIRED_WRITE"
    and last: "r_readers (rwlock_at s l) = 1 \<and> r_writers (rwlock_at s l) = 0 \<or>
      r_readers (rwlock_at s l) = 0 \<and> r_writers (rwlock_at s l) = 1 \<and> r_writer (rwlock_at s l) = Some r"
  shows "\<exists>s'. osi_rwlock_release l s = Some (Inr (OSS_SUCCESS, s')) \<and>
    r_writers (rwlock_at s' l) = 1 \<and> r_readers (rwlock_at s' l) = 0 \<and> r_writer (rwlock_at s' l) = Some t \<and>
    osi_task_get_stacked_return t s' = OSS_SUCCESS \<and>
    settled r (L(Rwlock_blocked l := ys)) s' \<and> (prio_of s r \<le> prio_of s t \<longrightarrow> scheduled s' = Some t) \<and>
    others_kept (Rwlock_blocked l) s s'"
proof -
  let ?b = "Rwlock_blocked l" and ?x = "released (rwlock_at s l)"
  let ?s0 = "with_rwlock l ?x s"
  let ?s1 = "leave_list ?b t (t # ys) ?s0"
  let ?y1 = "rwlock_at ?s1 l"
  let ?z = "?y1\<lparr>r_writers := r_writers ?y1 + 1, r_writer := Some t\<rparr>"
  let ?s2 = "with_rwlock l ?z (with_c t 0 ?s1)"
  let ?s3 = "with_mem (osi_task_return_regs t ?s2) OSS_SUCCESS ?s2"
  note fl = kernel_ok_flags [OF k]
  have pre: "same_kernel s ?s0" by (rule same_kernel_rwlock) simp
  note fw = first_waiter [of s r rs ws L ?b, OF k xs pre]
  have x0: "r_readers ?x = 0" "r_writers ?x = 0" using last by auto
  have y1: "rwlock_rest ?y1 = rwlock_rest ?x"
    using same_objects_leave_list [of ?s0 ?b t "t # ys"] by (simp add: same_objects_def)
  have bl: "b_tasks (r_blocked ?z) = b_tasks (r_blocked (rwlock_at (with_c t 0 ?s1) l))"
    by (simp add: rest_with)
  have post: "same_kernel ?s1 ?s3"
    by (rule same_kernel_trans [OF same_kernel_trans [OF same_kernel_with(2) same_kernel_rwlock [OF bl]]
          same_kernel_with(1)])
  obtain s' where s': "osi_dispatch_or_queue t ?s3 = Some (Inr (OSS_SUCCESS, s'))"
    "settled r (L(?b := ys)) s'" "same_objects ?s3 s'" "prio_of s r \<le> prio_of s t \<longrightarrow> scheduled s' = Some t"
    by (rule wake_first [of s r rs ws L ?b, OF k xs pre post])
  have deq: "rwlock_first l ?s0 = Some (Inr (Some t, ?s1))"
    using rwlock_room.deq_head fw by simp
  from rwlock_wake_writer_eq [OF deq refl] s'(1) have "rwlock_wake_writer l ?s0 = Some (Inr ((), s'))"
    by (simp only: ignore_apply bind_apply) (simp add: ret_apply)
  then have "rwlock_wake l ?s0 = Some (Inr ((), s'))"
    using fw(2) want x0 by (simp add: rwlock_wake_def)
  then have "osi_rwlock_release l s = Some (Inr (OSS_SUCCESS, s'))"
    using rwlock_release_eq [of s l] last fl by (auto simp: exec)
  moreover have "rwlock_rest (rwlock_at s' l) = rwlock_rest ?z"
    using s'(3) by (simp add: same_objects_def rest_with)
  then have "r_writers (rwlock_at s' l) = 1" "r_readers (rwlock_at s' l) = 0" "r_writer (rwlock_at s' l) = Some t"
    using y1 x0 by (simp_all add: rwlock_rest_def)
  moreover have "osi_task_get_stacked_return t s' = OSS_SUCCESS"
    using same_objectsD [OF s'(3)]
    by (simp add: osi_task_get_stacked_return_def osi_task_return_regs_def split: target.split)
      (simp add: with_mem_def with_c_def with_rwlock_def osi_task_return_regs_def)
  moreover have "others_kept ?b s s'"
  proof -
    have "others_kept ?b s ?s1"
      by (rule others_kept_trans [OF others_kept_rwlock others_kept_objects [OF same_objects_leave_list]])
    moreover have "others_kept ?b ?s1 ?s2" by (rule others_kept_trans [OF others_kept_with(2) others_kept_rwlock])
    moreover have "others_kept ?b ?s2 ?s3" by (rule others_kept_with(1))
    ultimately show ?thesis using others_kept_objects [OF s'(3)] others_kept_trans by blast
  qed
  ultimately show ?thesis using s'(2,4) by blast
qed

text \<open>
  C33: when the last holder of a read-write lock releases it and the task that has waited longest wants to
  write, the lock goes to that task: it is the only writer, finds \<open>OSS_SUCCESS\<close> in its stacked
  return register, and is scheduled at once unless its priority is lower; the invariant is kept.
\<close>

theorem rwlock_release_to_writer:
  assumes k: "kernel_ok s r rs ws L" and xs: "L (Rwlock_blocked l) = t # ys"
    and want: "t_c (task s t) = OS_RWLOCK_DESIRED_WRITE"
    and last: "r_readers (rwlock_at s l) = 1 \<and> r_writers (rwlock_at s l) = 0 \<or>
      r_readers (rwlock_at s l) = 0 \<and> r_writers (rwlock_at s l) = 1 \<and> r_writer (rwlock_at s l) = Some r"
  shows "\<exists>s'. osi_rwlock_release l s = Some (Inr (OSS_SUCCESS, s')) \<and>
    r_writers (rwlock_at s' l) = 1 \<and> r_readers (rwlock_at s' l) = 0 \<and> r_writer (rwlock_at s' l) = Some t \<and>
    osi_task_get_stacked_return t s' = OSS_SUCCESS \<and>
    settled r (L(Rwlock_blocked l := ys)) s' \<and> (prio_of s r \<le> prio_of s t \<longrightarrow> scheduled s' = Some t)"
  using rwlock_to_writer [OF assms] by blast

definition example_rwlock :: "u32 \<Rightarrow> kernel" where
  "example_rwlock v = with_c 2 v (with_rwlock 0 (blank_rwlock\<lparr>r_writers := 1, r_writer := Some 1,
     r_blocked := \<lparr>b_type = 0, b_tasks = Some 2\<rparr>\<rparr>) (example_kernel (Rwlock_blocked 0)))"

lemma example_rwlock_ok:
  "kernel_ok (example_rwlock v) 1 [1, 0] [2] (example_rooms (Rwlock_blocked 0))"
  "t_c (task (example_rwlock v) 2) = v"
  "rwlock_at (example_rwlock v) 0 = blank_rwlock\<lparr>r_writers := 1, r_writer := Some 1,
     r_blocked := \<lparr>b_type = 0, b_tasks = Some 2\<rparr>\<rparr>"
  "status_of (example_rwlock v) x = status_of (example_kernel (Rwlock_blocked 0)) x"
  "prio_of (example_rwlock v) x = prio_of (example_kernel (Rwlock_blocked 0)) x"
proof -
  let ?b = "Rwlock_blocked 0"
  let ?s = "with_rwlock 0 (blank_rwlock\<lparr>r_writers := 1, r_writer := Some 1,
     r_blocked := \<lparr>b_type = 0, b_tasks = Some 2\<rparr>\<rparr>) (example_kernel ?b)"
  have "kernel_ok (example_kernel ?b) 1 [1, 0] [2] (example_rooms ?b)" by (rule example_kernel_ok) simp
  moreover have "get_blocked ?b (example_kernel ?b) = Some 2" by simp
  then have "same_kernel (example_kernel ?b) ?s" by (intro same_kernel_rwlock) (simp only: get_blocked.simps, simp)
  then have "same_kernel (example_kernel ?b) (example_rwlock v)"
    unfolding example_rwlock_def using same_kernel_with(2) by (rule same_kernel_trans)
  ultimately show "kernel_ok (example_rwlock v) 1 [1, 0] [2] (example_rooms ?b)"
    using same_kernel_steady(4) by blast
qed (simp_all add: example_rwlock_def with_c_def with_rwlock_def)

theorem rwlock_release_to_writer_witness:
  "\<exists>s'. osi_rwlock_release 0 (example_rwlock OS_RWLOCK_DESIRED_WRITE) = Some (Inr (OSS_SUCCESS, s')) \<and>
     r_writer (rwlock_at s' 0) = Some 2 \<and> scheduled s' = Some 2"
proof -
  have "prio_of (example_rwlock 2) 1 \<le> prio_of (example_rwlock 2) 2" by (simp add: example_rwlock_ok)
  then show ?thesis
    using rwlock_release_to_writer [OF example_rwlock_ok(1) [of 2], of 0 2 "[]"]
    by (auto simp: example_rooms_def example_rwlock_ok blank_defs)
qed

section \<open>Waking readers\<close>

lemma rwlock_unlink_eq:
  assumes "is_blocked (Rwlock_blocked l) s (as @ t # bs)"
  shows "block [rwlock_unlink l (if as = [] then None else Some (last as)) t,
      upd_task t (\<lambda>x. x\<lparr>t_nblocked := None\<rparr>)] s =
    Some (Inr ((), leave_list (Rwlock_blocked l) t (as @ t # bs) s))"
proof -
  have "t \<notin> set as" using is_blocked_distinct [OF assms] by auto
  then have "remove1 t (as @ t # bs) = as @ bs" by (simp add: remove1_append)
  then show ?thesis
    using block_list_remove [OF assms] is_blocked_mid [OF assms]
    by (simp add: leave_list_def rwlock_unlink_def exec unblock_def del: put_blocked.simps)
qed

lemma rwlock_wake_loop_skip:
  assumes "is_blocked (Rwlock_blocked l) s (as @ bs @ cs)"
    and "\<forall>x\<in>set bs. t_c (task s x) \<noteq> OS_RWLOCK_DESIRED_READ"
  shows "rwlock_wake_loop l (if as = [] then None else Some (last as)) (first (bs @ cs)) s =
    rwlock_wake_loop l (if as @ bs = [] then None else Some (last (as @ bs))) (first cs) s"
  using assms
proof (induction bs arbitrary: as)
  case (Cons x bs)
  have "nblocked_of s x = first (bs @ cs)" using is_blocked_mid [of _ s as x "bs @ cs"] Cons.prems by simp
  then have "rwlock_wake_loop l (if as = [] then None else Some (last as)) (first ((x # bs) @ cs)) s =
      rwlock_wake_loop l (Some x) (first (bs @ cs)) s"
    using Cons.prems(2) by (subst rwlock_wake_loop.simps) simp
  then show ?case using Cons.IH [of "as @ [x]"] Cons.prems by simp
qed simp

lemma block_two: "block (m # m' # k # ks) s = bind (block [m, m']) (\<lambda>_. block (k # ks)) s"
  by (simp add: exec split: option.split sum.split)

definition reader_woken ::
  "rwlock_ptr \<Rightarrow> task_ptr \<Rightarrow> task_ptr list \<Rightarrow> task_ptr list \<Rightarrow> task_ptr list \<Rightarrow> kernel \<Rightarrow> kernel" where
  "reader_woken l t xs rs ws s =
     (let s1 = with_c t OS_RWLOCK_DESIRED_NONE (leave_list (Rwlock_blocked l) t xs s);
          s2 = with_mem (osi_task_return_regs t s1) OSS_SUCCESS s1;
          s3 = after_status s2 rs ws t OS_TASK_STATUS_IDLE
      in with_rwlock l ((rwlock_at s3 l)\<lparr>r_readers := r_readers (rwlock_at s3 l) + 1\<rparr>) s3)"

lemma rwlock_wake_reader_eq:
  assumes b: "is_blocked (Rwlock_blocked l) s (as @ t # bs)" and q: "queues_ok s rs ws"
    and t: "t \<in> set ws" "prio_of s t \<le> 0xff"
  shows "rwlock_wake_reader l (if as = [] then None else Some (last as)) t s =
    Some (Inr ((), reader_woken l t (as @ t # bs) rs ws s))"
proof -
  let ?s1 = "with_c t 0 (leave_list (Rwlock_blocked l) t (as @ t # bs) s)"
  let ?s2 = "with_mem (osi_task_return_regs t ?s1) 0 ?s1"
  have "same_kernel (leave_list (Rwlock_blocked l) t (as @ t # bs) s) ?s2"
    by (rule same_kernel_trans [OF same_kernel_with(2) same_kernel_with(1)])
  from same_kernel_steady(1) [OF this] have q2: "queues_ok ?s2 rs ws"
    using queues_ok_leave_list q by simp
  moreover have "can_become ?s2 rs ws t OS_TASK_STATUS_IDLE"
    using t queues_okD(11) [OF q2] by (simp add: can_become_def with_mem_def with_c_def)
  ultimately have "osi_task_status_set t OS_TASK_STATUS_IDLE ?s2 = Some (Inr (os_task_status_num OS_TASK_STATUS_IDLE,
      after_status ?s2 rs ws t OS_TASK_STATUS_IDLE))"
    by (rule osi_task_status_set_eq)
  then show ?thesis
    unfolding rwlock_wake_reader_def block_two bind_def rwlock_unlink_eq [OF b]
    by (simp add: reader_woken_def Let_def bind_def block_run
        upd_desired_eq set_stacked_return_eq ignore_apply ret_def block_single upd_rwlock_eq del: statement_apply)
qed

text \<open>The walk ends at the first reader it wakes.\<close>

lemma rwlock_wake_loop_eq:
  assumes b: "is_blocked (Rwlock_blocked l) s (as @ t # bs)" and q: "queues_ok s rs ws"
    and as: "\<forall>x\<in>set as. t_c (task s x) \<noteq> OS_RWLOCK_DESIRED_READ"
    and t: "t_c (task s t) = OS_RWLOCK_DESIRED_READ" "t \<in> set ws" "prio_of s t \<le> 0xff"
  shows "rwlock_wake_loop l None (first (as @ t # bs)) s =
    Some (Inr ((), reader_woken l t (as @ t # bs) rs ws s))"
proof -
  have "nblocked_of (reader_woken l t (as @ t # bs) rs ws s) t = None"
    using leave_list_blocked(3) [of t "as @ t # bs" "Rwlock_blocked l" s]
    by (simp add: reader_woken_def Let_def) (simp add: with_mem_def with_c_def)
  moreover have "rwlock_wake_loop l p None s' = Some (Inr ((), s'))" for p s'
    by (subst rwlock_wake_loop.simps) (simp add: ret_def)
  ultimately have "rwlock_wake_loop l (if as = [] then None else Some (last as)) (Some t) s =
      Some (Inr ((), reader_woken l t (as @ t # bs) rs ws s))"
    using rwlock_wake_reader_eq [OF b q t(2,3)] t(1)
    by (subst rwlock_wake_loop.simps) (simp add: bind_def)
  then show ?thesis using rwlock_wake_loop_skip [of l s "[]" as "t # bs"] b as by (cases "as = []") auto
qed

lemma rwlock_wake_loop_none:
  assumes "is_blocked (Rwlock_blocked l) s xs" "\<forall>x\<in>set xs. t_c (task s x) \<noteq> OS_RWLOCK_DESIRED_READ"
  shows "rwlock_wake_loop l None (first xs) s = Some (Inr ((), s))"
  using rwlock_wake_loop_skip [of l s "[]" xs "[]"] assms
  by (simp add: rwlock_wake_loop.simps [of _ _ None] ret_def)

lemma reader_woken_simps:
  assumes b: "is_blocked (Rwlock_blocked l) s xs"
  shows "rwlock_rest (rwlock_at (reader_woken l t xs rs ws s) l) =
      rwlock_rest ((rwlock_at s l)\<lparr>r_readers := r_readers (rwlock_at s l) + 1\<rparr>)"
    "status_of (reader_woken l t xs rs ws s) x = (if x = t then OS_TASK_STATUS_IDLE else status_of s x)"
    "scheduled (reader_woken l t xs rs ws s) = scheduled s"
    "is_blocked (Rwlock_blocked l) (reader_woken l t xs rs ws s) (remove1 t xs)"
    "t_c (task (reader_woken l t xs rs ws s) x) = (if x = t then OS_RWLOCK_DESIRED_NONE else t_c (task s x))"
    "osi_task_get_stacked_return t (reader_woken l t xs rs ws s) = OSS_SUCCESS"
proof -
  let ?s1 = "leave_list (Rwlock_blocked l) t xs s"
  show "rwlock_rest (rwlock_at (reader_woken l t xs rs ws s) l) =
      rwlock_rest ((rwlock_at s l)\<lparr>r_readers := r_readers (rwlock_at s l) + 1\<rparr>)"
    using same_objects_leave_list [of s "Rwlock_blocked l" t xs]
    by (simp add: same_objects_def reader_woken_def Let_def rest_with)
      (simp add: rwlock_rest_def)
  show "is_blocked (Rwlock_blocked l) (reader_woken l t xs rs ws s) (remove1 t xs)"
  proof -
    have "get_blocked (Rwlock_blocked l) (reader_woken l t xs rs ws s) = get_blocked (Rwlock_blocked l) ?s1"
      by (simp add: reader_woken_def Let_def rest_with)
    moreover have "nblocked_of (reader_woken l t xs rs ws s) x = nblocked_of ?s1 x" for x
      by (simp add: reader_woken_def Let_def) (simp add: with_mem_def with_c_def)
    ultimately show ?thesis using is_blocked_leave [OF b, of t] by (simp add: is_blocked_def)
  qed
  show "osi_task_get_stacked_return t (reader_woken l t xs rs ws s) = OSS_SUCCESS"
  proof -
    have "osi_task_return_regs t (after_status s' rs ws t st) = osi_task_return_regs t s'" for s' st
      by (simp add: osi_task_return_regs_def split: target.split)
    then show ?thesis
      by (simp add: osi_task_get_stacked_return_def reader_woken_def Let_def) (simp add: with_mem_def)
  qed
  show "status_of (reader_woken l t xs rs ws s) x = (if x = t then OS_TASK_STATUS_IDLE else status_of s x)"
    by (simp add: reader_woken_def Let_def) (simp add: with_mem_def with_c_def)
  show "t_c (task (reader_woken l t xs rs ws s) x) = (if x = t then OS_RWLOCK_DESIRED_NONE else t_c (task s x))"
    by (simp add: reader_woken_def Let_def) (simp add: with_mem_def with_c_def)
  show "scheduled (reader_woken l t xs rs ws s) = scheduled s"
    by (simp add: reader_woken_def Let_def) (simp add: with_mem_def with_c_def)
qed

text \<open>
  C34: a writer that releases the lock lets in only the first of the readers that wait: that one becomes
  runnable, with \<open>OSS_SUCCESS\<close> in its stacked return register, but no switch is requested for
  it; the others stay blocked, although they could all read, because the walk over the list
  follows the link of the woken reader after clearing it.
\<close>

theorem rwlock_wakes_one_reader:
  assumes k: "kernel_ok s r rs ws L" and xs: "L (Rwlock_blocked l) = t # ys"
    and want: "\<forall>x\<in>set (t # ys). t_c (task s x) = OS_RWLOCK_DESIRED_READ" and tw: "t \<in> set ws"
    and x: "r_readers (rwlock_at s l) = 0" "r_writers (rwlock_at s l) = 1" "r_writer (rwlock_at s l) = Some r"
  shows "\<exists>s'. osi_rwlock_release l s = Some (Inr (OSS_SUCCESS, s')) \<and>
    r_readers (rwlock_at s' l) = 1 \<and> r_writers (rwlock_at s' l) = 0 \<and>
    status_of s' t = OS_TASK_STATUS_IDLE \<and> osi_task_get_stacked_return t s' = OSS_SUCCESS \<and>
    is_blocked (Rwlock_blocked l) s' ys \<and>
    (\<forall>x\<in>set ys. status_of s' x = status_of s x \<and> t_c (task s' x) = OS_RWLOCK_DESIRED_READ) \<and>
    scheduled s' = None"
proof -
  let ?b = "Rwlock_blocked l" and ?s0 = "with_rwlock l (released (rwlock_at s l)) s"
  let ?w = "reader_woken l t (t # ys) rs ws ?s0"
  note fl = kernel_ok_flags [OF k] and sd = steadyD [OF kernel_okD(1) [OF k]]
  have pre: "same_kernel s ?s0" by (rule same_kernel_rwlock) simp
  note fw = first_waiter [of s r rs ws L ?b, OF k xs pre]
  have "rwlock_wake_loop l None (first ([] @ t # ys)) ?s0 = Some (Inr ((), reader_woken l t ([] @ t # ys) rs ws ?s0))"
    by (rule rwlock_wake_loop_eq) (use fw(1) want tw sd(1,7) same_kernel_steady(1) [OF pre] in auto)
  then have "rwlock_wake l ?s0 = Some (Inr ((), ?w))"
    using fw(2) want by (simp add: rwlock_wake_def)
  then have "osi_rwlock_release l s = Some (Inr (OSS_SUCCESS, ?w))"
    using rwlock_release_eq [of s l] x fl by (simp add: exec)
  moreover note rw = reader_woken_simps [OF fw(1), of t rs ws]
  have "r_readers (rwlock_at ?w l) = 1" "r_writers (rwlock_at ?w l) = 0"
    using rw(1) x by (simp_all add: rwlock_rest_def)
  moreover have "t \<notin> set ys" using is_blocked_distinct [OF fw(1)] by simp
  ultimately show ?thesis using rw(2-6) want fl(8) by (intro exI [of _ ?w]) auto
qed

theorem rwlock_wakes_one_reader_witness:
  "\<exists>s'. osi_rwlock_release 0 (example_rwlock OS_RWLOCK_DESIRED_READ) = Some (Inr (OSS_SUCCESS, s')) \<and>
     r_readers (rwlock_at s' 0) = 1 \<and> status_of s' 2 = OS_TASK_STATUS_IDLE"
  using rwlock_wakes_one_reader [OF example_rwlock_ok(1) [of 1], of 0 2 "[]"]
  by (auto simp: example_rooms_def example_rwlock_ok blank_defs)

section \<open>Exclusion\<close>

lemma rwlock_wake_ok:
  assumes k: "kernel_ok s r rs ws L" and x: "r_writers (rwlock_at s l) = 0"
    and w: "set (L (Rwlock_blocked l)) \<subseteq> set ws"
    and nw: "\<not> (r_readers (rwlock_at s l) = 0 \<and> (\<exists>t ys. L (Rwlock_blocked l) = t # ys \<and>
      t_c (task s t) = OS_RWLOCK_DESIRED_WRITE))"
  shows "\<exists>s'. rwlock_wake l s = Some (Inr ((), s')) \<and> r_writers (rwlock_at s' l) = 0"
proof -
  let ?b = "Rwlock_blocked l" and ?xs = "L (Rwlock_blocked l)"
  note sd = steadyD [OF kernel_okD(1) [OF k]]
  have b: "is_blocked ?b s ?xs" using rooms_okD(1) [OF kernel_okD(2) [OF k]] .
  show ?thesis
  proof (cases ?xs)
    case Nil
    then show ?thesis using is_blocked_first [OF b] x by (simp add: rwlock_wake_def exec)
  next
    case (Cons u us)
    then have wake: "rwlock_wake l s = rwlock_wake_loop l None (first ?xs) s"
      using is_blocked_first [OF b] nw by (auto simp: rwlock_wake_def)
    show ?thesis
    proof (cases "\<exists>t\<in>set ?xs. t_c (task s t) = OS_RWLOCK_DESIRED_READ")
      case True
      then obtain as t bs where xs: "?xs = as @ t # bs" "t_c (task s t) = OS_RWLOCK_DESIRED_READ"
        "\<forall>x\<in>set as. t_c (task s x) \<noteq> OS_RWLOCK_DESIRED_READ"
        by (auto dest!: split_list_first_prop)
      have "t \<in> set ws" using w xs(1) by auto
      then have "rwlock_wake_loop l None (first ?xs) s = Some (Inr ((), reader_woken l t ?xs rs ws s))"
        unfolding xs(1) using b xs sd(1,7) by (intro rwlock_wake_loop_eq) auto
      moreover have "r_writers (rwlock_at (reader_woken l t ?xs rs ws s) l) = 0"
        using reader_woken_simps(1) [OF b, of t rs ws] x by (simp add: rwlock_rest_def)
      ultimately show ?thesis using wake by simp
    next
      case False
      then show ?thesis using wake rwlock_wake_loop_none [OF b] x by auto
    qed
  qed
qed



end
