(* ===== verification/Signals.thy ===== *)
theory Signals
  imports Examples
begin

text \<open>
  Signals (\<open>src/src/signals.c\<close>): one pending 32-bit value per task, which the task itself reads.
\<close>

definition osi_signal :: "task_ptr \<Rightarrow> u32 \<Rightarrow> u32 os" where
  "osi_signal t sig s =
     seq [os_assert ''signal > 0'' (sig > 0)]
       (if t_signal (task s t) = sig then ret OSS_SUCCESS
        else if t_signal (task s t) \<noteq> 0 then ret OSS_ERROR_INVALID
        else seq [upd_task t (\<lambda>x. x\<lparr>t_signal := sig\<rparr>)] (ret OSS_SUCCESS)) s"

text \<open>The answer and the value written through \<open>signal\<close>.\<close>

definition osi_signal_check :: "(u32 \<times> u32) os" where
  "osi_signal_check = bind running_task (\<lambda>r s. ret (OSS_SUCCESS, t_signal (task s r)) s)"

definition with_signal :: "task_ptr \<Rightarrow> u32 \<Rightarrow> kernel \<Rightarrow> kernel" where
  "with_signal t v s = s\<lparr>task := (task s)(t := (task s t)\<lparr>t_signal := v\<rparr>)\<rparr>"

text \<open>
  A signal is kept: once a task has been sent one, it reads that one, whatever signals the other
  tasks send after it; sending another one is refused with \<open>OSS_ERROR_INVALID\<close> and sending the
  same one again succeeds, both without effect, and only the signal zero fails an assertion.
\<close>

lemma signal_is_kept:
  assumes "t_signal (task s t) = 0" and "sig \<noteq> 0" and "other \<noteq> 0"
  shows "bind (osi_signal t sig) (\<lambda>_. osi_signal t other) s =
      Some (Inr (if other = sig then OSS_SUCCESS else OSS_ERROR_INVALID, with_signal t sig s)) \<and>
    osi_signal_check (with_signal t sig s\<lparr>running := Some t\<rparr>) =
      Some (Inr ((OSS_SUCCESS, sig), with_signal t sig s\<lparr>running := Some t\<rparr>)) \<and>
    faults (osi_signal t 0) s (Assertion ''signal > 0'')"
  using assms
  by (auto simp: osi_signal_def osi_signal_check_def running_task_def exec with_signal_def word_gt_0 faults_def)

lemma signal_is_kept_example:
  "bind (osi_signal 1 3) (\<lambda>_. osi_signal 1 4) example_base =
     Some (Inr (OSS_ERROR_INVALID, with_signal 1 3 example_base))"
  using signal_is_kept [of example_base 1 3 4] by (simp add: example_task_def)

end
