(* ===== verification/Service.thy ===== *)
theory Service
  imports SchedulerSpec Tasks MsgQueue Semaphore Mutex Rwlock Signals Printf
begin

unbundle bit_operations_syntax

text \<open>
  The service calls of \<open>src/src/service.c\<close>: the functions \<open>svc_*\<close> that run in the supervisor, the
  exception that carries a task there and back (\<open>src/src/syscall_plumbing.h\<close>,
  \<open>src/src/arch/m4.s\<close>), and the functions \<open>os_*\<close> the application calls.
\<close>

section \<open>Console and platform\<close>

text \<open>
  \<open>serial_putchar\<close> of \<open>src/src/arduino.cpp\<close>; \<open>put\<close> writes one character to the debug channel.
  In the kernel's model it is an entry of the trace.
\<close>

definition serial_putchar :: "(char \<Rightarrow> ('s, unit) comp) \<Rightarrow> char \<Rightarrow> ('s, unit) comp" where
  "serial_putchar put c = (if c \<noteq> NUL then put c else ret ())"

definition osi_vprintf :: "(char \<Rightarrow> ('s, unit) comp) \<Rightarrow> string \<Rightarrow> va list \<Rightarrow> ('s, u32) comp" where
  "osi_vprintf put f args = os_vfctprintf (serial_putchar put) f args"

definition osi_printf :: "(char \<Rightarrow> ('s, unit) comp) \<Rightarrow> string \<Rightarrow> va list \<Rightarrow> ('s, u32) comp" where
  "osi_printf put f args = os_vfctprintf (serial_putchar put) f args"

abbreviation console :: "char \<Rightarrow> unit os" where
  "console c \<equiv> emit (Printed [c])"

definition osi_platform_delay :: "u32 \<Rightarrow> u32 os" where
  "osi_platform_delay ms = seq [emit (Platform_delay ms)] (ret ms)"

text \<open>The hosted build sleeps in microseconds.\<close>

definition linux_platform_delay :: "u32 \<Rightarrow> u32 os" where
  "linux_platform_delay ms = seq [emit (Platform_usleep (ms * 1000))] (ret ms)"

text \<open>
  \<open>sysTickHook\<close>: the platform's own handler, \<open>SysTick_DefaultHandler\<close>, is the parameter \<open>tick\<close>.
\<close>

definition sysTickHook :: "unit os \<Rightarrow> u32 os" where
  "sysTickHook tick = seq [tick, ignore osi_irs_systick] (ret 1)"

section \<open>In the supervisor\<close>

definition svc_printf :: "string \<Rightarrow> va list \<Rightarrow> u32 os" where
  "svc_printf f args = osi_vprintf console f args"

text \<open>\<open>svc_pstr\<close> passes the string as the format, with no arguments.\<close>

definition svc_pstr :: "string \<Rightarrow> u32 os" where
  "svc_pstr str = osi_printf console str []"

definition svc_queue_create :: "queue_ptr \<Rightarrow> os_queue_definition_t \<Rightarrow> u32 os" where
  "svc_queue_create q def = osi_queue_create q def"

definition svc_queue_enqueue :: "queue_ptr \<Rightarrow> u32 \<Rightarrow> u32 \<Rightarrow> (u32 \<times> u32) os" where
  "svc_queue_enqueue q message to = bind (osi_queue_enqueue q message to) (\<lambda>status. ret (status, 0))"

definition svc_queue_dequeue :: "queue_ptr \<Rightarrow> u32 \<Rightarrow> (u32 \<times> u32) os" where
  "svc_queue_dequeue q to = osi_queue_dequeue q 0 to"

definition svc_mutex_create :: "mutex_ptr \<Rightarrow> os_mutex_definition_t \<Rightarrow> u32 os" where
  "svc_mutex_create m def = osi_mutex_create m def"

definition svc_mutex_acquire :: "mutex_ptr \<Rightarrow> u32 \<Rightarrow> u32 os" where
  "svc_mutex_acquire m to = osi_mutex_acquire m to"

definition svc_mutex_release :: "mutex_ptr \<Rightarrow> u32 os" where
  "svc_mutex_release m = osi_mutex_release m"

definition svc_semaphore_create :: "semaphore_ptr \<Rightarrow> os_semaphore_definition_t \<Rightarrow> u32 os" where
  "svc_semaphore_create p def = osi_semaphore_create p def"

definition svc_semaphore_acquire :: "semaphore_ptr \<Rightarrow> u32 \<Rightarrow> u32 os" where
  "svc_semaphore_acquire p to = osi_semaphore_acquire p to"

definition svc_semaphore_release :: "semaphore_ptr \<Rightarrow> u32 os" where
  "svc_semaphore_release p = osi_semaphore_release p"

definition svc_rwlock_create :: "rwlock_ptr \<Rightarrow> os_rwlock_definition_t \<Rightarrow> u32 os" where
  "svc_rwlock_create l def = osi_rwlock_create l def"

definition svc_rwlock_acquire_read :: "rwlock_ptr \<Rightarrow> u32 \<Rightarrow> u32 os" where
  "svc_rwlock_acquire_read l to = osi_rwlock_acquire_read l to"

definition svc_rwlock_acquire_write :: "rwlock_ptr \<Rightarrow> u32 \<Rightarrow> u32 os" where
  "svc_rwlock_acquire_write l to = osi_rwlock_acquire_write l to"

definition svc_rwlock_release :: "rwlock_ptr \<Rightarrow> u32 os" where
  "svc_rwlock_release l = osi_rwlock_release l"

definition svc_signal :: "task_ptr \<Rightarrow> u32 \<Rightarrow> u32 os" where
  "svc_signal t sig = osi_signal t sig"

text \<open>The signal is written through the pointer \<open>sig\<close>.\<close>

definition svc_signal_check :: "u32 \<Rightarrow> u32 os" where
  "svc_signal_check sig =
     bind osi_signal_check (\<lambda>(status, v).
       seq [modify (\<lambda>s. s\<lparr>mem := (mem s)(sig := v)\<rparr>)] (ret status))"

definition svc_example :: "u32 os" where
  "svc_example = seq [ignore (osi_printf console (''svc_example'' @ [CHR 0x0A]) [])] (ret 0)"

section \<open>The way into the supervisor and back\<close>

text \<open>
  On entry to the exception the processor has pushed the caller's registers \<open>r0\<close>, \<open>r1\<close>, ... at the
  stack pointer \<open>f_psp\<close>; \<open>f_kind\<close> says whether it pushed the floating-point registers too.
  \<open>f_r1\<close> and \<open>f_r2\<close> are what the called function leaves in \<open>r1\<close> and \<open>r2\<close> where it does not return
  a value in them.
\<close>

record svc_frame =
  f_psp :: u32
  f_kind :: u8
  f_r1 :: u32
  f_r2 :: u32

text \<open>
  \<open>SVC_Handler\<close> of the Cortex-M4: it calls the function, stores \<open>r0\<close>-\<open>r2\<close> in the caller's frame,
  from where they are restored when the caller goes on, and switches at once when another
  task has been scheduled.  A caller that no longer exists, \<open>osg.running == NULL\<close>, is not saved.
\<close>

definition saved_sp :: "svc_frame \<Rightarrow> u32" where
  "saved_sp fr = (if f_kind fr = 1 then f_psp fr - 16 * 4 else f_psp fr) - 8 * 4"

definition store_regs :: "u32 \<Rightarrow> u32 \<Rightarrow> u32 \<Rightarrow> u32 \<Rightarrow> unit os" where
  "store_regs a r0 r1 r2 =
     modify (\<lambda>s. s\<lparr>mem := (mem s)(a := r0, a + 4 := r1, a + 8 := r2)\<rparr>)"

definition SVC_Handler :: "svc_frame \<Rightarrow> (u32 \<times> u32) os \<Rightarrow> unit os" where
  "SVC_Handler fr f =
     bind f (\<lambda>(r0, r1). block
       [store_regs (f_psp fr) r0 r1 (f_r2 fr),
        (\<lambda>s. if scheduled s = None \<or> running s = scheduled s then ret () s
             else
               block
                 [guarded (running s \<noteq> None)
                    (block
                       [bind running_task (\<lambda>r. upd_task r (\<lambda>x. x\<lparr>t_stack_kind := f_kind fr, t_sp := saved_sp fr\<rparr>)),
                        osi_stack_check]),
                  modify (\<lambda>s. s\<lparr>running := scheduled s\<rparr>),
                  modify (\<lambda>s. s\<lparr>scheduled := None\<rparr>)] s)])"

text \<open>
  What a call is for its caller: it has returned a value, or another task runs now and the
  value is whatever the caller's frame contains when it is switched back to.
\<close>

datatype 'a call = Returned 'a | Switched

fun returned :: "('a \<Rightarrow> 'b call os) \<Rightarrow> 'a call \<Rightarrow> 'b call os" where
  "returned f (Returned a) = f a"
| "returned f Switched = ret Switched"

text \<open>
  The macros \<open>SVC_n_1\<close>: on the devices the \<open>svc\<close> instruction, with the return value in \<open>r0\<close> (and
  \<open>r1\<close>); in the hosted build a plain call.
\<close>

definition svc_pair :: "svc_frame \<Rightarrow> (u32 \<times> u32) os \<Rightarrow> (u32 \<times> u32) call os" where
  "svc_pair fr f s =
     (if is_device (target s)
      then
        seq [SVC_Handler fr f]
          (\<lambda>s'. if running s' = running s
                then ret (Returned (mem s' (f_psp fr), mem s' (f_psp fr + 4))) s'
                else ret Switched s') s
      else bind f (\<lambda>v. ret (Returned v)) s)"

definition svc_word :: "svc_frame \<Rightarrow> u32 os \<Rightarrow> u32 call os" where
  "svc_word fr f =
     bind (svc_pair fr (bind f (\<lambda>v. ret (v, f_r1 fr)))) (returned (\<lambda>r. ret (Returned (fst r))))"

section \<open>Where the caller is\<close>

definition get_CONTROL :: "kernel \<Rightarrow> u32" where
  "get_CONTROL s = (if is_device (target s) then control s else 0)"

definition get_IPSR :: "kernel \<Rightarrow> u32" where
  "get_IPSR s = (if is_device (target s) then ipsr s else 0)"

definition osi_is_privileged :: "kernel \<Rightarrow> bool" where
  "osi_is_privileged s \<longleftrightarrow> get_CONTROL s AND 1 = 0"

definition osi_in_task :: "kernel \<Rightarrow> bool" where
  "osi_in_task s \<longleftrightarrow> get_CONTROL s AND 2 = 2"

definition osi_in_idle :: "bool os" where
  "osi_in_idle = bind running_task (\<lambda>r s. ret (prio_of s r = OS_PRIORITY_IDLE) s)"

section \<open>The calls of the application\<close>

text \<open>A call made directly, not through the exception.\<close>

definition direct :: "'a os \<Rightarrow> 'a call os" where
  "direct f = bind f (\<lambda>v. ret (Returned v))"

definition os_delay :: "svc_frame \<Rightarrow> u32 \<Rightarrow> u32 call os" where
  "os_delay fr ms s =
     (if osi_in_task s
      then bind osi_in_idle (\<lambda>idle.
             if idle then seq [ignore (osi_platform_delay ms)] (ret (Returned ms))
             else svc_word fr (svc_delay ms))
      else direct (osi_platform_delay ms)) s"

definition os_block :: "svc_frame \<Rightarrow> u32 \<Rightarrow> u32 \<Rightarrow> u32 call os" where
  "os_block fr ms flags s =
     (if osi_in_task s then svc_word fr (svc_block ms flags) else ret (Returned OSS_ERROR_INVALID)) s"

definition os_pstr :: "svc_frame \<Rightarrow> string \<Rightarrow> u32 call os" where
  "os_pstr fr str s =
     (if get_IPSR s \<noteq> 0 then ret (Returned OSS_ERROR_INVALID)
      else if osi_in_task s then svc_word fr (svc_pstr str)
      else direct (svc_pstr str)) s"

definition os_panic :: "svc_frame \<Rightarrow> os_panic_kind_t \<Rightarrow> u32 call os" where
  "os_panic fr code s =
     (if get_IPSR s \<noteq> 0 then seq [osi_panic code] (ret (Returned OSS_SUCCESS))
      else if osi_in_task s then bind (svc_word fr (svc_panic code)) (returned (\<lambda>_. ret (Returned OSS_SUCCESS)))
      else seq [osi_panic code] (ret (Returned OSS_SUCCESS))) s"

definition os_abort :: "svc_frame \<Rightarrow> u32 \<Rightarrow> u32 call os" where
  "os_abort fr code s =
     (if get_IPSR s \<noteq> 0 \<or> \<not> osi_in_task s then ret (Returned OSS_ERROR_INVALID)
      else svc_word fr (svc_abort code)) s"

definition os_printf :: "svc_frame \<Rightarrow> string \<Rightarrow> va list \<Rightarrow> u32 call os" where
  "os_printf fr f args s =
     (if osi_in_task s then svc_word fr (svc_printf f args) else direct (svc_printf f args)) s"

definition os_queue_create :: "svc_frame \<Rightarrow> queue_ptr \<Rightarrow> os_queue_definition_t \<Rightarrow> u32 call os" where
  "os_queue_create fr q def s =
     (if get_IPSR s \<noteq> 0 then ret (Returned OSS_ERROR_INVALID)
      else if osi_in_task s then svc_word fr (svc_queue_create q def)
      else direct (svc_queue_create q def)) s"

definition os_queue_enqueue :: "svc_frame \<Rightarrow> queue_ptr \<Rightarrow> u32 \<Rightarrow> u32 \<Rightarrow> (u32 \<times> u32) call os" where
  "os_queue_enqueue fr q message to s =
     (if get_IPSR s \<noteq> 0
      then
        seq [os_assert ''to == 0'' (to = 0)]
          (bind (osi_queue_enqueue_isr q message) (\<lambda>r. ret (Returned (tu_status r, tu_value r))))
      else svc_pair fr (svc_queue_enqueue q message to)) s"

definition os_queue_dequeue :: "svc_frame \<Rightarrow> queue_ptr \<Rightarrow> u32 \<Rightarrow> (u32 \<times> u32) call os" where
  "os_queue_dequeue fr q to = svc_pair fr (svc_queue_dequeue q to)"

definition os_mutex_create :: "svc_frame \<Rightarrow> mutex_ptr \<Rightarrow> os_mutex_definition_t \<Rightarrow> u32 call os" where
  "os_mutex_create fr m def s =
     (if get_IPSR s \<noteq> 0 then ret (Returned OSS_ERROR_INVALID)
      else if osi_in_task s then svc_word fr (svc_mutex_create m def)
      else direct (svc_mutex_create m def)) s"

text \<open>
  What follows the service call in \<open>os_mutex_acquire\<close>, with the status it returned: the caller may
  be aborted when its time has run out.  A task that was switched away goes on here.
\<close>

definition os_mutex_acquired :: "svc_frame \<Rightarrow> mutex_ptr \<Rightarrow> u32 \<Rightarrow> u32 call os" where
  "os_mutex_acquired fr m status s =
     (if m_flags (mutex_at s m) AND OS_MUTEX_FLAG_ABORT_ON_TIMEOUT \<noteq> 0 \<and> status = OSS_ERROR_TO
      then bind (svc_word fr (svc_abort 0)) (returned (\<lambda>_. ret (Returned status)))
      else ret (Returned status)) s"

definition os_mutex_acquire :: "svc_frame \<Rightarrow> mutex_ptr \<Rightarrow> u32 \<Rightarrow> u32 call os" where
  "os_mutex_acquire fr m to =
     bind (svc_word fr (svc_mutex_acquire m to)) (returned (os_mutex_acquired fr m))"

definition os_mutex_release :: "svc_frame \<Rightarrow> mutex_ptr \<Rightarrow> u32 call os" where
  "os_mutex_release fr m = svc_word fr (svc_mutex_release m)"

definition os_semaphore_acquire :: "svc_frame \<Rightarrow> semaphore_ptr \<Rightarrow> u32 \<Rightarrow> u32 call os" where
  "os_semaphore_acquire fr p to = svc_word fr (svc_semaphore_acquire p to)"

definition os_semaphore_release :: "svc_frame \<Rightarrow> semaphore_ptr \<Rightarrow> u32 call os" where
  "os_semaphore_release fr p = svc_word fr (svc_semaphore_release p)"

definition os_rwlock_create :: "svc_frame \<Rightarrow> rwlock_ptr \<Rightarrow> os_rwlock_definition_t \<Rightarrow> u32 call os" where
  "os_rwlock_create fr l def s =
     (if get_IPSR s \<noteq> 0 then ret (Returned OSS_ERROR_INVALID)
      else if osi_in_task s then svc_word fr (svc_rwlock_create l def)
      else direct (svc_rwlock_create l def)) s"

definition os_rwlock_acquire_read :: "svc_frame \<Rightarrow> rwlock_ptr \<Rightarrow> u32 \<Rightarrow> u32 call os" where
  "os_rwlock_acquire_read fr l to = svc_word fr (svc_rwlock_acquire_read l to)"

text \<open>What follows the service call in \<open>os_rwlock_acquire_write\<close>.\<close>

definition os_rwlock_acquired :: "rwlock_ptr \<Rightarrow> u32 \<Rightarrow> u32 call os" where
  "os_rwlock_acquired l rv s =
     seq
       [guarded (rv = OSS_SUCCESS)
          (os_assert ''rwlock->readers == 0 && rwlock->writers == 1''
             (r_readers (rwlock_at s l) = 0 \<and> r_writers (rwlock_at s l) = 1))]
       (ret (Returned rv)) s"

definition os_rwlock_acquire_write :: "svc_frame \<Rightarrow> rwlock_ptr \<Rightarrow> u32 \<Rightarrow> u32 call os" where
  "os_rwlock_acquire_write fr l to =
     bind (svc_word fr (svc_rwlock_acquire_write l to)) (returned (os_rwlock_acquired l))"

definition os_rwlock_release :: "svc_frame \<Rightarrow> rwlock_ptr \<Rightarrow> u32 call os" where
  "os_rwlock_release fr l = svc_word fr (svc_rwlock_release l)"

definition os_signal :: "svc_frame \<Rightarrow> task_ptr \<Rightarrow> u32 \<Rightarrow> u32 call os" where
  "os_signal fr t sig = svc_word fr (svc_signal t sig)"

definition os_signal_check :: "svc_frame \<Rightarrow> u32 \<Rightarrow> u32 call os" where
  "os_signal_check fr sig = svc_word fr (svc_signal_check sig)"

definition os_example :: "svc_frame \<Rightarrow> u32 call os" where
  "os_example fr s = (if osi_in_task s then svc_word fr svc_example else direct svc_example) s"

end
