(* ===== verification/RttPrintf.thy ===== *)
theory RttPrintf
  imports RttRead TinyPrintf Service
begin

text \<open>
  Formatted output over the debug channel: the console of the devices (\<open>serial_putchar\<close> of
  \<open>src/src/arduino.cpp\<close> on top of \<open>SEGGER_RTT_PutChar\<close>) and \<open>SEGGER_RTT_printf\<close>
  (\<open>src/src/segger/SEGGER_RTT_printf.c\<close>), which collects the characters in a buffer of its own.
\<close>

section \<open>SEGGER_RTT_printf\<close>

text \<open>The descriptor, together with the channels it writes to; \<open>ReturnValue\<close> is an \<open>int\<close>.\<close>

record SEGGER_RTT_PRINTF_DESC =
  d_pBuffer :: "u8 list"
  d_BufferSize :: u32
  d_Cnt :: u32
  d_ReturnValue :: u32
  d_RTTBufferIndex :: u32
  d_rtt :: rtt

definition on_rtt :: "(rtt, 'a) comp \<Rightarrow> (SEGGER_RTT_PRINTF_DESC, 'a) comp" where
  "on_rtt m d =
     (case m (d_rtt d) of
        None \<Rightarrow> None
      | Some (Inl e) \<Rightarrow> Some (Inl e)
      | Some (Inr (a, s)) \<Rightarrow> Some (Inr (a, d\<lparr>d_rtt := s\<rparr>)))"

definition StoreChar :: "u8 \<Rightarrow> (SEGGER_RTT_PRINTF_DESC, unit) comp" where
  "StoreChar c =
     block
       [(\<lambda>d. guarded (d_Cnt d + 1 \<le> d_BufferSize d)
          (if unat (d_Cnt d) < length (d_pBuffer d)
           then modify (\<lambda>d. d\<lparr>d_pBuffer := (d_pBuffer d)[unat (d_Cnt d) := c], d_Cnt := d_Cnt d + 1,
                              d_ReturnValue := d_ReturnValue d + 1\<rparr>)
           else fail Out_of_bounds) d),
        (\<lambda>d. guarded (d_Cnt d = d_BufferSize d)
          (bind (on_rtt (SEGGER_RTT_Write (d_RTTBufferIndex d) (d_pBuffer d) (d_Cnt d))) (\<lambda>n.
             modify (\<lambda>d. if n \<noteq> d_Cnt d then d\<lparr>d_ReturnValue := - 1\<rparr> else d\<lparr>d_Cnt := 0\<rparr>))) d)]"

definition write_buffer :: "char \<Rightarrow> (SEGGER_RTT_PRINTF_DESC, unit) comp" where
  "write_buffer c = (if c \<noteq> NUL then StoreChar (of_nat (char_code c)) else ret ())"

abbreviation (input) SEGGER_RTT_PRINTF_BUFFER_SIZE :: nat where "SEGGER_RTT_PRINTF_BUFFER_SIZE \<equiv> 64"

text \<open>\<open>acBuffer\<close> starts with whatever is on the stack: \<open>stk\<close>, 64 bytes.\<close>

definition fresh_desc :: "u32 \<Rightarrow> u8 list \<Rightarrow> rtt \<Rightarrow> SEGGER_RTT_PRINTF_DESC" where
  "fresh_desc BufferIndex stk s =
     \<lparr>d_pBuffer = stk, d_BufferSize = of_nat SEGGER_RTT_PRINTF_BUFFER_SIZE, d_Cnt = 0, d_ReturnValue = 0,
      d_RTTBufferIndex = BufferIndex, d_rtt = s\<rparr>"

definition flush_desc :: "(SEGGER_RTT_PRINTF_DESC, unit) comp" where
  "flush_desc d =
     guarded (0 <s d_ReturnValue d)
       (block
          [guarded (d_Cnt d \<noteq> 0)
             (ignore (on_rtt (SEGGER_RTT_Write (d_RTTBufferIndex d) (d_pBuffer d) (d_Cnt d)))),
           modify (\<lambda>d. d\<lparr>d_ReturnValue := d_ReturnValue d + d_Cnt d\<rparr>)]) d"

definition SEGGER_RTT_vprintf :: "u8 list \<Rightarrow> u32 \<Rightarrow> string \<Rightarrow> va list \<Rightarrow> (rtt, u32) comp" where
  "SEGGER_RTT_vprintf stk BufferIndex sFormat va s =
     (case seq [ignore (tiny_vfctprintf False write_buffer sFormat va), flush_desc] (gets d_ReturnValue)
             (fresh_desc BufferIndex stk s) of
        None \<Rightarrow> None
      | Some (Inl e) \<Rightarrow> Some (Inl e)
      | Some (Inr (r, d)) \<Rightarrow> Some (Inr (r, d_rtt d)))"

definition SEGGER_RTT_printf :: "u8 list \<Rightarrow> u32 \<Rightarrow> string \<Rightarrow> va list \<Rightarrow> (rtt, u32) comp" where
  "SEGGER_RTT_printf stk BufferIndex sFormat va = SEGGER_RTT_vprintf stk BufferIndex sFormat va"

section \<open>Plain text\<close>

definition plain :: "string \<Rightarrow> bool" where
  "plain cs \<longleftrightarrow> (\<forall>c\<in>set cs. c \<noteq> NUL \<and> c \<noteq> CHR ''%'')"

lemma vsnprintf_loop_plain: "plain cs \<Longrightarrow> vsnprintf_loop out maxlen cs va idx = out_chars out maxlen cs idx"
  by (induction cs arbitrary: idx) (simp_all add: vsnprintf_loop_simps plain_def)

text \<open>
  A text is put out character by character: \<open>I i\<close> holds of the states in which \<open>i\<close> of them are out.
\<close>

lemma vfctprintf_plain:
  assumes p: "plain cs" and nul: "\<And>s. put NUL s = Some (Inr ((), s))" and start: "I 0 s"
    and step: "\<And>i s. i < length cs \<Longrightarrow> I i s \<Longrightarrow> \<exists>s'. put (cs ! i) s = Some (Inr ((), s')) \<and> I (Suc i) s'"
  shows "\<exists>s'. os_vfctprintf put cs va s = Some (Inr (of_nat (length cs), s')) \<and> I (length cs) s'"
proof -
  have "j \<le> length cs \<Longrightarrow> I j s \<Longrightarrow> \<exists>s'. out_chars (out_fct put) maxlen (drop j cs) (of_nat j) s =
      Some (Inr (of_nat (length cs), s')) \<and> I (length cs) s'" for j s maxlen
  proof (induction "length cs - j" arbitrary: j s)
    case (Suc n)
    then have j: "j < length cs" by simp
    obtain s' where s': "put (cs ! j) s = Some (Inr ((), s'))" "I (Suc j) s'"
      using step [OF j Suc.prems(2)] by blast
    have "out_chars (out_fct put) maxlen (drop j cs) (of_nat j) s =
        out_chars (out_fct put) maxlen (drop (Suc j) cs) (of_nat (Suc j)) s'"
      using j s'(1) by (simp add: Cons_nth_drop_Suc [symmetric] out_fct_def exec add.commute)
    moreover have "n = length cs - Suc j" "Suc j \<le> length cs" using Suc.hyps(2) j by simp_all
    ultimately show ?case using Suc.hyps(1) [of "Suc j" s'] s'(2) by simp
  qed (simp add: exec)
  from this [of 0 s "- 1"] start obtain s' where
    "out_chars (out_fct put) (- 1) cs 0 s = Some (Inr (of_nat (length cs), s'))" "I (length cs) s'" by auto
  moreover have "put NUL s' = Some (Inr ((), s'))" by (rule nul)
  ultimately show ?thesis
    by (simp add: os_vfctprintf_def vsnprintf_def vsnprintf_loop_plain [OF p] out_fct_def bind_def ret_apply)
qed

section \<open>The console of the devices\<close>

definition char_byte :: "char \<Rightarrow> u8" where
  "char_byte c = of_nat (char_code c)"

definition rtt_console :: "char \<Rightarrow> (rtt, unit) comp" where
  "rtt_console c = ignore (SEGGER_RTT_PutChar 0 (char_byte c))"

lemma room_for_one:
  assumes ok: "ring_ok r" and room: "used r < capacity r"
  shows "wrapped_off r (WrOff r + 1) \<noteq> RdOff r"
proof
  assume eq: "wrapped_off r (WrOff r + 1) = RdOff r"
  have fits: "unat (WrOff r) + length [0 :: u8] \<le> unat (SizeOfBuffer r)" using ok by (simp add: ring_ok_def Suc_le_eq)
  have "used (written [0] r) = used r + 1" using written_ok(2) [OF ok _ fits] room by simp
  moreover have "used (written [0] r) = 0"
    using used_eq [OF written_ok(1) [OF ok _ fits]] room eq by (simp add: written_def)
  ultimately show False by simp
qed

lemma PutChar_eq:
  assumes c: "channel_ok i s" and init: "acID s ! 0 \<noteq> 0"
    and m: "Flags (up i s) \<noteq> SEGGER_RTT_MODE_BLOCK_IF_FIFO_FULL" and room: "used (up i s) < capacity (up i s)"
  shows "SEGGER_RTT_PutChar i b s = Some (Inr (1, with_up i (written [b] (up i (looked i s))) (looked i s)))"
proof -
  let ?s1 = "looked i s"
  let ?r = "up i ?s1"
  note l = looked_ok [OF c]
  have ok: "ring_ok ?r" and len: "unat i < length (aUp ?s1)" using l(2) by (simp_all add: channel_ok_def)
  have ne: "wrapped_off (up i s) (WrOff (up i s) + 1) \<noteq> RdOff ?r"
    using room_for_one [OF ok] room l(4,5,9) by (simp add: wrapped_off_def)
  obtain d where d: "pBuffer ?r = Some d" "length d = unat (SizeOfBuffer ?r)" "unat (WrOff ?r) < unat (SizeOfBuffer ?r)"
    using ok by (auto simp: ring_ok_def)
  have mc: "memcpy_up i (WrOff ?r) [b] 0 1 ?s1 =
      Some (Inr ((), with_up i (?r\<lparr>pBuffer := Some (overlay d (unat (WrOff ?r)) [b])\<rparr>) ?s1))"
    using d len l(2) by (simp add: memcpy_up_def get_up_eq set_up_eq exec)
  have "store_char i (wrapped_off (up i s) (WrOff (up i s) + 1)) b (RdOff ?r) ?s1 =
      Some (Inr (1, with_up i (written [b] ?r) ?s1))"
    using ne mc len d(1) l(2,4,5)
    by (simp add: store_char_def get_up_eq set_up_eq exec written_def wrapped_off_def)
  then show ?thesis
    unfolding SEGGER_RTT_PutChar_def INIT_done [OF init] bind_returns [of "get_up i" s, OF get_up_eq [OF c]]
    using m l(1) by (simp add: exec)
qed



section \<open>Counting\<close>

lemma word_small_ne: "unat (w :: u32) < 63 \<Longrightarrow> w \<noteq> 63 \<and> w \<noteq> 64"
  by auto

text \<open>
  \<open>SEGGER_RTT_printf\<close> counts the characters it has buffered and adds the number still in the buffer once
  more: for a text of less than 64 characters it answers twice its length, and does so whatever
  \<open>SEGGER_RTT_Write\<close> says about the write, even when nothing was written.
\<close>

lemma rtt_printf_counts_twice:
  assumes p: "plain cs" and n: "0 < length cs" "length cs < 64" and stk: "length stk = 64"
  shows "SEGGER_RTT_printf stk i cs va s =
    (case SEGGER_RTT_Write i (map char_byte cs @ drop (length cs) stk) (of_nat (length cs)) s of
       None \<Rightarrow> None
     | Some (Inl e) \<Rightarrow> Some (Inl e)
     | Some (Inr (k, s')) \<Rightarrow> Some (Inr (of_nat (2 * length cs), s')))"
proof -
  define st where "st = (\<lambda>j. (fresh_desc i stk s)\<lparr>d_pBuffer := map char_byte (take j cs) @ drop j stk,
    d_Cnt := of_nat j, d_ReturnValue := of_nat j\<rparr>)"
  have "\<exists>d. os_vfctprintf write_buffer cs va (st 0) = Some (Inr (of_nat (length cs), d)) \<and> d = st (length cs)"
  proof (rule vfctprintf_plain [OF p])
    show "write_buffer NUL d = Some (Inr ((), d))" for d by (simp add: write_buffer_def exec)
    fix j d assume j: "j < length cs" and d: "d = st j"
    have u: "unat (of_nat j :: u32) = j" using j n by (simp add: unat_of_nat)
    have lt: "unat (of_nat j + 1 :: u32) = Suc j" using j n by (simp add: unat_word_ariths u)
    have c64: "(of_nat j + 1 :: u32) < 64" using lt j n by (simp add: word_less_nat_alt)
    have c64': "1 + (of_nat j :: u32) \<le> 64" using c64 by (simp add: add.commute)
    have n63: "(of_nat j :: u32) \<noteq> 63" "(of_nat j :: u32) \<noteq> 64"
      using word_small_ne [of "of_nat j"] u j n by simp_all
    have "(map char_byte (take j cs) @ drop j stk)[j := char_byte (cs ! j)] =
        map char_byte (take (Suc j) cs) @ drop (Suc j) stk"
      using j n stk by (simp add: list_update_append take_Suc_conv_app_nth Cons_nth_drop_Suc [symmetric])
    moreover have "cs ! j \<noteq> NUL" using p j by (simp add: plain_def)
    ultimately have "write_buffer (cs ! j) (st j) = Some (Inr ((), st (Suc j)))"
      using j n stk u c64' n63
      by (simp add: write_buffer_def StoreChar_def st_def fresh_desc_def exec char_byte_def add.commute)
    then show "\<exists>d'. write_buffer (cs ! j) d = Some (Inr ((), d')) \<and> d' = st (Suc j)" using d by blast
  qed simp
  moreover have "st 0 = fresh_desc i stk s" by (simp add: st_def fresh_desc_def)
  ultimately have run: "tiny_vfctprintf False write_buffer cs va (fresh_desc i stk s) =
      Some (Inr (of_nat (length cs), st (length cs)))"
    by (simp add: tiny_vfctprintf_def os_vfctprintf_def tiny_format_eq)
  have pos: "0 <s (of_nat (length cs) :: u32)" "(of_nat (length cs) :: u32) \<noteq> 0"
  proof -
    have u: "unat (of_nat (length cs) :: u32) = length cs" using n by (simp add: unat_of_nat)
    show "0 <s (of_nat (length cs) :: u32)"
      using n by (simp add: word_sless_alt signed_of_nat signed_take_bit_int_eq_self)
    show "(of_nat (length cs) :: u32) \<noteq> 0" using n u by (metis unat_0 neq0_conv)
  qed
  show ?thesis
    unfolding SEGGER_RTT_printf_def SEGGER_RTT_vprintf_def
    using run pos by (simp add: exec flush_desc_def st_def fresh_desc_def on_rtt_def split: option.split sum.split)
qed

lemma rtt_printf_counts_twice_example:
  "SEGGER_RTT_printf (replicate 64 0) 0 ''osh'' [] (example_rtt 0 []) =
    (case SEGGER_RTT_Write 0 ([111, 115, 104] @ replicate 61 0) 3 (example_rtt 0 []) of
       None \<Rightarrow> None
     | Some (Inl e) \<Rightarrow> Some (Inl e)
     | Some (Inr (k, s')) \<Rightarrow> Some (Inr (6, s')))"
proof -
  have "of_nat (2 * length ''osh'') = (6 :: u32)" by simp
  moreover have "map char_byte ''osh'' @ drop (length ''osh'') (replicate 64 0) = [111, 115, 104] @ replicate 61 0"
    by (simp add: char_byte_def char_code_def)
  ultimately show ?thesis
    using rtt_printf_counts_twice [of "''osh''" "replicate 64 0" 0 "[]" "example_rtt 0 []"]
    by (simp only:) (simp add: plain_def)
qed

end
