(* ===== verification/LegacyPrintf.thy ===== *)
theory LegacyPrintf
  imports RttPrintf "HOL-Library.Signed_Division"
begin

unbundle bit_operations_syntax

text \<open>
  The formatter that \<open>src/src/segger/SEGGER_RTT_printf.c\<close> has of its own, built when
  \<open>SEGGER_RTT_USE_LEGACY_PRINTF\<close> is defined: numbers, the parser of the directives and
  \<open>SEGGER_RTT_vprintf\<close>, all on top of \<open>StoreChar\<close>.  An \<open>int\<close> that overflows wraps.
\<close>

section \<open>Numbers\<close>

abbreviation (input) FORMAT_FLAG_LEFT_JUSTIFY :: u32 where "FORMAT_FLAG_LEFT_JUSTIFY \<equiv> 0x1"
abbreviation (input) FORMAT_FLAG_PAD_ZERO :: u32 where "FORMAT_FLAG_PAD_ZERO \<equiv> 0x2"
abbreviation (input) FORMAT_FLAG_PRINT_SIGN :: u32 where "FORMAT_FLAG_PRINT_SIGN \<equiv> 0x4"
abbreviation (input) FORMAT_FLAG_ALTERNATE :: u32 where "FORMAT_FLAG_ALTERNATE \<equiv> 0x8"

text \<open>What follows a store: \<open>m\<close> when the channel refused the buffer, \<open>m'\<close> otherwise.\<close>

definition refused :: "(SEGGER_RTT_PRINTF_DESC, 'a) comp \<Rightarrow> (SEGGER_RTT_PRINTF_DESC, 'a) comp \<Rightarrow> (SEGGER_RTT_PRINTF_DESC, 'a) comp"
  where "refused m m' d = (if d_ReturnValue d <s 0 then m d else m' d)"

lemma refused_mono [partial_function_mono]:
  assumes "\<And>s. mono_option (\<lambda>f. B f s)" and "\<And>s. mono_option (\<lambda>f. C f s)"
  shows "mono_option (\<lambda>f. refused (B f) (C f) s)"
  by (cases "d_ReturnValue s <s 0") (simp_all add: refused_def assms)

text \<open>The number of digits of \<open>Number\<close>; a base of 0 divides by zero, a base of 1 never ends.\<close>

partial_function (option) digit_count ::
  "u32 \<Rightarrow> u32 \<Rightarrow> u32 \<Rightarrow> 's \<Rightarrow> (fault + u32 \<times> 's) option" where
  "digit_count Base Number Width s =
     (if Base \<le> Number
      then if Base = 0 then fail Division_by_zero s else digit_count Base (Number div Base) (Width + 1) s
      else ret Width s)"

text \<open>The loops that fill a field with \<open>c\<close>; what is left of the field width stays.\<close>

function fill_field :: "u8 \<Rightarrow> u32 \<Rightarrow> u32 \<Rightarrow> (SEGGER_RTT_PRINTF_DESC, u32) comp" where
  "fill_field c Width FieldWidth =
     (if FieldWidth \<noteq> 0 \<and> Width < FieldWidth
      then bind (StoreChar c)
             (\<lambda>_. refused (ret (FieldWidth - 1)) (fill_field c Width (FieldWidth - 1)))
      else ret FieldWidth)"
  by pat_completeness auto

termination
  by (relation "measure (\<lambda>(c, Width, FieldWidth). unat FieldWidth)") (auto simp: measure_unat)

declare fill_field.simps [simp del]

text \<open>The value of the highest digit: \<open>Base\<close> to the number of the digits behind it, in 32 bits.\<close>

partial_function (option) highest_digit ::
  "u32 \<Rightarrow> u32 \<Rightarrow> u32 \<Rightarrow> u32 \<Rightarrow> 's \<Rightarrow> (fault + u32 \<times> 's) option" where
  "highest_digit v Base NumDigits Digit s =
     (if 1 < NumDigits then highest_digit v Base (NumDigits - 1) (Digit * Base) s
      else if Digit = 0 then fail Division_by_zero s
      else if v div Digit < Base then ret Digit s
      else highest_digit v Base NumDigits (Digit * Base) s)"

definition aV2C :: "u8 list" where
  "aV2C = map char_byte ''0123456789ABCDEF''"

definition digit_byte :: "u32 \<Rightarrow> ('s, u8) comp" where
  "digit_byte Div = (if unat Div < length aV2C then ret (aV2C ! unat Div) else fail Out_of_bounds)"

partial_function (option) store_digits ::
  "u32 \<Rightarrow> u32 \<Rightarrow> u32 \<Rightarrow> SEGGER_RTT_PRINTF_DESC \<Rightarrow> (fault + unit \<times> SEGGER_RTT_PRINTF_DESC) option" where
  "store_digits Base v Digit d =
     (if Digit = 0 then fail Division_by_zero d
      else bind (digit_byte (v div Digit)) (\<lambda>c.
           bind (StoreChar c) (\<lambda>_.
           refused (ret ())
             (\<lambda>d. if Base = 0 then fail Division_by_zero d
                   else if Digit div Base = 0 then ret () d
                   else store_digits Base (v - v div Digit * Digit) (Digit div Base) d))) d)"

definition justify_left :: "u32 \<Rightarrow> bool" where
  "justify_left FormatFlags \<longleftrightarrow> FormatFlags AND FORMAT_FLAG_LEFT_JUSTIFY = FORMAT_FLAG_LEFT_JUSTIFY"

definition pad_zero :: "u32 \<Rightarrow> bool" where
  "pad_zero FormatFlags \<longleftrightarrow> FormatFlags AND FORMAT_FLAG_PAD_ZERO = FORMAT_FLAG_PAD_ZERO"

definition print_sign :: "u32 \<Rightarrow> bool" where
  "print_sign FormatFlags \<longleftrightarrow> FormatFlags AND FORMAT_FLAG_PRINT_SIGN = FORMAT_FLAG_PRINT_SIGN"

definition PrintUnsigned ::
  "u32 \<Rightarrow> u32 \<Rightarrow> u32 \<Rightarrow> u32 \<Rightarrow> u32 \<Rightarrow> (SEGGER_RTT_PRINTF_DESC, unit) comp" where
  "PrintUnsigned v Base NumDigits FieldWidth FormatFlags =
     bind (digit_count Base v 1) (\<lambda>Width.
     let Width = (if Width < NumDigits then NumDigits else Width);
         c = (if pad_zero FormatFlags \<and> NumDigits = 0 then char_byte (CHR ''0'') else char_byte (CHR '' ''))
     in bind (if \<not> justify_left FormatFlags then fill_field c Width FieldWidth else ret FieldWidth) (\<lambda>FieldWidth.
        refused (ret ())
          (bind (highest_digit v Base NumDigits 1) (\<lambda>Digit.
           bind (store_digits Base v Digit) (\<lambda>_.
           guarded (justify_left FormatFlags)
             (ignore (fill_field (char_byte (CHR '' '')) Width FieldWidth)))))))"

text \<open>Dividing an \<open>int\<close>: the loop runs for numbers that are not negative.\<close>

partial_function (option) int_digit_count ::
  "u32 \<Rightarrow> u32 \<Rightarrow> u32 \<Rightarrow> 's \<Rightarrow> (fault + u32 \<times> 's) option" where
  "int_digit_count Base Number Width s =
     (if Base \<le>s Number
      then if Base = 0 then fail Division_by_zero s
           else int_digit_count Base (word_of_int (sint Number sdiv sint Base)) (Width + 1) s
      else ret Width s)"

definition PrintInt :: "u32 \<Rightarrow> u32 \<Rightarrow> u32 \<Rightarrow> u32 \<Rightarrow> u32 \<Rightarrow> (SEGGER_RTT_PRINTF_DESC, unit) comp" where
  "PrintInt v Base NumDigits FieldWidth FormatFlags =
     (let Number = (if v <s 0 then - v else v) in
      bind (int_digit_count Base Number 1) (\<lambda>Width.
      let Width = (if Width < NumDigits then NumDigits else Width);
          FieldWidth = (if 0 < FieldWidth \<and> (v <s 0 \<or> print_sign FormatFlags) then FieldWidth - 1 else FieldWidth)
      in bind (if (\<not> pad_zero FormatFlags \<or> NumDigits \<noteq> 0) \<and> \<not> justify_left FormatFlags
               then fill_field (char_byte (CHR '' '')) Width FieldWidth else ret FieldWidth) (\<lambda>FieldWidth.
         refused (ret ())
           (bind (if v <s 0 then StoreChar (char_byte (CHR ''-''))
                  else if print_sign FormatFlags then StoreChar (char_byte (CHR ''+'')) else ret ()) (\<lambda>_.
            refused (ret ())
              (bind (if pad_zero FormatFlags \<and> \<not> justify_left FormatFlags \<and> NumDigits = 0
                     then fill_field (char_byte (CHR ''0'')) Width FieldWidth else ret FieldWidth) (\<lambda>FieldWidth.
               refused (ret ())
                 (PrintUnsigned (if v <s 0 then - v else v) Base NumDigits FieldWidth FormatFlags))))))))"

section \<open>Directives\<close>

fun format_flags :: "u32 \<Rightarrow> string \<Rightarrow> u32 \<times> string" where
  "format_flags FormatFlags [] = (FormatFlags, [])"
| "format_flags FormatFlags (c # sFormat) =
     (if c = CHR ''-'' then format_flags (FormatFlags OR FORMAT_FLAG_LEFT_JUSTIFY) sFormat
      else if c = CHR ''0'' then format_flags (FormatFlags OR FORMAT_FLAG_PAD_ZERO) sFormat
      else if c = CHR ''+'' then format_flags (FormatFlags OR FORMAT_FLAG_PRINT_SIGN) sFormat
      else if c = CHR ''#'' then format_flags (FormatFlags OR FORMAT_FLAG_ALTERNATE) sFormat
      else (FormatFlags, c # sFormat))"

fun format_number :: "u32 \<Rightarrow> string \<Rightarrow> u32 \<times> string" where
  "format_number i [] = (i, [])"
| "format_number i (c # sFormat) =
     (if char_code c < char_code (CHR ''0'') \<or> char_code (CHR ''9'') < char_code c then (i, c # sFormat)
      else format_number (i * 10 + (of_nat (char_code c) - of_nat (char_code (CHR ''0'')))) sFormat)"

definition format_precision :: "string \<Rightarrow> u32 \<times> string" where
  "format_precision sFormat = (if current sFormat = CHR ''.'' then format_number 0 (tl sFormat) else (0, sFormat))"

fun skip_modifiers :: "string \<Rightarrow> string" where
  "skip_modifiers [] = []"
| "skip_modifiers (c # sFormat) = (if c = CHR ''l'' \<or> c = CHR ''h'' then skip_modifiers sFormat else c # sFormat)"

fun store_string :: "string \<Rightarrow> (SEGGER_RTT_PRINTF_DESC, unit) comp" where
  "store_string [] = ret ()"
| "store_string (c # s) =
     (if c = NUL then ret () else bind (StoreChar (char_byte c)) (\<lambda>_. refused (ret ()) (store_string s)))"

definition legacy_specifier ::
  "char \<Rightarrow> u32 \<Rightarrow> u32 \<Rightarrow> u32 \<Rightarrow> va list \<Rightarrow> (SEGGER_RTT_PRINTF_DESC, va list) comp" where
  "legacy_specifier c NumDigits FieldWidth FormatFlags va =
     (if c = CHR ''c'' then bind (va_word va) (\<lambda>(v, va). bind (StoreChar (ucast v)) (\<lambda>_. ret va))
      else if c = CHR ''d''
      then bind (va_word va) (\<lambda>(v, va). bind (PrintInt v 10 NumDigits FieldWidth FormatFlags) (\<lambda>_. ret va))
      else if c = CHR ''u''
      then bind (va_word va) (\<lambda>(v, va). bind (PrintUnsigned v 10 NumDigits FieldWidth FormatFlags) (\<lambda>_. ret va))
      else if c = CHR ''x'' \<or> c = CHR ''X''
      then bind (va_word va) (\<lambda>(v, va). bind (PrintUnsigned v 16 NumDigits FieldWidth FormatFlags) (\<lambda>_. ret va))
      else if c = CHR ''s'' then bind (va_text va) (\<lambda>(s, va). bind (store_string s) (\<lambda>_. ret va))
      else if c = CHR ''p'' then bind (va_word va) (\<lambda>(v, va). bind (PrintUnsigned v 16 8 8 0) (\<lambda>_. ret va))
      else if c = CHR ''%'' then bind (StoreChar (char_byte (CHR ''%''))) (\<lambda>_. ret va)
      else ret va)"

definition legacy_directive :: "string \<Rightarrow> va list \<Rightarrow> (SEGGER_RTT_PRINTF_DESC, string \<times> va list) comp" where
  "legacy_directive sFormat va =
     (let (FormatFlags, sFormat) = format_flags 0 sFormat;
          (FieldWidth, sFormat) = format_number 0 sFormat;
          (NumDigits, sFormat) = format_precision sFormat;
          sFormat = skip_modifiers sFormat
      in bind (legacy_specifier (current sFormat) NumDigits FieldWidth FormatFlags va) (\<lambda>va.
         bind (advance sFormat) (\<lambda>sFormat. ret (sFormat, va))))"

section \<open>The formatter\<close>

partial_function (option) legacy_loop ::
  "string \<Rightarrow> va list \<Rightarrow> SEGGER_RTT_PRINTF_DESC \<Rightarrow> (fault + unit \<times> SEGGER_RTT_PRINTF_DESC) option" where
  "legacy_loop sFormat va d =
     (if current sFormat = NUL then ret () d
      else bind (if current sFormat = CHR ''%'' then legacy_directive (tl sFormat) va
                 else bind (StoreChar (char_byte (current sFormat))) (\<lambda>_. ret (tl sFormat, va)))
             (\<lambda>r. refused (ret ()) (legacy_loop (fst r) (snd r))) d)"

definition legacy_vprintf :: "u8 list \<Rightarrow> u32 \<Rightarrow> string \<Rightarrow> va list \<Rightarrow> (rtt, u32) comp" where
  "legacy_vprintf stk BufferIndex sFormat va s =
     (case seq [legacy_loop sFormat va, flush_desc] (gets d_ReturnValue) (fresh_desc BufferIndex stk s) of
        None \<Rightarrow> None
      | Some (Inl e) \<Rightarrow> Some (Inl e)
      | Some (Inr (r, d)) \<Rightarrow> Some (Inr (r, d_rtt d)))"

section \<open>Digits\<close>

text \<open>The digits of a number, and its digits at \<open>k\<close> places, the highest first.\<close>

function number_digits :: "nat \<Rightarrow> nat \<Rightarrow> nat list" where
  "number_digits b n = (if n < b \<or> b < 2 then [n] else number_digits b (n div b) @ [n mod b])"
  by pat_completeness auto

termination by (relation "measure snd") auto

declare number_digits.simps [simp del]

fun places :: "nat \<Rightarrow> nat \<Rightarrow> nat \<Rightarrow> nat list" where
  "places b 0 n = []"
| "places b (Suc k) n = n div b ^ k # places b k (n mod b ^ k)"

lemma number_digits_ne: "number_digits b n \<noteq> []"
  by (simp add: number_digits.simps [of b n])

lemma number_digits_length: "2 \<le> b \<Longrightarrow> length (number_digits b n) \<le> Suc k \<longleftrightarrow> n < b ^ Suc k"
proof (induction k arbitrary: n)
  case 0
  then show ?case by (simp add: number_digits.simps [of b n] number_digits_ne)
next
  case (Suc k)
  have "n < b \<Longrightarrow> n < b * (b * b ^ k)"
    by (rule order.strict_trans2 [of _ b]) (use Suc.prems in simp_all)
  then show ?case using Suc
    by (auto simp add: number_digits.simps [of b n] div_less_iff_less_mult mult.commute mult.left_commute)
qed

lemma places_snoc: "places b (Suc k) n = places b k (n div b) @ [n mod b]" if "n < b ^ Suc k" "2 \<le> b"
  using that
proof (induction k arbitrary: n)
  case (Suc k)
  have "n mod b ^ Suc k < b ^ Suc k" using Suc.prems by simp
  moreover have "n mod b ^ Suc k div b = n div b mod b ^ k"
    using Suc.prems(2) by (simp add: mod_mult2_eq)
  moreover have "n mod b ^ Suc k mod b = n mod b" by (simp add: mod_mult2_eq)
  moreover have "n div b ^ Suc k = n div b div b ^ k" by (simp add: div_mult2_eq)
  ultimately show ?case using Suc.IH [of "n mod b ^ Suc k"] Suc.prems(2)
    by (simp only: places.simps append_Cons)
qed simp

lemma places_eq:
  "2 \<le> b \<Longrightarrow> n < b ^ k \<Longrightarrow> 0 < k \<Longrightarrow>
     places b k n = replicate (k - length (number_digits b n)) 0 @ number_digits b n"
proof (induction k arbitrary: n)
  case (Suc k)
  show ?case
  proof (cases "n < b")
    case True
    have "places b (Suc k) n = replicate k 0 @ [n]" if "n < b" for k n
      using that
    proof (induction k)
      case (Suc k)
      have "n < b ^ Suc k" using Suc.prems Suc(2) \<open>2 \<le> b\<close> by (simp add: order.strict_trans2 [of _ b])
      with Suc show ?case by simp
    qed simp
    with True show ?thesis by (simp add: number_digits.simps [of b n])
  next
    case False
    then have "k \<noteq> 0" using Suc.prems(2) by (cases k) auto
    moreover have "n div b < b ^ k" using Suc.prems by (simp add: div_less_iff_less_mult mult.commute)
    ultimately have "places b k (n div b) =
        replicate (k - length (number_digits b (n div b))) 0 @ number_digits b (n div b)"
      using Suc.IH Suc.prems(1) by blast
    then show ?thesis
      using places_snoc [OF Suc.prems(2,1)] False Suc.prems(1) by (simp add: number_digits.simps [of b n])
  qed
qed simp


lemma ntoa_digits_eq:
  fixes v b :: u32
  assumes "2 \<le> unat b"
  shows "length buf + length (number_digits (unat b) (unat v)) \<le> 32 \<Longrightarrow>
    ntoa_digits fl v b buf = buf @ rev (map (digit_char fl) (number_digits (unat b) (unat v)))"
proof (induction "number_digits (unat b) (unat v)" arbitrary: v buf rule: rev_induct)
  case (snoc d ds)
  show ?case
  proof (cases "v < b")
    case True
    then have "v div b = 0" "v mod b = v" "number_digits (unat b) (unat v) = [unat v]"
      by (simp_all add: word_unat_eq_iff unat_div unat_mod word_less_nat_alt number_digits.simps [of "unat b"])
    then show ?thesis by (simp add: ntoa_digits.simps [of _ v])
  next
    case False
    have nz: "v div b \<noteq> 0" "unat (v div b) = unat v div unat b"
      using False assms by (auto simp: word_unat_eq_iff unat_div word_less_nat_alt div_eq_0_iff)
    have n: "number_digits (unat b) (unat v) = number_digits (unat b) (unat (v div b)) @ [unat (v mod b)]"
      using False assms by (simp add: number_digits.simps [of _ "unat v"] nz(2) unat_mod word_less_nat_alt)
    then have "ds = number_digits (unat b) (unat (v div b))" using snoc.hyps(2) by simp
    from snoc.hyps(1) [OF this, of "buf @ [digit_char fl (unat (v mod b))]"] snoc.prems n nz(1)
    show ?thesis
      using number_digits_ne [of "unat b" "unat (v div b)"]
      by (cases "number_digits (unat b) (unat (v div b))") (auto simp: ntoa_digits.simps [of _ v])
  qed
qed (metis number_digits_ne)

lemma number_digits_word: "2 \<le> b \<Longrightarrow> length (number_digits b (unat (v :: u32))) \<le> 32"
proof -
  assume b: "2 \<le> b"
  have "unat v < 2 ^ 32" using unsigned_less [of v] by simp
  also have "(2 :: nat) ^ 32 \<le> b ^ 32" using b by (rule power_mono) simp
  finally show ?thesis using number_digits_length [OF b, of "unat v" 31] by simp
qed

lemma digit_count_simps:
  "digit_count b n w = (if b \<le> n then if b = 0 then fail Division_by_zero else digit_count b (n div b) (w + 1) else ret w)"
  by (rule ext, subst digit_count.simps, simp)

lemma digit_count_eq:
  "2 \<le> unat b \<Longrightarrow> digit_count b n w = ret (w + of_nat (length (number_digits (unat b) (unat n))) - 1)"
proof (induction "unat n" arbitrary: n w rule: less_induct)
  case less
  show ?case
  proof (cases "n < b")
    case True
    then show ?thesis
      by (simp add: digit_count_simps [of b] number_digits.simps [of "unat b"] word_less_nat_alt not_le [symmetric] word_le_nat_alt)
  next
    case False
    have u: "unat (n div b) = unat n div unat b" by (simp add: unat_div)
    have lt: "unat (n div b) < unat n" using False less.prems by (simp add: u word_less_nat_alt)
    have b: "b \<noteq> 0" using less.prems by auto
    have "number_digits (unat b) (unat n) = number_digits (unat b) (unat (n div b)) @ [unat n mod unat b]"
      using False less.prems by (simp add: number_digits.simps [of _ "unat n"] u word_less_nat_alt)
    then show ?thesis
      using less.hyps [OF lt less.prems] False b by (simp add: digit_count_simps [of b n] not_less algebra_simps)
  qed
qed


lemma highest_digit_simps:
  "highest_digit v b n g =
     (if 1 < n then highest_digit v b (n - 1) (g * b)
      else if g = 0 then fail Division_by_zero
      else if v div g < b then ret g
      else highest_digit v b n (g * b))"
  by (rule ext, subst highest_digit.simps, simp)

text \<open>The precision multiplies first, in 32 bits.\<close>

lemma highest_digit_precision:
  "(highest_digit v b n g :: ('s, u32) comp) = highest_digit v b 1 (g * b ^ (unat n - 1))" if "0 < n"
  using that
proof (induction "unat n" arbitrary: n g rule: less_induct)
  case less
  show ?case
  proof (cases "1 < n")
    case True
    then have u: "unat (n - 1) = unat n - 1" by (intro unat_minus_one) auto 
    have "0 < n - 1" "unat n = Suc (Suc (unat n - 2))" using True u by (simp_all add: word_less_nat_alt)
    then have "(highest_digit v b (n - 1) (g * b) :: ('s, u32) comp) = highest_digit v b 1 (g * b * b ^ (unat n - 2))"
      using less.hyps [of "n - 1" "g * b"] u by (simp add: numeral_2_eq_2)
    moreover have "g * b * b ^ (unat n - 2) = g * b ^ (unat n - 1)"
      using \<open>unat n = _\<close> by (metis diff_Suc_1 mult.assoc power_Suc)
    ultimately show ?thesis using True by (simp add: highest_digit_simps [of v b n g])
  next
    case False
    then have "n = 1" using less.prems by (simp add: word_less_nat_alt word_unat_eq_iff)
    then show ?thesis by simp
  qed
qed

lemma unat_power: "unat b ^ k < 2 ^ 32 \<Longrightarrow> unat (b ^ k :: u32) = unat b ^ k"
proof -
  have "b ^ k = of_nat (unat b ^ k)" by simp
  moreover assume "unat b ^ k < 2 ^ 32"
  ultimately show ?thesis by (simp only: unat_of_nat) (simp add: take_bit_nat_eq_self)
qed

lemma highest_digit_eq:
  assumes b: "2 \<le> unat b" and n: "\<not> 1 < n"
  shows "unat g = unat b ^ j \<Longrightarrow> j \<le> k \<Longrightarrow> unat b ^ k < 2 ^ 32 \<Longrightarrow> unat v < unat b ^ Suc k \<Longrightarrow>
     k = j \<or> unat b ^ k \<le> unat v \<Longrightarrow> (highest_digit v b n g :: ('s, u32) comp) = ret (b ^ k)"
proof (induction "k - j" arbitrary: j g)
  case 0
  then have g: "unat g = unat b ^ k" by simp
  then have "g = b ^ k" using unat_power [OF "0.prems"(3)] by (simp add: word_unat_eq_iff)
  moreover have "g \<noteq> 0" using g b by (auto simp: word_unat_eq_iff)
  moreover have "v div g < b"
    using "0.prems"(4) b g by (simp add: word_less_nat_alt unat_div div_less_iff_less_mult)
  ultimately show ?case using n by (simp add: highest_digit_simps [of v b n "b ^ k"])
next
  case (Suc m)
  have v: "unat b ^ k \<le> unat v" using Suc.hyps(2) Suc.prems(5) by auto
  have j: "Suc j \<le> k" and diff: "m = k - Suc j" using Suc.hyps(2) by simp_all
  then have jk: "unat b ^ Suc j \<le> unat b ^ k" using b by (intro power_increasing) simp_all
  then have "unat g * unat b < 2 ^ 32" using Suc.prems(1,3) by (simp add: mult.commute)
  then have g: "unat (g * b) = unat b ^ Suc j" using Suc.prems(1) by (simp add: unat_mult_lem [THEN iffD1] mult.commute)
  have nz: "g \<noteq> 0" using Suc.prems(1) b by (auto simp: word_unat_eq_iff)
  have "unat b * unat g \<le> unat v" using jk v Suc.prems(1) by simp
  then have nl: "\<not> v div g < b"
    using nz by (simp add: word_less_nat_alt unat_div not_less less_eq_div_iff_mult_less_eq word_unat_eq_iff)
  have "(highest_digit v b n (g * b) :: ('s, u32) comp) = ret (b ^ k)"
    using Suc.hyps(1) [of "Suc j" "g * b", OF diff] g j Suc.prems(3,4) v by simp
  then show ?case using nz nl n by (simp add: highest_digit_simps [of v b n g])
qed


section \<open>What is stored\<close>

text \<open>Bytes stored one after the other, until the channel refuses the buffer.\<close>

fun store_then :: "u8 list \<Rightarrow> (SEGGER_RTT_PRINTF_DESC, unit) comp \<Rightarrow> (SEGGER_RTT_PRINTF_DESC, unit) comp" where
  "store_then [] m = m"
| "store_then (c # cs) m = bind (StoreChar c) (\<lambda>_. refused (ret ()) (store_then cs m))"

definition store_all :: "u8 list \<Rightarrow> (SEGGER_RTT_PRINTF_DESC, unit) comp" where
  "store_all cs = store_then cs (ret ())"

lemma refused_idem: "refused m (refused m' m'') = refused m m''" "refused (refused m m') m'' = refused m m''"
  by (rule ext, simp add: refused_def)+

lemma refused_same: "refused m m = m"
  by (rule ext) (simp add: refused_def)

lemma bind_refused: "bind (refused m m') f = refused (bind m f) (bind m' f)"
  by (rule ext) (simp add: refused_def bind_def)

lemmas run_simps = bind_assoc bind_refused bind_ret bind_ret_right refused_idem refused_same

lemma not_refused:
  "refused (ret ()) m = refused (ret ()) m' \<Longrightarrow> 0 \<le>s d_ReturnValue d \<Longrightarrow> m d = m' d"
  by (drule fun_cong [where x = d]) (simp add: refused_def signed.not_less [symmetric])

lemma store_then_append: "store_then (xs @ ys) m = store_then xs (store_then ys m)"
  by (induction xs) simp_all

lemma store_then_all: "store_then xs (store_all ys) = store_all (xs @ ys)"
  by (simp add: store_all_def store_then_append)

lemma fill_field_then:
  "bind (fill_field c w f) (\<lambda>f. refused (ret ()) (k f)) =
     (if w < f then store_then (replicate (unat f - unat w) c) (k w) else refused (ret ()) (k f))"
proof (induction c w f rule: fill_field.induct)
  case (1 c w f)
  show ?case
  proof (cases "w < f")
    case True
    have nz: "f \<noteq> 0" using True by auto
    then have u: "unat (f - 1) = unat f - 1" by (rule unat_minus_one)
    show ?thesis
    proof (cases "w < f - 1")
      case less: True
      then have "unat f - unat w = Suc (unat (f - 1) - unat w)" using u by (simp add: word_less_nat_alt)
      then show ?thesis using True less nz 1 by (simp add: fill_field.simps [of c w f] run_simps)
    next
      case False
      then have "f - 1 = w" "unat f - unat w = Suc 0"
        using True u by (simp_all add: word_less_nat_alt word_unat_eq_iff)
      then show ?thesis using True nz 1 by (simp add: fill_field.simps [of c w f] run_simps)
    qed
  qed (simp add: fill_field.simps [of c w f] run_simps)
qed

lemma fill_field_last: "ignore (fill_field c w f) = store_all (replicate (unat f - unat w) c)"
proof -
  have "ignore (fill_field c w f) = bind (fill_field c w f) (\<lambda>f. refused (ret ()) (ret ()))"
    by (rule ext) (simp add: exec refused_same)
  then show ?thesis
    unfolding fill_field_then by (auto simp: store_all_def refused_same word_less_nat_alt)
qed

lemma store_then_cong:
  "refused (ret ()) m = refused (ret ()) m' \<Longrightarrow>
    refused (ret ()) (store_then xs m) = refused (ret ()) (store_then xs m')"
proof (induction xs)
  case (Cons c xs)
  then show ?case by simp
qed simp

lemma fill_then_store:
  assumes "\<And>f. unat f \<le> unat w \<Longrightarrow> refused (ret ()) (k f) = refused (ret ()) (store_all cs)"
  shows "refused (ret ()) (bind (fill_field c w f) (\<lambda>f. refused (ret ()) (k f))) =
    refused (ret ()) (store_all (replicate (unat f - unat w) c @ cs))"
proof (cases "w < f")
  case True
  have "refused (ret ()) (k w) = refused (ret ()) (store_all cs)" using assms by simp
  from store_then_cong [OF this] True show ?thesis by (simp add: fill_field_then store_then_all)
next
  case False
  then have f: "unat f \<le> unat w" by (simp add: word_less_nat_alt)
  then show ?thesis using False assms [OF f] by (simp add: fill_field_then refused_idem)
qed

definition digit_of :: "nat \<Rightarrow> u8" where
  "digit_of i = char_byte (digit_char FLAGS_UPPERCASE i)"

lemma digit_byte_eq: "unat i < 16 \<Longrightarrow> digit_byte i = ret (digit_of (unat i))"
proof -
  have "aV2C = map digit_of [0..<16]" by code_simp
  then show "unat i < 16 \<Longrightarrow> digit_byte i = ret (digit_of (unat i))" by (simp add: digit_byte_def aV2C_def)
qed

lemma store_digits_simps:
  "store_digits b v g =
     (if g = 0 then fail Division_by_zero
      else bind (digit_byte (v div g)) (\<lambda>c. bind (StoreChar c) (\<lambda>_. refused (ret ())
             (if b = 0 then fail Division_by_zero
              else if g div b = 0 then ret () else store_digits b (v - v div g * g) (g div b)))))"
  by (rule ext, subst store_digits.simps, auto simp: refused_def intro!: arg_cong2 [where f = bind] fun_cong [where x = d for d])

lemma store_digits_eq:
  assumes b: "2 \<le> unat b" "unat b \<le> 16"
  shows "unat g = unat b ^ k \<Longrightarrow> unat v < unat b ^ Suc k \<Longrightarrow>
    store_digits b v g = store_all (map digit_of (places (unat b) (Suc k) (unat v)))"
proof (induction k arbitrary: g v)
  case 0
  then have "g = 1" "unat v < 16" "1 div b = 0" "b \<noteq> 0"
    using b by (auto simp: word_unat_eq_iff unat_div)
  then show ?case
    by (simp add: store_digits_simps [of b v 1] store_all_def digit_byte_eq run_simps)
next
  case (Suc k)
  have nz: "g \<noteq> 0" "b \<noteq> 0" using Suc.prems(1) b by (auto simp: word_unat_eq_iff)
  have d: "unat (v div g) = unat v div unat b ^ Suc k" "unat (v div g) < 16"
    using Suc.prems b by (simp_all add: unat_div div_less_iff_less_mult order.strict_trans2 [of _ "unat b"])
  have m: "v - v div g * g = v mod g" by (metis minus_div_mult_eq_mod)
  have q: "unat (g div b) = unat b ^ k" using Suc.prems(1) b by (simp add: unat_div)
  then have "g div b \<noteq> 0" using b by (auto simp: word_unat_eq_iff)
  moreover have "unat (v mod g) = unat v mod unat b ^ Suc k" using Suc.prems(1) by (simp add: unat_mod)
  moreover have "store_digits b (v mod g) (g div b) =
      store_all (map digit_of (places (unat b) (Suc k) (unat (v mod g))))"
    using Suc.IH [OF q] Suc.prems(1) b by (simp add: unat_mod)
  ultimately show ?case
    using nz d by (simp add: store_digits_simps [of b v g] m store_all_def digit_byte_eq run_simps)
qed


text \<open>The text of a number: its digits, as the kernel's formatter writes them, behind zeros up to the precision.\<close>

definition number_text :: "u32 \<Rightarrow> u32 \<Rightarrow> u32 \<Rightarrow> string" where
  "number_text v Base NumDigits =
     (let ds = rev (ntoa_digits FLAGS_UPPERCASE v Base [])
      in replicate (unat NumDigits - length ds) (CHR ''0'') @ ds)"

definition fits_precision :: "u32 \<Rightarrow> u32 \<Rightarrow> bool" where
  "fits_precision Base NumDigits \<longleftrightarrow> unat Base ^ (unat NumDigits - 1) < 2 ^ 32"

lemma number_text_places:
  fixes v n :: u32
  assumes b: "2 \<le> unat b" "unat b \<le> 16"
  defines "k \<equiv> max (length (number_digits (unat b) (unat v))) (unat n) - 1"
  shows "map char_byte (number_text v b n) = map digit_of (places (unat b) (Suc k) (unat v))"
    and "length (number_text v b n) = Suc k"
    and "unat v < unat b ^ Suc k"
proof -
  let ?ds = "number_digits (unat b) (unat v)"
  have k: "Suc k = max (length ?ds) (unat n)" using number_digits_ne [of "unat b" "unat v"] unfolding k_def
    by (cases ?ds) auto
  then have "length ?ds \<le> Suc k" by simp
  then show v: "unat v < unat b ^ Suc k" using number_digits_length [OF b(1)] by blast
  have nt: "ntoa_digits FLAGS_UPPERCASE v b [] = rev (map (digit_char FLAGS_UPPERCASE) ?ds)"
    using ntoa_digits_eq [OF b(1), of "[]" v FLAGS_UPPERCASE] number_digits_word [OF b(1), of v] by simp
  show "length (number_text v b n) = Suc k" by (simp add: number_text_def Let_def nt k)
  have "digit_of 0 = char_byte (CHR ''0'')" by code_simp
  moreover have "Suc k - length ?ds = unat n - length ?ds" using k by simp
  ultimately show "map char_byte (number_text v b n) = map digit_of (places (unat b) (Suc k) (unat v))"
    using places_eq [OF b(1) v] by (simp add: number_text_def Let_def nt digit_of_def)
qed

lemma highest_digit_places:
  fixes v :: u32
  assumes b: "2 \<le> unat b" and f: "fits_precision b n"
  defines "k \<equiv> max (length (number_digits (unat b) (unat v))) (unat n) - 1"
  shows "highest_digit v b n 1 = ret (b ^ k)" "unat (b ^ k) = unat b ^ k"
proof -
  let ?ds = "number_digits (unat b) (unat v)"
  have len: "unat b ^ (length ?ds - 1) \<le> unat v \<or> length ?ds - 1 = 0"
  proof (cases "length ?ds - 1")
    case (Suc m)
    then have "length ?ds = Suc (Suc m)" by simp
    then show ?thesis using number_digits_length [OF b, of "unat v" m] by (simp add: not_less)
  qed simp
  have k: "k = length ?ds - 1 \<or> k = unat n - 1" "unat n - 1 \<le> k" unfolding k_def by auto
  have vlt: "unat v < 2 ^ 32" using unsigned_less [of v] by simp
  have lt: "unat b ^ k < 2 ^ 32"
    using k(1) len f vlt by (auto simp: fits_precision_def)
  then show "unat (b ^ k) = unat b ^ k" by (rule unat_power)
  have "unat v < unat b ^ Suc k"
    using number_digits_length [OF b, of "unat v" k] number_digits_ne [of "unat b" "unat v"] unfolding k_def
    by (cases ?ds) auto
  moreover have "k = unat n - 1 \<or> unat b ^ k \<le> unat v" using len k by auto
  moreover have "unat (b ^ (unat n - 1)) = unat b ^ (unat n - 1)" using f unat_power by (simp add: fits_precision_def)
  ultimately have final: "highest_digit v b m (b ^ (unat n - 1)) = ret (b ^ k)" if "\<not> 1 < m" for m
    using highest_digit_eq [OF b that _ k(2) lt] by blast
  show "highest_digit v b n 1 = ret (b ^ k)"
  proof (cases "n = 0")
    case True
    then show ?thesis using final [of 0] by simp
  next
    case False
    then have "0 < n" by (simp add: word_neq_0_conv)
    show ?thesis unfolding highest_digit_precision [OF \<open>0 < n\<close>, of v b 1] mult_1 by (rule final) simp
  qed
qed


lemma width_eq:
  fixes v n :: u32
  assumes b: "2 \<le> unat b" "unat b \<le> 16"
  defines "w \<equiv> of_nat (length (number_digits (unat b) (unat v)))"
  shows "unat (if w < n then n else w) = length (number_text v b n)"
proof -
  have "unat w = length (number_digits (unat b) (unat v))"
    using number_digits_word [OF b(1), of v] unfolding w_def by (simp add: unat_of_nat take_bit_nat_eq_self)
  then show ?thesis
    using number_digits_ne [of "unat b" "unat v"]
    by (cases "number_digits (unat b) (unat v)") (auto simp: number_text_places(2) [OF b] word_less_nat_alt max_def)
qed

lemma number_stored:
  fixes v n :: u32
  assumes b: "2 \<le> unat b" "unat b \<le> 16" and f: "fits_precision b n"
  shows "bind (highest_digit v b n 1) (\<lambda>g. bind (store_digits b v g) (\<lambda>_. m)) =
    bind (store_all (map char_byte (number_text v b n))) (\<lambda>_. m)"
proof -
  define k where "k = max (length (number_digits (unat b) (unat v))) (unat n) - 1"
  note h = highest_digit_places [OF b(1) f, of v, folded k_def] number_text_places [OF b, of v n, folded k_def]
  show ?thesis unfolding h(1,3) bind_ret store_digits_eq [OF b h(2,5)] ..
qed

lemma number_stored_last:
  fixes v n :: u32
  assumes b: "2 \<le> unat b" "unat b \<le> 16" and f: "fits_precision b n"
  shows "bind (highest_digit v b n 1) (store_digits b v) = store_all (map char_byte (number_text v b n))"
  using number_stored [OF assms, of v "ret ()"] by (simp add: bind_ret_right)

lemma PrintUnsigned_eq:
  fixes v n fw :: u32
  assumes b: "2 \<le> unat b" "unat b \<le> 16" and f: "fits_precision b n"
  defines "field \<equiv> replicate (unat fw - length (number_text v b n))"
  shows "refused (ret ()) (PrintUnsigned v b n fw fl) = refused (ret ())
    (if justify_left fl
     then bind (store_all (map char_byte (number_text v b n))) (\<lambda>_. store_all (field (char_byte (CHR '' ''))))
     else store_all (field (char_byte (if pad_zero fl \<and> n = 0 then CHR ''0'' else CHR '' '')) @
            map char_byte (number_text v b n)))"
proof -
  let ?l = "of_nat (length (number_digits (unat b) (unat v))) :: u32"
  define w where "w = (if ?l < n then n else ?l)"
  have w: "unat w = length (number_text v b n)" using width_eq [OF b] by (simp add: w_def)
  have "digit_count b v 1 = (ret ?l :: (SEGGER_RTT_PRINTF_DESC, u32) comp)"
    using digit_count_eq [OF b(1), of v 1] by simp
  then have start: "PrintUnsigned v b n fw fl =
      bind (if \<not> justify_left fl then fill_field (char_byte (if pad_zero fl \<and> n = 0 then CHR ''0'' else CHR '' '')) w fw
            else ret fw) (\<lambda>fw. refused (ret ())
        (bind (highest_digit v b n 1) (\<lambda>g. bind (store_digits b v g) (\<lambda>_.
           guarded (justify_left fl) (ignore (fill_field (char_byte (CHR '' '')) w fw))))))"
    by (simp add: PrintUnsigned_def bind_ret Let_def w_def if_distrib)
  show ?thesis
  proof (cases "justify_left fl")
    case True
    then show ?thesis
      by (simp add: start run_simps number_stored [OF b f] guarded_def fill_field_last field_def w)
  next
    case False
    then show ?thesis
      by (simp add: start run_simps number_stored_last [OF b f] guarded_def fill_field_then store_then_all field_def w
          word_less_nat_alt)
  qed
qed


lemma int_digit_count_simps:
  "int_digit_count b n w =
     (if b \<le>s n then if b = 0 then fail Division_by_zero
      else int_digit_count b (word_of_int (sint n sdiv sint b)) (w + 1) else ret w)"
  by (rule ext, subst int_digit_count.simps, simp)

text \<open>For numbers that are not negative the two ways to count agree.\<close>

lemma sint_nonneg: "0 \<le>s (n :: u32) \<Longrightarrow> sint n = uint n"
proof -
  assume "0 \<le>s n"
  then have "0 \<le> sint n" by (simp add: word_sle_eq)
  moreover have "sint n < 2 ^ 32" using sint_lt [of n] by simp
  ultimately show ?thesis using uint_sint [of n] by (simp add: take_bit_int_eq_self)
qed

lemma int_digit_count_eq:
  assumes b: "0 <s b" "2 \<le> unat b"
  shows "0 \<le>s n \<Longrightarrow> (int_digit_count b n w :: ('s, u32) comp) = digit_count b n w"
proof (induction "unat n" arbitrary: n w rule: less_induct)
  case less
  have s: "sint n = uint n" "sint b = uint b"
    using less.prems b by (simp_all add: sint_nonneg word_sless_alt word_sle_eq)
  have nz: "b \<noteq> 0" "0 < uint b" using b by (auto simp: word_sless_alt s)
  show ?case
  proof (cases "b \<le>s n")
    case True
    then have le: "b \<le> n" "0 < uint n" using nz by (simp_all add: word_sle_eq s word_le_def)
    have q: "word_of_int (sint n sdiv sint b) = n div b"
      using nz(2) le(2) by (simp add: s signed_divide_int_def sgn_if word_div_def)
    have u: "uint (n div b) = uint n div uint b" by (simp add: uint_div)
    then have le': "uint (n div b) \<le> uint n" using nz(2) by (simp add: zdiv_mono2 [of _ 1, simplified])
    also have "uint n < 2 ^ 31" using sint_lt [of n] s by simp
    finally have "sint (n div b) = uint (n div b)"
      by (simp add: sint_uint) (rule signed_take_bit_int_eq_self, simp_all add: order.trans [of _ 0])
    then have "0 \<le>s n div b" by (simp add: word_sle_eq)
    moreover have "unat (n div b) < unat n" using b(2) le by (simp add: unat_div word_le_nat_alt)
    ultimately show ?thesis using less.hyps [of "n div b" "w + 1"] True le nz q
      by (simp add: int_digit_count_simps [of b n] digit_count_simps [of b n])
  next
    case False
    then show ?thesis
      by (simp add: int_digit_count_simps [of b n] digit_count_simps [of b n] word_sle_eq s word_le_def)
  qed
qed


definition sign_text :: "u32 \<Rightarrow> u32 \<Rightarrow> string" where
  "sign_text v FormatFlags = (if v <s 0 then ''-'' else if print_sign FormatFlags then ''+'' else [])"

lemma sint_negative: "v <s 0 \<Longrightarrow> v \<noteq> 0x80000000 \<Longrightarrow> 0 \<le>s - (v :: u32)"
proof -
  assume v: "v <s 0" "v \<noteq> 0x80000000"
  have "sint v \<noteq> sint (0x80000000 :: u32)" using v(2) by (metis signed_word_eqI)
  then have "- (2 ^ 31) < sint v" using sint_ge [of v] by simp
  then have "sint (- v) = - sint v" using v(1) sint_lt [of v]
    by (simp add: word_sless_alt sint_word_ariths signed_take_bit_int_eq_self)
  then show ?thesis using v(1) by (simp add: word_sle_eq word_sless_alt)
qed

lemma PrintUnsigned_full:
  fixes v n f :: u32
  assumes b: "2 \<le> unat b" "unat b \<le> 16" and p: "fits_precision b n"
    and f: "unat f \<le> length (number_text v b n)"
  shows "refused (ret ()) (PrintUnsigned v b n f fl) = refused (ret ()) (store_all (map char_byte (number_text v b n)))"
  using f by (simp add: PrintUnsigned_eq [OF b p] store_all_def bind_ret_right)

lemma PrintInt_eq:
  fixes v n fw fl :: u32
  assumes b: "2 \<le> unat b" "unat b \<le> 16" and p: "fits_precision b n" and v: "v \<noteq> 0x80000000"
  defines "digits \<equiv> map char_byte (number_text (if v <s 0 then - v else v) b n)"
    and "sign \<equiv> map char_byte (sign_text v fl)"
  defines "gap \<equiv> replicate (unat fw - (length sign + length digits))"
  shows "refused (ret ()) (PrintInt v b n fw fl) = refused (ret ())
    (if justify_left fl
     then store_then sign (bind (store_all digits) (\<lambda>_. store_all (gap (char_byte (CHR '' '')))))
     else store_all (if pad_zero fl \<and> n = 0 then sign @ gap (char_byte (CHR ''0'')) @ digits
                     else gap (char_byte (CHR '' '')) @ sign @ digits))"
proof -
  define m where "m = (if v <s 0 then - v else v)"
  let ?l = "of_nat (length (number_digits (unat b) (unat m))) :: u32"
  define w where "w = (if ?l < n then n else ?l)"
  define f where "f = (if 0 < fw \<and> (v <s 0 \<or> print_sign fl) then fw - 1 else fw)"
  have w2: "unat w = length (number_text m b n)" unfolding w_def by (rule width_eq [OF b])
  then have w: "unat w = length digits" "unat w = length (number_text m b n)"
    by (simp_all add: digits_def m_def)
  have f: "unat f = unat fw - length sign"
    by (auto simp: f_def sign_def sign_text_def unat_minus_one word_gt_0)
  have gap: "gap = replicate (unat f - unat w)" by (simp add: gap_def f w)
  have m: "0 \<le>s m" using sint_negative v by (auto simp: m_def word_sle_eq word_sless_alt)
  have "2 \<le> int (unat b)" "int (unat b) \<le> 16" using b by linarith+
  then have ub: "2 \<le> uint b" "uint b \<le> 16" by simp_all
  then have "sint b = uint b" unfolding sint_uint by (intro signed_take_bit_int_eq_self) simp_all
  then have "0 <s b" using ub(1) by (simp add: word_sless_alt)
  then have c: "int_digit_count b m 1 = (ret ?l :: (SEGGER_RTT_PRINTF_DESC, u32) comp)"
    by (simp add: digit_count_eq [OF b(1)] int_digit_count_eq [OF _ b(1) m])
  have sgn: "bind (if v <s 0 then StoreChar (char_byte (CHR ''-''))
      else if print_sign fl then StoreChar (char_byte (CHR ''+'')) else ret ()) (\<lambda>_. refused (ret ()) r) =
      store_then sign (refused (ret ()) r)" for r
    by (simp add: sign_def sign_text_def bind_ret refused_idem)
  have start: "PrintInt v b n fw fl =
      bind (if (\<not> pad_zero fl \<or> n \<noteq> 0) \<and> \<not> justify_left fl
               then fill_field (char_byte (CHR '' '')) w f else ret f) (\<lambda>f.
         refused (ret ())
           (store_then sign (refused (ret ())
              (bind (if pad_zero fl \<and> \<not> justify_left fl \<and> n = 0
                     then fill_field (char_byte (CHR ''0'')) w f else ret f) (\<lambda>f.
               refused (ret ()) (PrintUnsigned m b n f fl))))))"
    unfolding PrintInt_def Let_def m_def [symmetric] c bind_ret w_def [symmetric] f_def [symmetric] sgn by (rule refl)
  note full = PrintUnsigned_full [OF b p]
  show ?thesis
  proof (cases "justify_left fl")
    case True
    have "refused (ret ()) (PrintUnsigned m b n f fl) =
        refused (ret ()) (bind (store_all digits) (\<lambda>_. store_all (gap (char_byte (CHR '' '')))))"
      using True by (simp add: PrintUnsigned_eq [OF b p] gap w(2) [symmetric] digits_def m_def [symmetric])
    with True show ?thesis
      using store_then_cong [of "refused (ret ()) (PrintUnsigned m b n f fl)"
          "bind (store_all digits) (\<lambda>_. store_all (gap (char_byte (CHR '' ''))))" sign]
      by (simp add: start run_simps)
  next
    case False
    have cs: "refused (ret ()) (PrintUnsigned m b n g fl) = refused (ret ()) (store_all digits)"
      if "unat g \<le> unat w" for g
      using full [of g m fl] that by (simp add: w(2) digits_def m_def)
    have put: "refused (ret ()) (store_then sign (refused (ret ()) r)) = refused (ret ()) (store_all (sign @ cs))"
      if "refused (ret ()) r = refused (ret ()) (store_all cs)" for r cs
      using store_then_cong [of "refused (ret ()) r" "store_all cs" sign] that by (simp add: refused_idem store_then_all)
    show ?thesis
    proof (cases "pad_zero fl \<and> n = 0")
      case True
      have "refused (ret ()) (bind (fill_field (char_byte (CHR ''0'')) w f) (\<lambda>f. refused (ret ()) (PrintUnsigned m b n f fl))) =
          refused (ret ()) (store_all (gap (char_byte (CHR ''0'')) @ digits))"
        unfolding gap by (rule fill_then_store) (rule cs)
      from put [OF this] True False show ?thesis unfolding start by (simp add: bind_ret refused_idem)
    next
      case pad: False
      have "refused (ret ()) (bind (fill_field (char_byte (CHR '' '')) w f)
            (\<lambda>f. refused (ret ()) (store_then sign (refused (ret ()) (PrintUnsigned m b n f fl))))) =
          refused (ret ()) (store_all (gap (char_byte (CHR '' '')) @ sign @ digits))"
        unfolding gap by (rule fill_then_store) (rule put [OF cs])
      then show ?thesis using False pad by (auto simp: start bind_ret refused_idem)
    qed
  qed
qed


text \<open>
  C40: the numbers of the legacy formatter.  As long as the precision fits, \<open>_PrintUnsigned\<close> stores the digits
  that \<open>_ntoa_long\<close> of the other formatter computes, behind zeros up to the precision and in a field
  filled on the side the flags name, with spaces or zeros; \<open>_PrintInt\<close> puts the sign where it belongs, in
  front of the zeros and behind the spaces, for every number but the smallest.  Both stop where the channel
  refuses the buffer.
\<close>

theorem legacy_numbers:
  assumes b: "2 \<le> unat b" "unat b \<le> 16" and p: "fits_precision b n" and d: "0 \<le>s d_ReturnValue d"
  shows "PrintUnsigned v b n fw fl d =
      (let digits = map char_byte (number_text v b n);
           gap = replicate (unat fw - length digits)
       in if justify_left fl then bind (store_all digits) (\<lambda>_. store_all (gap (char_byte (CHR '' ''))))
          else store_all (gap (char_byte (if pad_zero fl \<and> n = 0 then CHR ''0'' else CHR '' '')) @ digits)) d \<and>
    (v \<noteq> 0x80000000 \<longrightarrow> PrintInt v b n fw fl d =
      (let digits = map char_byte (number_text (if v <s 0 then - v else v) b n);
           sign = map char_byte (sign_text v fl);
           gap = replicate (unat fw - (length sign + length digits))
       in if justify_left fl
          then store_then sign (bind (store_all digits) (\<lambda>_. store_all (gap (char_byte (CHR '' '')))))
          else if pad_zero fl \<and> n = 0 then store_all (sign @ gap (char_byte (CHR ''0'')) @ digits)
          else store_all (gap (char_byte (CHR '' '')) @ sign @ digits)) d)"
proof -
  show ?thesis
    using not_refused [OF PrintUnsigned_eq [OF b p, of v fw fl] d] not_refused [OF PrintInt_eq [OF b p, of v fw fl] d]
    by (simp add: Let_def)
qed

theorem legacy_numbers_witness:
  "PrintInt (- 42) 10 0 6 0 (fresh_desc 0 (replicate 64 0) (example_rtt 0 [1])) =
     store_all (map char_byte ''   -42'') (fresh_desc 0 (replicate 64 0) (example_rtt 0 [1]))"
proof -
  have "char_of (52 :: nat) = CHR ''4''" "char_of (50 :: nat) = CHR ''2''" by code_simp+
  then have "number_text 42 10 0 = ''42''"
    by (simp add: number_text_def ntoa_digits.simps digit_char_def char_code_def)
  moreover have "(- 42 :: u32) <s 0" "\<not> justify_left 0" "\<not> pad_zero 0" by code_simp+
  moreover have "0 \<le>s d_ReturnValue (fresh_desc 0 (replicate 64 0) (example_rtt 0 [1]))" by (simp add: fresh_desc_def)
  moreover have "replicate 3 x = [x, x, x]" for x :: u8 by (simp add: numeral_3_eq_3)
  ultimately show ?thesis
    using legacy_numbers [of 10 0 "fresh_desc 0 (replicate 64 0) (example_rtt 0 [1])" "- 42" 6 0]
    by (simp add: fits_precision_def sign_text_def)
qed

section \<open>Precisions that do not fit\<close>

lemma highest_digit_lost:
  assumes "(b :: u32) ^ k = 0" and "k < unat n" and "0 < n"
  shows "highest_digit v b n 1 = fail Division_by_zero"
proof -
  have "b ^ (unat n - 1) = b ^ k * b ^ (unat n - 1 - k)" using assms(2) by (simp add: power_add [symmetric])
  then have z: "b ^ (unat n - 1) = 0" using assms(1) by simp
  show ?thesis unfolding highest_digit_precision [OF assms(3), of v b 1] mult_1 z by (subst highest_digit_simps) simp
qed

text \<open>
  The precision multiplies before the number is looked at, in 32 bits: nine hexadecimal or 33 decimal digits
  leave nothing of the divisor, and the formatter divides by zero, whatever the number.
\<close>

lemma legacy_precision_divides_by_zero:
  assumes "b = 16 \<and> 9 \<le> n \<or> b = 10 \<and> 33 \<le> n" and d: "0 \<le>s d_ReturnValue d"
  shows "PrintUnsigned v b n 0 fl d = Some (Inl Division_by_zero)"
proof -
  have b: "2 \<le> unat b" using assms(1) by auto
  have "b ^ 8 = 0 \<and> 8 < unat n \<and> 0 < n \<or> b ^ 32 = 0 \<and> 32 < unat n \<and> 0 < n"
    using assms(1) by (auto simp: word_le_nat_alt word_less_nat_alt)
  then have "(highest_digit v b n 1 :: (SEGGER_RTT_PRINTF_DESC, u32) comp) = fail Division_by_zero"
    using highest_digit_lost by metis
  then show ?thesis
    using d by (simp add: PrintUnsigned_def digit_count_eq [OF b] bind_ret Let_def fill_field.simps exec refused_def
        signed.not_less [symmetric])
qed

lemma legacy_precision_divides_by_zero_example:
  "PrintUnsigned 1 16 9 0 0 (fresh_desc 0 (replicate 64 0) s) = Some (Inl Division_by_zero)"
  by (rule legacy_precision_divides_by_zero) (simp_all add: fresh_desc_def)

text \<open>In between the divisor is not a power of the base: digits are wrong, or are no digits at all.\<close>

lemma without_field:
  assumes b: "2 \<le> unat b" and d: "0 \<le>s d_ReturnValue d" and g: "(highest_digit v b n 1 :: (SEGGER_RTT_PRINTF_DESC, u32) comp) = ret g"
  shows "PrintUnsigned v b n 0 0 d = store_digits b v g d"
  using d g by (simp add: PrintUnsigned_def digit_count_eq [OF b] bind_ret Let_def fill_field.simps refused_def guarded_def
      bind_ret_right justify_left_def signed.not_less [symmetric])

lemma legacy_precision_digits:
  "0 \<le>s d_ReturnValue d \<Longrightarrow> PrintUnsigned 0xFFFFFFFF 10 11 0 0 d = store_all (map char_byte ''3045934808'') d"
proof -
  assume d: "0 \<le>s d_ReturnValue d"
  have g: "(10 :: u32) ^ (unat (11 :: u32) - 1) = 1410065408" by simp
  have "(0 :: u32) < 11" by simp
  then have "(highest_digit 0xFFFFFFFF 10 11 1 :: (SEGGER_RTT_PRINTF_DESC, u32) comp) = ret 1410065408"
    by (simp only: highest_digit_precision [of 11] mult_1 g) (subst highest_digit_simps, simp)
  then show ?thesis
    by (simp add: without_field [OF _ d] store_digits_simps digit_byte_def aV2C_def store_all_def bind_ret)
qed

lemma replicate_9: "replicate 9 x = [x, x, x, x, x, x, x, x, x]"
  by (simp add: numeral_eq_Suc)

lemma legacy_precision_out_of_bounds:
  "0 \<le>s d_ReturnValue d \<Longrightarrow>
     PrintUnsigned 16 10 17 0 0 d = store_then (replicate 9 (char_byte (CHR ''0''))) (fail Out_of_bounds) d"
proof -
  assume d: "0 \<le>s d_ReturnValue d"
  have g: "(10 :: u32) ^ (unat (17 :: u32) - 1) = 1874919424" by simp
  have "(0 :: u32) < 17" by simp
  then have "(highest_digit 16 10 17 1 :: (SEGGER_RTT_PRINTF_DESC, u32) comp) = ret 1874919424"
    by (simp only: highest_digit_precision [of 17] mult_1 g) (subst highest_digit_simps, simp)
  moreover have "bind (fail Out_of_bounds) f = fail Out_of_bounds" for f :: "u8 \<Rightarrow> (SEGGER_RTT_PRINTF_DESC, unit) comp"
    by (rule ext) (simp add: exec)
  ultimately show ?thesis
    using replicate_9 [of "char_byte (CHR ''0'')"]
    by (simp add: without_field [OF _ d] store_digits_simps digit_byte_def aV2C_def bind_ret)
qed

text \<open>The smallest number is negative even when it is negated, and its field is too wide.\<close>

lemma legacy_smallest_number:
  "0 \<le>s d_ReturnValue d \<Longrightarrow>
     PrintInt 0x80000000 10 0 12 0 d = store_all (map char_byte ''          -2147483648'') d"
proof -
  assume d: "0 \<le>s d_ReturnValue d"
  let ?s = "char_byte (CHR '' '')" and ?m = "char_byte (CHR ''-'')"
  have t: "number_text 0x80000000 10 0 = ''2147483648''" by code_simp
  have flags: "\<not> justify_left 0" "\<not> pad_zero 0" by code_simp+
  have s: "(0x80000000 :: u32) <s 0" "\<not> 10 \<le>s (0x80000000 :: u32)" by code_simp+
  have n: "- (0x80000000 :: u32) = 0x80000000" by simp
  have c: "int_digit_count 10 0x80000000 1 = (ret 1 :: (SEGGER_RTT_PRINTF_DESC, u32) comp)"
    using s(2) by (subst int_digit_count_simps) simp
  have start: "PrintInt 0x80000000 10 0 12 0 = bind (fill_field ?s 1 11) (\<lambda>f. refused (ret ())
      (store_then [?m] (PrintUnsigned 0x80000000 10 0 f 0)))"
    using s(1) flags by (simp add: PrintInt_def Let_def n c bind_ret refused_idem)
  have full: "refused (ret ()) (PrintUnsigned 0x80000000 10 0 f 0) = refused (ret ()) (store_all (map char_byte ''2147483648''))"
    if "unat f \<le> unat (1 :: u32)" for f
    using PrintUnsigned_full [where b = 10 and n = 0 and f = f and v = "0x80000000" and fl = 0] that by (simp add: t fits_precision_def)
  have "refused (ret ()) (PrintInt 0x80000000 10 0 12 0) =
      refused (ret ()) (store_all (replicate (unat (11 :: u32) - unat (1 :: u32)) ?s @ map char_byte ''-2147483648''))"
    unfolding start
  proof (rule fill_then_store)
    fix f :: u32
    assume "unat f \<le> unat (1 :: u32)"
    from store_then_cong [OF full [OF this], where xs = "[?m]"]
    show "refused (ret ()) (store_then [?m] (PrintUnsigned 0x80000000 10 0 f 0)) =
        refused (ret ()) (store_all (map char_byte ''-2147483648''))" by (simp add: store_all_def)
  qed
  note not_refused [OF this d]
  moreover have "unat (11 :: u32) - unat (1 :: u32) = Suc 9" by simp
  ultimately show ?thesis by (simp only: replicate_Suc replicate_9) simp
qed

section \<open>The parser\<close>

text \<open>Numbers are read as the other formatter reads them.\<close>

lemma format_number_eq: "format_number i sFormat = atoi i sFormat"
  by (induction sFormat arbitrary: i) (auto simp: is_digit_def not_less not_le)

lemma legacy_loop_simps:
  "legacy_loop [] va = ret ()"
  "legacy_loop (c # sFormat) va =
     (if c = NUL then ret ()
      else if c = CHR ''%'' then bind (legacy_directive sFormat va) (\<lambda>r. refused (ret ()) (legacy_loop (fst r) (snd r)))
      else bind (StoreChar (char_byte c)) (\<lambda>_. refused (ret ()) (legacy_loop sFormat va)))"
  by (rule ext, subst legacy_loop.simps, simp add: bind_assoc bind_ret)+

lemma legacy_loop_plain:
  "plain cs \<Longrightarrow> refused (ret ()) (legacy_loop (cs @ sFormat) va) =
     refused (ret ()) (store_then (map char_byte cs) (legacy_loop sFormat va))"
  by (induction cs) (simp_all add: plain_def legacy_loop_simps)

text \<open>A format that ends in a directive without a specifier is read beyond its end.\<close>

lemma legacy_loop_unfinished: "legacy_loop ''%5.3l'' va d = Some (Inl Bad_read)"
  by (simp add: legacy_loop_simps legacy_directive_def legacy_specifier_def format_precision_def format_number_eq
      is_digit_def char_code_def Let_def exec)

end

