(* ===== verification/Faults.thy ===== *)
theory Faults
  imports SchedulerSpec
begin

unbundle bit_operations_syntax

text \<open>
  Failures of the system: the hooks of a failed assertion (\<open>src/src/hooks.c\<close>) and the hard fault
  handler, from the vector (\<open>src/src/arch/m4.s\<close>) to the report (\<open>src/src/os.c\<close>, \<open>src/src/faults.h\<close>).
\<close>

section \<open>Assertions\<close>

text \<open>
  \<open>osi_assert\<close>, which \<open>OS_ASSERT\<close> calls on the devices when its expression is false.  It does not
  return there, which is why a failed assertion is a fault of the model.
\<close>

definition osi_assert :: "string \<Rightarrow> string \<Rightarrow> u32 \<Rightarrow> unit os" where
  "osi_assert assertion file line =
     block [emit (Assertion_printed assertion file line), osi_panic OS_PANIC_ASSERTION]"

definition osi_debug_dump :: "os_panic_kind_t \<Rightarrow> unit os" where
  "osi_debug_dump code = ret ()"

lemma panic_list_eq:
  "chain (nrp_of s) p xs \<Longrightarrow> panic_list ev p s = Some (Inr ((), s\<lparr>trace := trace s @ map ev xs\<rparr>))"
proof (induction xs arbitrary: p s)
  case Nil
  then show ?case by (subst panic_list.simps) (simp add: exec)
next
  case (Cons x xs)
  let ?s = "s\<lparr>trace := trace s @ [ev x]\<rparr>"
  from Cons.prems have p: "p = Some x" and c: "chain (nrp_of ?s) (nrp_of s x) xs" by simp_all
  show ?case
    using Cons.IH [OF c] by (subst panic_list.simps) (simp add: p exec)
qed

text \<open>A panic lists the two queues, and ends in a reset on the devices.\<close>

lemma panic_resets:
  assumes q: "queues_ok s rs ws" and "is_device (target s)"
  shows "osi_panic code s = Some (Inl System_reset)"
proof -
  let ?s1 = "s\<lparr>trace := trace s @ [Panic_kind code]\<rparr>"
  let ?s2 = "?s1\<lparr>trace := trace ?s1 @ map Panic_running rs\<rparr>"
  have "panic_list Panic_running (runqueue s) ?s1 = Some (Inr ((), ?s2))"
    by (rule panic_list_eq) (use queues_okD(2) [OF q] in \<open>simp add: is_list_def\<close>)
  moreover have "panic_list Panic_waiting (waitqueue s) ?s2 =
      Some (Inr ((), ?s2\<lparr>trace := trace ?s2 @ map Panic_waiting ws\<rparr>))"
    by (rule panic_list_eq) (use queues_okD(3) [OF q] in \<open>simp add: is_list_def\<close>)
  ultimately show ?thesis using assms(2) by (simp add: osi_panic_def exec)
qed

lemma assertion_resets:
  assumes q: "queues_ok s rs ws" and d: "is_device (target s)"
  shows "osi_assert assertion file line s = Some (Inl System_reset)"
proof -
  let ?s = "s\<lparr>trace := trace s @ [Assertion_printed assertion file line]\<rparr>"
  have "queues_ok ?s rs ws = queues_ok s rs ws" by (rule queues_ok_cong) simp_all
  then have "queues_ok ?s rs ws" using q by simp
  from panic_resets [OF this] d show ?thesis by (simp add: osi_assert_def exec)
qed

section \<open>The fault registers\<close>

text \<open>The registers of the system control block, and the two stack pointers.\<close>

record fault_registers =
  SYSHND_CTRL :: u32
  NVIC_MFSR :: u8
  NVIC_BFSR :: u8
  NVIC_UFSR :: u16
  NVIC_HFSR :: u32
  NVIC_DFSR :: u32
  NVIC_BFAR :: u32
  NVIC_AFSR :: u32
  main_sp :: u32
  process_sp :: u32

record hard_fault_frame =
  R0 :: u32
  R1 :: u32
  R2 :: u32
  R3 :: u32
  R12 :: u32
  LR :: u32
  PC :: u32
  psr :: u32

record cortex_hard_fault_t =
  registers :: hard_fault_frame
  syshndctrl :: u32
  mfsr :: u8
  bfsr :: u32
  bfar :: u32
  ufsr :: u16
  hfsr :: u32
  dfsr :: u32
  afsr :: u32

text \<open>
  The unions' bit fields: their names and widths, from bit 0 on, as the compiler for the devices
  lays them out.
\<close>

definition psr_bits :: "(string \<times> nat) list" where
  "psr_bits = [(''IPSR'', 8), (''EPSR'', 19), (''APSR'', 5)]"

definition syshndctrl_bits :: "(string \<times> nat) list" where
  "syshndctrl_bits =
     [(''MEMFAULTACT'', 1), (''BUSFAULTACT'', 1), (''UNUSED1'', 1), (''USGFAULTACT'', 1), (''UNUSED2'', 3),
      (''SVCALLACT'', 1), (''MONITORACT'', 1), (''UNUSED3'', 1), (''PENDSVACT'', 1), (''SYSTICKACT'', 1),
      (''USGFAULTPENDED'', 1), (''MEMFAULTPENDED'', 1), (''BUSFAULTPENDED'', 1), (''SVCALLPENDED'', 1),
      (''MEMFAULTENA'', 1), (''BUSFAULTENA'', 1), (''USGFAULTENA'', 1)]"

definition mfsr_bits :: "(string \<times> nat) list" where
  "mfsr_bits =
     [(''IACCVIOL'', 1), (''DACCVIOL'', 1), (''UNUSED1'', 1), (''MUNSTKERR'', 1), (''MSTKERR'', 1),
      (''UNUSED2'', 2), (''MMARVALID'', 1)]"

definition bfsr_bits :: "(string \<times> nat) list" where
  "bfsr_bits =
     [(''IBUSERR'', 1), (''PRECISERR'', 1), (''IMPREISERR'', 1), (''UNSTKERR'', 1), (''STKERR'', 1),
      (''UNUSED'', 2), (''BFARVALID'', 1)]"

definition ufsr_bits :: "(string \<times> nat) list" where
  "ufsr_bits =
     [(''UNDEFINSTR'', 1), (''INVSTATE'', 1), (''INVPC'', 1), (''NOCP'', 1), (''UNUSED'', 4),
      (''UNALIGNED'', 1), (''DIVBYZERO'', 1)]"

definition hfsr_bits :: "(string \<times> nat) list" where
  "hfsr_bits = [(''UNUSED1'', 1), (''VECTBL'', 1), (''UNUSED2'', 28), (''FORCED'', 1), (''DEBUGEVT'', 1)]"

definition dfsr_bits :: "(string \<times> nat) list" where
  "dfsr_bits = [(''HALTED'', 1), (''BKPT'', 1), (''DWTTRAP'', 1), (''VCATCH'', 1), (''EXTERNAL'', 1)]"

text \<open>The value of the field \<open>name\<close> of a register.\<close>

fun bit_field :: "(string \<times> nat) list \<Rightarrow> string \<Rightarrow> 'a::len word \<Rightarrow> 'a word" where
  "bit_field [] name w = 0"
| "bit_field ((n, k) # fs) name w = (if n = name then take_bit k w else bit_field fs name (drop_bit k w))"

section \<open>The handler\<close>

definition stacked_frame :: "u32 \<Rightarrow> kernel \<Rightarrow> hard_fault_frame" where
  "stacked_frame stack s =
     \<lparr>R0 = mem s stack, R1 = mem s (stack + 4), R2 = mem s (stack + 8), R3 = mem s (stack + 12),
      R12 = mem s (stack + 16), LR = mem s (stack + 20), PC = mem s (stack + 24), psr = mem s (stack + 28)\<rparr>"

definition fault_report :: "fault_registers \<Rightarrow> hard_fault_frame \<Rightarrow> cortex_hard_fault_t" where
  "fault_report regs frame =
     \<lparr>registers = frame, syshndctrl = SYSHND_CTRL regs, mfsr = NVIC_MFSR regs,
      bfsr = ucast (NVIC_BFSR regs), bfar = NVIC_BFAR regs, ufsr = NVIC_UFSR regs,
      hfsr = NVIC_HFSR regs, dfsr = NVIC_DFSR regs, afsr = NVIC_AFSR regs\<rparr>"

text \<open>
  \<open>report\<close> is \<open>osi_hard_fault_report\<close>, a hook the application may replace.  The result is what the
  handler writes to \<open>NVIC_HFSR\<close>, if anything.
\<close>

definition osi_hard_fault_handler ::
  "(u32 \<Rightarrow> u32 \<Rightarrow> cortex_hard_fault_t \<Rightarrow> unit os) \<Rightarrow> fault_registers \<Rightarrow> u32 \<Rightarrow> u32 \<Rightarrow> u32 option os" where
  "osi_hard_fault_handler report regs stack lr =
     (if NVIC_HFSR regs AND 0x80000000 \<noteq> 0
      then seq [modify (\<lambda>s. s\<lparr>mem := (mem s)(stack + 24 := mem s (stack + 24) + 2)\<rparr>)]
             (ret (Some (NVIC_HFSR regs OR 0x80000000)))
      else bind (gets (stacked_frame stack)) (\<lambda>frame.
             seq [report stack lr (fault_report regs frame)] (ret None)))"

definition osi_hard_fault_report :: "u32 \<Rightarrow> u32 \<Rightarrow> cortex_hard_fault_t \<Rightarrow> unit os" where
  "osi_hard_fault_report stack lr hfr s = guarded (is_device (target s)) (fail System_reset) s"

text \<open>The vector: bit 2 of the return code says which stack the registers are on.\<close>

definition HardFault_Handler ::
  "(u32 \<Rightarrow> u32 \<Rightarrow> cortex_hard_fault_t \<Rightarrow> unit os) \<Rightarrow> fault_registers \<Rightarrow> u32 \<Rightarrow> u32 option os" where
  "HardFault_Handler report regs lr =
     osi_hard_fault_handler report regs (if lr AND 4 = 0 then main_sp regs else process_sp regs) lr"

lemma hard_fault_resets:
  assumes "is_device (target s)" and "NVIC_HFSR regs AND 0x80000000 = 0"
  shows "HardFault_Handler osi_hard_fault_report regs lr s = Some (Inl System_reset)"
  using assms by (simp add: HardFault_Handler_def osi_hard_fault_handler_def osi_hard_fault_report_def exec)

text \<open>
  C38: the frame of a new task, read as an exception frame.  \<open>initialize_stack\<close> builds by hand what the
  processor stacks when it takes an exception: the fault handler, which reads such a frame,
  finds in the one of a new task its handler as the program counter, its parameter in \<open>R0\<close>,
  \<open>task_finished\<close> as the return address and the thumb bit alone in the status word; and a fault there is
  reported with these registers and with the stack pointer of the process.
\<close>

theorem new_task_frame:
  assumes "sz mod 4 = 0" "sz \<ge> OS_STACK_MINIMUM_SIZE" and "unat stack + unat sz \<le> 2 ^ 32"
    and regs: "process_sp regs = stack_top stack sz + 32" "NVIC_HFSR regs AND 0x80000000 = 0" "lr AND 4 \<noteq> 0"
  shows "\<exists>s' frame. initialize_stack t stack sz s = Some (Inr (stack_top stack sz, s')) \<and>
    frame = \<lparr>R0 = t_params (task s t), R1 = 0x1001, R2 = 0x1002, R3 = 0x1003, R12 = 0x100C,
      LR = task_finished_addr s, PC = t_handler (task s t) AND NOT 1, psr = 0x01000000\<rparr> \<and>
    bit_field psr_bits ''IPSR'' (psr frame) = 0 \<and>
    HardFault_Handler report regs lr s' =
      seq [report (process_sp regs) lr (fault_report regs frame)] (ret None) s'"
proof -
  let ?stk = "stack_top stack sz"
  let ?s = "s\<lparr>mem := initial_stack s t stack sz\<rparr>"
  have run: "initialize_stack t stack sz s = Some (Inr (?stk, ?s))" by (rule initialize_stack_eq [OF assms(1-3)])
  have m: "mem ?s (word_addr ?stk i) = frame_words (target s) (task s t) (task_finished_addr s) ! i" if "i < 16" for i
    using initial_stack_at [OF that] by simp
  have "stacked_frame (?stk + 32) ?s = \<lparr>R0 = t_params (task s t), R1 = 0x1001, R2 = 0x1002, R3 = 0x1003, R12 = 0x100C,
      LR = task_finished_addr s, PC = t_handler (task s t) AND NOT 1, psr = 0x01000000\<rparr>"
    using m [of 8] m [of 9] m [of 10] m [of 11] m [of 12] m [of 13] m [of 14] m [of 15]
    by (cases "target s") (simp_all add: stacked_frame_def frame_words_def saved_registers_def add.commute [of _ ?stk])
  then show ?thesis
    using run regs by (simp add: HardFault_Handler_def osi_hard_fault_handler_def exec psr_bits_def)
qed

definition example_registers :: fault_registers where
  "example_registers = \<lparr>SYSHND_CTRL = 0, NVIC_MFSR = 0, NVIC_BFSR = 0, NVIC_UFSR = 0, NVIC_HFSR = 0x40000000,
     NVIC_DFSR = 0, NVIC_BFAR = 0, NVIC_AFSR = 0, main_sp = 0, process_sp = stack_top 0x2000 0x100 + 32\<rparr>"

theorem new_task_frame_witness:
  "\<exists>s'. initialize_stack 0 0x2000 0x100 (blank_kernel\<lparr>task := (\<lambda>_. blank_task\<lparr>t_handler := 0x4001\<rparr>)\<rparr>) =
     Some (Inr (stack_top 0x2000 0x100, s')) \<and>
   HardFault_Handler osi_hard_fault_report example_registers 0xFFFFFFFD s' =
     seq [osi_hard_fault_report (process_sp example_registers) 0xFFFFFFFD (fault_report example_registers
       \<lparr>R0 = 0, R1 = 0x1001, R2 = 0x1002, R3 = 0x1003, R12 = 0x100C, LR = 0, PC = 0x4000, psr = 0x01000000\<rparr>)]
       (ret None) s'"
proof -
  let ?s = "blank_kernel\<lparr>task := (\<lambda>_. blank_task\<lparr>t_handler := 0x4001\<rparr>)\<rparr>"
  have "process_sp example_registers = stack_top 0x2000 0x100 + 32"
    "NVIC_HFSR example_registers AND 0x80000000 = 0" "(0xFFFFFFFD :: u32) AND 4 \<noteq> 0"
    by (simp_all add: example_registers_def)
  from new_task_frame [OF _ _ _ this, of 0 ?s osi_hard_fault_report] show ?thesis
    by (auto simp: blank_defs)
qed

section \<open>Free memory\<close>

text \<open>\<open>sbrk(0)\<close>, the end of the heap of the C library, is the parameter \<open>brk\<close>.\<close>

definition os_free_memory :: "u32 \<Rightarrow> u32 \<Rightarrow> kernel \<Rightarrow> u32" where
  "os_free_memory msp brk s = (if is_device (target s) then msp - brk else 0)"

end
