(* ===== verification/ServiceSpec.thy ===== *)
theory ServiceSpec
  imports Service
begin

unbundle bit_operations_syntax

text \<open>
  What a service call is for the task that makes it: the value the kernel's function returned
  when it goes on at once, and otherwise the words of its frame, which is where the kernel
  leaves the result for a task that waits.
\<close>

section \<open>The exception\<close>

definition with_regs :: "u32 \<Rightarrow> u32 \<Rightarrow> u32 \<Rightarrow> u32 \<Rightarrow> kernel \<Rightarrow> kernel" where
  "with_regs a r0 r1 r2 s = with_mem (a + 8) r2 (with_mem (a + 4) r1 (with_mem a r0 s))"

lemma store_regs_eq: "store_regs a r0 r1 r2 s = Some (Inr ((), with_regs a r0 r1 r2 s))"
  by (simp add: store_regs_def with_regs_def with_mem_def exec)

lemma with_mem_fields [simp]:
  "running (with_mem a v s) = running s" "scheduled (with_mem a v s) = scheduled s"
  "task (with_mem a v s) = task s" "target (with_mem a v s) = target s"
  "mem (with_mem a v s) = (mem s)(a := v)" "os_state (with_mem a v s) = os_state s"
  "control (with_mem a v s) = control s" "ipsr (with_mem a v s) = ipsr s"
  "mutex_at (with_mem a v s) = mutex_at s" "rwlock_at (with_mem a v s) = rwlock_at s"
  "queue_at (with_mem a v s) = queue_at s" "semaphore_at (with_mem a v s) = semaphore_at s"
  by (simp_all add: with_mem_def)

lemma switched_with_mem: "switched sp kind r (with_mem a v s) = with_mem a v (switched sp kind r s)"
  by (simp add: switched_def with_mem_def)

lemma settled_with_mem: "settled r L (with_mem a v s) = settled r L s"
proof -
  have k: "kernel_ok (with_mem a v x) t rs ws M = kernel_ok x t rs ws M" for x t rs ws M
    by (rule same_kernel_steady(4) [OF same_kernel_with(1)])
  show ?thesis by (simp add: settled_def switched_with_mem k)
qed

lemma settled_with_regs: "settled r L (with_regs a r0 r1 r2 s) = settled r L s"
  by (simp add: with_regs_def settled_with_mem)

lemma with_regs_fields [simp]:
  "running (with_regs a r0 r1 r2 s) = running s" "scheduled (with_regs a r0 r1 r2 s) = scheduled s"
  "task (with_regs a r0 r1 r2 s) = task s" "target (with_regs a r0 r1 r2 s) = target s"
  "mem (with_regs a r0 r1 r2 s) = (mem s)(a := r0, a + 4 := r1, a + 8 := r2)"
  "mutex_at (with_regs a r0 r1 r2 s) = mutex_at s" "rwlock_at (with_regs a r0 r1 r2 s) = rwlock_at s"
  by (simp_all add: with_regs_def)

text \<open>\<open>SVC_Handler\<close> switches the way \<open>PendSV_Handler\<close> does.\<close>

lemma SVC_Handler_eq:
  assumes f: "f s = Some (Inr ((r0, r1), s1))" and r: "running s1 = Some r"
  shows "SVC_Handler fr f s =
    PendSV_Handler (saved_sp fr) (f_kind fr) (with_regs (f_psp fr) r0 r1 (f_r2 fr) s1)"
  using f r by (simp add: SVC_Handler_def PendSV_Handler_def running_task_def store_regs_eq exec)

text \<open>The frame lies in the stack of \<open>r\<close>, above the word that guards its end.\<close>

definition frame_ok :: "kernel \<Rightarrow> task_ptr \<Rightarrow> svc_frame \<Rightarrow> bool" where
  "frame_ok s r fr \<longleftrightarrow>
     stack_ok s r (saved_sp fr) \<and> t_stack (task s r) \<notin> {f_psp fr, f_psp fr + 4, f_psp fr + 8} \<and>
     (f_kind fr = 0 \<or> f_kind fr = 1)"

lemma saved_sp_frame:
  assumes "target s = SAMD51" and "t_sp (task s r) = saved_sp fr" and "t_stack_kind (task s r) = f_kind fr"
    and "f_kind fr = 0 \<or> f_kind fr = 1"
  shows "osi_task_return_regs r s = f_psp fr"
  using assms by (auto simp: osi_task_return_regs_def saved_sp_def)

text \<open>
  C16: the result of a service call.  When the function it runs leaves the running task in place, the call
  returns the function's two words and the invariant holds as before.  When another task has
  been scheduled, that one runs, with the invariant, and the two words stand in the frame of
  the caller, at the address where the kernel will look for them: whatever is stored there as
  the caller's stacked return value is what the call returns to it in the end.
\<close>

theorem service_call_result:
  assumes f: "f s = Some (Inr ((v0, v1), s1))" and st: "settled r L s1"
    and r: "running s = Some r" "running s1 = Some r"
    and tg: "target s = SAMD51" "target s1 = SAMD51" and fr: "frame_ok s1 r fr"
  shows "(scheduled s1 = None \<longrightarrow>
      (\<exists>s' rs ws. svc_pair fr f s = Some (Inr (Returned (v0, v1), s')) \<and> kernel_ok s' r rs ws L)) \<and>
    (\<forall>t. scheduled s1 = Some t \<longrightarrow>
      (\<exists>s' rs ws w. svc_pair fr f s = Some (Inr (Switched, s')) \<and> running s' = Some t \<and>
        kernel_ok s' t rs ws (leave_rooms w t L) \<and> osi_task_return_regs r s' = f_psp fr \<and>
        osi_task_stacked_return_tuple r s' = \<lparr>tu_status = v0, tu_value = v1\<rparr>))"
proof -
  let ?s2 = "with_regs (f_psp fr) v0 v1 (f_r2 fr) s1"
  note h = SVC_Handler_eq [of f s v0 v1 s1 r fr, OF f r(2)]
  have st2: "settled r L ?s2" using st by (simp add: settled_with_regs)
  have sp: "stack_ok ?s2 r (saved_sp fr)" using fr by (simp add: frame_ok_def stack_ok_def)
  have m: "mem ?s2 (f_psp fr) = v0" "mem ?s2 (f_psp fr + 4) = v1" by simp_all
  show ?thesis
  proof (intro conjI impI allI)
    assume n: "scheduled s1 = None"
    have "PendSV_Handler (saved_sp fr) (f_kind fr) ?s2 = Some (Inr ((), ?s2))"
      using n by (simp add: PendSV_Handler_def exec)
    then have "svc_pair fr f s = Some (Inr (Returned (v0, v1), ?s2))"
      using h r tg m by (simp add: svc_pair_def exec)
    moreover have "\<exists>rs ws. kernel_ok ?s2 r rs ws L" using st2 n by (simp add: settled_def)
    ultimately show "\<exists>s' rs ws. svc_pair fr f s = Some (Inr (Returned (v0, v1), s')) \<and> kernel_ok s' r rs ws L"
      by blast
  next
    fix t assume t: "scheduled s1 = Some t"
    let ?s' = "switched (saved_sp fr) (f_kind fr) r ?s2"
    obtain rs ws w where tr: "t \<noteq> r"
      and p: "PendSV_Handler (saved_sp fr) (f_kind fr) ?s2 = Some (Inr ((), ?s'))"
      and k: "kernel_ok ?s' t rs ws (leave_rooms w t L)"
      by (rule settled_switched [OF st2 _ _ sp, of t "f_kind fr"]) (use t r(2) in simp_all)
    have run: "running ?s' = Some t" using t by simp
    have "svc_pair fr f s = Some (Inr (Switched, ?s'))"
      using h p r tg tr run by (simp add: svc_pair_def exec)
    moreover have reg: "osi_task_return_regs r ?s' = f_psp fr"
      by (rule saved_sp_frame) (use tg fr in \<open>simp_all add: switched_def frame_ok_def\<close>)
    moreover have "osi_task_stacked_return_tuple r ?s' = \<lparr>tu_status = v0, tu_value = v1\<rparr>"
      unfolding osi_task_stacked_return_tuple_def reg by simp
    ultimately show "\<exists>s' rs ws w. svc_pair fr f s = Some (Inr (Switched, s')) \<and> running s' = Some t \<and>
        kernel_ok s' t rs ws (leave_rooms w t L) \<and> osi_task_return_regs r s' = f_psp fr \<and>
        osi_task_stacked_return_tuple r s' = \<lparr>tu_status = v0, tu_value = v1\<rparr>"
      using run k by blast
  qed
qed

theorem service_call_result_witness:
  "\<exists>s' rs ws. svc_pair \<lparr>f_psp = 0x100, f_kind = 0, f_r1 = 0, f_r2 = 0\<rparr>
      (bind (osi_mutex_acquire 0 3) (\<lambda>v. ret (v, 0))) example_base = Some (Inr (Returned (OSS_SUCCESS, 0), s')) \<and>
    kernel_ok s' 1 rs ws (\<lambda>_. [])"
proof -
  let ?fr = "\<lparr>f_psp = 0x100, f_kind = 0, f_r1 = 0, f_r2 = 0\<rparr>" and ?s1 = "with_mutex 0 (Some 1) 1 example_base"
  let ?f = "bind (osi_mutex_acquire 0 3) (\<lambda>v. ret (v, 0))"
  have f: "?f example_base = Some (Inr ((OSS_SUCCESS, 0), ?s1))"
    by (simp add: osi_mutex_acquire_def running_task_def exec with_mutex_def) (simp add: example_base_def blank_defs)
  have k: "kernel_ok ?s1 1 [1, 0] [] (\<lambda>_. [])"
    using example_base_ok same_kernel_steady(4) [OF with_mutex_simps(2)] by blast
  have "frame_ok ?s1 1 ?fr"
    by (simp add: frame_ok_def stack_ok_def saved_sp_def with_mutex_def)
  moreover have "settled 1 (\<lambda>_. []) ?s1" using k by (auto simp: settled_def)
  ultimately show ?thesis
    using service_call_result [of ?f example_base OSS_SUCCESS 0 ?s1 1 "\<lambda>_. []" ?fr] f
    by (simp add: with_mutex_def)
qed

end
