(* ===== verification/TaskLife.thy ===== *)
theory TaskLife
  imports SchedulerSpec Tasks
begin

unbundle bit_operations_syntax

text \<open>
  The life of the system and of its tasks: creating the tasks and starting the system
  establishes what the scheduler needs, and a task that ends gives way to another one.
\<close>

section \<open>Starting the system\<close>

definition fresh_task :: "os_task_options_t \<Rightarrow> kernel \<Rightarrow> os_task_t \<Rightarrow> os_task_t" where
  "fresh_task opts s x =
     x\<lparr>t_sp := stack_top (o_stack opts) (o_stack_size opts), t_stack := o_stack opts,
       t_stack_size := o_stack_size opts, t_stack_kind := 0, t_params := o_params opts, t_handler := o_handler opts,
       t_status := (if o_status opts = OS_TASK_START_RUNNING then OS_TASK_STATUS_IDLE
                    else OS_TASK_STATUS_SUSPENDED),
       t_name := o_name opts, t_delay := 0, t_flags := 0, t_started := uptime s,
       t_runtime := 0, t_scheduled := 0, t_queue := None, t_mutex := None, t_nblocked := None,
       t_semaphore := None, t_rwlock := None, t_c := 0, t_nrp := None, t_np := tasks s,
       t_priority := (if idle s = None then OS_PRIORITY_IDLE else o_priority opts), t_signal := 0\<rparr>"

text \<open>The state before the task goes into the run queue; \<open>m\<close> is the memory with its stack.\<close>

definition created :: "(u32 \<Rightarrow> u32) \<Rightarrow> task_ptr \<Rightarrow> os_task_options_t \<Rightarrow> kernel \<Rightarrow> kernel" where
  "created m t opts s =
     s\<lparr>task := (task s)(t := fresh_task opts s (task s t)), mem := m, tasks := Some t,
       ntasks := ntasks s + 1, idle := (if idle s = None then Some t else idle s)\<rparr>"

lemma created_fields [simp]:
  "running (created m t opts s) = running s" "scheduled (created m t opts s) = scheduled s"
  "idle (created m t opts s) = (if idle s = None then Some t else idle s)"
  "runqueue (created m t opts s) = runqueue s" "waitqueue (created m t opts s) = waitqueue s"
  "get_blocked b (created m t opts s) = get_blocked b s" "os_state (created m t opts s) = os_state s"
  "target (created m t opts s) = target s"
  "task (created m t opts s) x = (if x = t then fresh_task opts s (task s t) else task s x)"
  by (cases b; simp add: created_def)+

lemma fresh_task_fields [simp]:
  "t_nrp (fresh_task opts s x) = None" "t_nblocked (fresh_task opts s x) = None"
  "t_flags (fresh_task opts s x) = 0" "t_mutex (fresh_task opts s x) = None"
  "t_queue (fresh_task opts s x) = None" "t_semaphore (fresh_task opts s x) = None"
  "t_rwlock (fresh_task opts s x) = None" "t_handler (fresh_task opts s x) = o_handler opts"
  "t_params (fresh_task opts s x) = o_params opts"
  "t_status (fresh_task opts s x) =
     (if o_status opts = OS_TASK_START_RUNNING then OS_TASK_STATUS_IDLE else OS_TASK_STATUS_SUSPENDED)"
  "t_priority (fresh_task opts s x) = (if idle s = None then 0 else o_priority opts)"
  by (simp_all add: fresh_task_def)

definition options_ok :: "os_task_options_t \<Rightarrow> bool" where
  "options_ok opts \<longleftrightarrow>
     o_stack_size opts mod 4 = 0 \<and> OS_STACK_MINIMUM_SIZE \<le> o_stack_size opts \<and>
     unat (o_stack opts) + unat (o_stack_size opts) \<le> 2 ^ 32 \<and> o_priority opts \<le> 0xff"

lemma initialize_created:
  assumes st: "os_state s = OS_STATE_INITIALIZED \<or> os_state s = OS_STATE_TASKS_INITIALIZED"
    and o: "options_ok opts" and i: "idle s = None \<Longrightarrow> o_status opts = OS_TASK_START_RUNNING"
  obtains m where "os_task_initialize_options t opts s =
    seq [guarded (o_status opts = OS_TASK_START_RUNNING) (runqueue_add Runqueue t),
         modify (\<lambda>s. s\<lparr>os_state := OS_STATE_TASKS_INITIALIZED\<rparr>),
         call_status_hook t OS_TASK_STATUS_FINISHED] (ret OSS_SUCCESS) (created m t opts s)"
proof -
  have sz: "o_stack_size opts mod 4 = 0" "OS_STACK_MINIMUM_SIZE \<le> o_stack_size opts"
    "unat (o_stack opts) + unat (o_stack_size opts) \<le> 2 ^ 32"
    using o by (simp_all add: options_ok_def)
  let ?x = "(task s t)\<lparr>t_sp := 0, t_stack := o_stack opts, t_stack_size := o_stack_size opts,
       t_stack_kind := 0, t_params := o_params opts, t_handler := o_handler opts,
       t_status := (if o_status opts = OS_TASK_START_RUNNING then OS_TASK_STATUS_IDLE
                    else OS_TASK_STATUS_SUSPENDED),
       t_name := o_name opts, t_delay := 0, t_flags := 0, t_started := uptime s,
       t_runtime := 0, t_scheduled := 0, t_queue := None, t_mutex := None, t_nblocked := None,
       t_semaphore := None, t_rwlock := None, t_c := 0, t_nrp := None,
       t_priority := o_priority opts, t_signal := 0\<rparr>"
  let ?s = "s\<lparr>task := (task s)(t := ?x)\<rparr>"
  let ?m = "initial_stack ?s t (o_stack opts) (o_stack_size opts)"
  have stk: "initialize_stack t (o_stack opts) (o_stack_size opts) ?s =
      Some (Inr (stack_top (o_stack opts) (o_stack_size opts), ?s\<lparr>mem := ?m\<rparr>))"
    by (rule initialize_stack_eq [OF sz])
  have "os_task_initialize_options t opts s =
    seq [guarded (o_status opts = OS_TASK_START_RUNNING) (runqueue_add Runqueue t),
         modify (\<lambda>s. s\<lparr>os_state := OS_STATE_TASKS_INITIALIZED\<rparr>),
         call_status_hook t OS_TASK_STATUS_FINISHED] (ret OSS_SUCCESS) (created ?m t opts s)"
    using st i stk
    by (cases s; cases "task s t"; cases "idle s"; auto simp: os_task_initialize_options_def exec created_def fresh_task_def)
  then show thesis using that by blast
qed

text \<open>The kernel while its tasks are being created; \<open>rs\<close> is the run queue.\<close>

definition booting :: "kernel \<Rightarrow> task_ptr list \<Rightarrow> bool" where
  "booting s rs \<longleftrightarrow>
     os_state s = (if idle s = None then OS_STATE_INITIALIZED else OS_STATE_TASKS_INITIALIZED) \<and>
     queues_ok s rs [] \<and> scheduled s = None \<and> rooms_ok s (\<lambda>_. []) \<and>
     (\<forall>x\<in>set rs. status_of s x = OS_TASK_STATUS_IDLE \<and> waits_for (task s x) None) \<and>
     (if idle s = None then rs = [] else has_idle s rs [])"

lemma bootingD:
  assumes "booting s rs"
  shows "os_state s = (if idle s = None then OS_STATE_INITIALIZED else OS_STATE_TASKS_INITIALIZED)"
    "queues_ok s rs []" "scheduled s = None" "rooms_ok s (\<lambda>_. [])"
    "x \<in> set rs \<Longrightarrow> status_of s x = OS_TASK_STATUS_IDLE" "x \<in> set rs \<Longrightarrow> waits_for (task s x) None"
    "idle s = None \<Longrightarrow> rs = []" "idle s \<noteq> None \<Longrightarrow> has_idle s rs []"
  using assms by (auto simp: booting_def)

lemma rooms_empty: "rooms_ok s (\<lambda>_. []) \<longleftrightarrow> (\<forall>b. get_blocked b s = None) \<and> (\<forall>x. nblocked_of s x = None)"
  by (auto simp: rooms_ok_def is_blocked_def)

lemma queues_ok_created:
  assumes q: "queues_ok s rs []" and t: "t \<notin> set rs"
  shows "queues_ok (created m t opts s) rs []"
proof -
  let ?s = "created m t opts s"
  have "links_ok ?s rs [] = links_ok s rs []"
    by (rule links_ok_cong) (use queues_okD(12) [OF q t] in simp_all)
  then have l: "links_ok ?s rs []" using queues_okD(1) [OF q] by simp
  moreover have "sorted_wrt (\<lambda>x y. \<not> higher ?s y x) rs"
  proof (rule sorted_wrt_mono_rel [OF _ queues_okD(5) [OF q]])
    fix x y assume "x \<in> set rs" "y \<in> set rs" "\<not> higher s y x"
    then show "\<not> higher ?s y x" using t by (auto simp: higher_def)
  qed
  moreover have "os_task_status_is_running (status_of ?s x) \<and> prio_of ?s x \<le> 0xff" if "x \<in> set rs" for x
    using that t queues_okD(7,8) [OF q that] by auto
  ultimately show ?thesis by (auto simp: queues_ok_def rq_ok_def wq_ok_def links_ok_def)
qed

lemma get_blocked_state [simp]:
  "get_blocked b (s\<lparr>os_state := x\<rparr>) = get_blocked b s" "get_blocked b (s\<lparr>trace := y\<rparr>) = get_blocked b s"
  "get_blocked b (s\<lparr>os_state := x, trace := y\<rparr>) = get_blocked b s"
  by (cases b; simp)+

text \<open>Creating one task.\<close>

lemma create_one:
  assumes b: "booting s rs" and t: "t \<notin> set rs" and o: "options_ok opts"
    and first: "idle s = None \<Longrightarrow> o_status opts = OS_TASK_START_RUNNING"
    and later: "idle s \<noteq> None \<Longrightarrow> o_priority opts \<noteq> 0"
  obtains s' rs' where "os_task_initialize_options t opts s = Some (Inr (OSS_SUCCESS, s'))" "booting s' rs'"
    "set rs' = (if o_status opts = OS_TASK_START_RUNNING then insert t (set rs) else set rs)"
    "idle s' = (if idle s = None then Some t else idle s)" "target s' = target s"
    "\<And>x. t_handler (task s' x) = (if x = t then o_handler opts else t_handler (task s x))"
    "\<And>x. t_params (task s' x) = (if x = t then o_params opts else t_params (task s x))"
proof -
  note bd = bootingD [OF b]
  obtain m where run: "os_task_initialize_options t opts s =
    seq [guarded (o_status opts = OS_TASK_START_RUNNING) (runqueue_add Runqueue t),
         modify (\<lambda>s. s\<lparr>os_state := OS_STATE_TASKS_INITIALIZED\<rparr>),
         call_status_hook t OS_TASK_STATUS_FINISHED] (ret OSS_SUCCESS) (created m t opts s)"
    by (rule initialize_created [OF _ o first]) (use bd(1) in \<open>auto split: if_splits\<close>)
  let ?s = "created m t opts s" and ?go = "o_status opts = OS_TASK_START_RUNNING"
  define rs' where "rs' = (if ?go then insert_before (higher ?s) t rs else rs)"
  define s1 where "s1 = queued rs' [] ?s"
  define s' where "s' = hooked t OS_TASK_STATUS_FINISHED (s1\<lparr>os_state := OS_STATE_TASKS_INITIALIZED\<rparr>)"
  have set: "set rs' = (if ?go then insert t (set rs) else set rs)" by (simp add: rs'_def)
  have x: "prio_of s' x = (if x = t then (if idle s = None then 0 else o_priority opts) else prio_of s x)"
    "status_of s' x = (if x = t then (if ?go then OS_TASK_STATUS_IDLE else OS_TASK_STATUS_SUSPENDED) else status_of s x)"
    "waits_for (task s' x) None = (x = t \<or> waits_for (task s x) None)"
    "nblocked_of s' x = (if x = t then None else nblocked_of s x)"
    "t_handler (task s' x) = (if x = t then o_handler opts else t_handler (task s x))"
    "t_params (task s' x) = (if x = t then o_params opts else t_params (task s x))" for x
    by (simp_all add: s'_def s1_def)
  have f: "idle s' = (if idle s = None then Some t else idle s)" "target s' = target s"
    "scheduled s' = scheduled s" "os_state s' = OS_STATE_TASKS_INITIALIZED" "get_blocked b s' = get_blocked b s" for b
    by (simp_all add: s'_def s1_def hooked_def)
  have q: "queues_ok ?s rs []" by (rule queues_ok_created [OF bd(2) t])
  have "prio_of ?s t \<le> 0xff" using o by (simp add: options_ok_def)
  then have add: "guarded ?go (runqueue_add Runqueue t) ?s = Some (Inr ((), s1))"
    using runqueue_add_queued_eq [OF queues_okD(1,4) [OF q] t] queued_id [OF queues_okD(1) [OF q]]
    by (simp add: guarded_apply s1_def rs'_def)
  have "distinct rs'" using queues_okD(15) [OF q] t by (simp add: rs'_def)
  moreover have "sorted_wrt (\<lambda>x y. \<not> higher ?s y x) rs'"
    using queues_okD(5) [OF q] prio.sorted_insert_before by (simp add: rs'_def)
  moreover have "os_task_status_is_running (status_of ?s x) \<and> prio_of ?s x \<le> 0xff" if "x \<in> set rs'" for x
    using that queues_okD(7,8) [OF q, of x] o by (auto simp: options_ok_def set split: if_splits)
  ultimately have q1: "queues_ok s1 rs' []" unfolding s1_def by (intro queued_ok) simp_all
  have "queues_ok s' rs' [] = queues_ok s1 rs' []" by (rule queues_ok_cong) (simp_all add: s'_def hooked_def)
  moreover have "rooms_ok s' (\<lambda>_. [])" using bd(4) by (simp add: rooms_empty f x)
  moreover have "has_idle s' rs' []"
  proof (cases "idle s")
    case None
    then show ?thesis using bd(7) first by (simp add: has_idle_def set f x)
  next
    case (Some i)
    then have "i \<in> set rs" "prio_of s i = 0" "\<forall>x\<in>set rs. prio_of s x = 0 \<longrightarrow> x = i"
      using bd(8) by (auto simp: has_idle_def)
    then have i: "i \<in> set rs" "prio_of s i = 0" "\<And>y. y \<in> set rs \<Longrightarrow> prio_of s y = 0 \<Longrightarrow> y = i" by blast+
    have "i \<noteq> t" using i(1) t by auto
    then have i': "prio_of s' i = 0" "i \<in> set rs'" using i(1,2) by (simp_all add: x set)
    have only: "y = i" if "y \<in> set rs'" "prio_of s' y = 0" for y
    proof (rule i(3))
      have "y \<noteq> t" using that(2) Some later by (auto simp: x)
      then show "y \<in> set rs" "prio_of s y = 0" using that by (simp_all add: x set split: if_splits)
    qed
    show ?thesis unfolding has_idle_def
    proof (intro bexI [OF _ i'(2)] conjI ballI impI)
      show "idle s' = Some i" using Some by (simp add: f)
      show "prio_of s' i = 0" by (rule i'(1))
      show "y = i" if "y \<in> set rs' \<union> set []" "prio_of s' y = 0" for y using only [of y] that by simp
    qed
  qed
  moreover have "\<forall>x\<in>set rs'. status_of s' x = OS_TASK_STATUS_IDLE \<and> waits_for (task s' x) None"
  proof
    fix y assume y: "y \<in> set rs'"
    show "status_of s' y = OS_TASK_STATUS_IDLE \<and> waits_for (task s' y) None"
    proof (cases "y = t")
      case True
      then have ?go using y t by (simp add: set split: if_splits)
      with True show ?thesis by (simp only: x) simp
    next
      case False
      then have "y \<in> set rs" using y by (simp add: set split: if_splits)
      with False show ?thesis using bd(5,6) [of y] by (simp only: x) simp
    qed
  qed
  ultimately have boot: "booting s' rs'"
    using q1 bd(3) by (simp add: booting_def f del: waits_for.simps)
  have init: "os_task_initialize_options t opts s = Some (Inr (OSS_SUCCESS, s'))"
    unfolding run using add by (simp add: exec s'_def)
  show thesis by (rule that [OF init boot set f(1,2) x(5,6)])
qed

text \<open>All the tasks of the application, in the order of the list.\<close>

fun create_tasks :: "(task_ptr \<times> os_task_options_t) list \<Rightarrow> unit os" where
  "create_tasks [] = ret ()"
| "create_tasks ((t, opts) # ts) = bind (os_task_initialize_options t opts) (\<lambda>_. create_tasks ts)"

lemma create_rest:
  "booting s rs \<Longrightarrow> idle s = Some i \<Longrightarrow> distinct (map fst ts) \<Longrightarrow> set rs \<inter> fst ` set ts = {} \<Longrightarrow>
   \<forall>(t, opts)\<in>set ts. options_ok opts \<and> o_priority opts \<noteq> 0 \<Longrightarrow>
   \<exists>s' rs'. create_tasks ts s = Some (Inr ((), s')) \<and> booting s' rs' \<and> idle s' = Some i \<and>
     target s' = target s \<and> set rs' = set rs \<union> {t. \<exists>opts. (t, opts) \<in> set ts \<and> o_status opts = OS_TASK_START_RUNNING} \<and>
     (i \<in> set rs \<longrightarrow> t_handler (task s' i) = t_handler (task s i) \<and> t_params (task s' i) = t_params (task s i))"
proof (induction ts arbitrary: s rs)
  case Nil
  then show ?case by (simp add: exec) blast
next
  case (Cons p ts)
  obtain t opts where p: "p = (t, opts)" by fastforce
  have t: "t \<notin> set rs" "options_ok opts" "o_priority opts \<noteq> 0" using Cons.prems p by auto
  obtain s1 rs1 where run: "os_task_initialize_options t opts s = Some (Inr (OSS_SUCCESS, s1))"
    and s1: "booting s1 rs1" "set rs1 = (if o_status opts = OS_TASK_START_RUNNING then insert t (set rs) else set rs)"
      "idle s1 = (if idle s = None then Some t else idle s)" "target s1 = target s"
    and keep: "\<And>x. t_handler (task s1 x) = (if x = t then o_handler opts else t_handler (task s x))"
      "\<And>x. t_params (task s1 x) = (if x = t then o_params opts else t_params (task s x))"
    by (rule create_one [OF Cons.prems(1) t(1,2)]) (use Cons.prems(2) t(3) in auto)
  have id: "idle s1 = Some i" using s1(3) Cons.prems(2) by simp
  have "set rs1 \<inter> fst ` set ts = {}" using s1(2) Cons.prems(3,4) p by (auto simp: image_iff)
  then obtain s' rs' where IH: "create_tasks ts s1 = Some (Inr ((), s'))" "booting s' rs'" "idle s' = Some i"
     "target s' = target s1" "set rs' = set rs1 \<union> {t. \<exists>opts. (t, opts) \<in> set ts \<and> o_status opts = OS_TASK_START_RUNNING}"
     "i \<in> set rs1 \<longrightarrow> t_handler (task s' i) = t_handler (task s1 i) \<and> t_params (task s' i) = t_params (task s1 i)"
    using Cons.IH [OF s1(1) id] Cons.prems(3,5) p by auto
  have "create_tasks (p # ts) s = Some (Inr ((), s'))" using run IH(1) p by (simp add: exec)
  moreover have "set rs' = set rs \<union> {t. \<exists>opts. (t, opts) \<in> set (p # ts) \<and> o_status opts = OS_TASK_START_RUNNING}"
    using IH(5) s1(2) p by auto
  moreover have "i \<in> set rs \<longrightarrow> t_handler (task s' i) = t_handler (task s i) \<and> t_params (task s' i) = t_params (task s i)"
    using IH(6) keep t(1) s1(2) by auto
  ultimately show ?case using IH(2,3,4) s1(4) by (intro exI [of _ s'] exI [of _ rs']) simp
qed

text \<open>A kernel whose variables are as the C start-up code leaves them.\<close>

definition powered :: "kernel \<Rightarrow> bool" where
  "powered s \<longleftrightarrow>
     os_state s = OS_STATE_DEFAULT \<and> idle s = None \<and> runqueue s = None \<and> waitqueue s = None \<and>
     scheduled s = None \<and> (\<forall>b. get_blocked b s = None) \<and> (\<forall>x. nblocked_of s x = None \<and> nrp_of s x = None)"

text \<open>The state in which the handler of the idle task is entered.\<close>

definition entered_idle :: "task_ptr \<Rightarrow> kernel \<Rightarrow> kernel" where
  "entered_idle i s = s\<lparr>running := Some i, task := (task s)(i := (task s i)\<lparr>t_status := OS_TASK_STATUS_ACTIVE\<rparr>),
     control := 2, os_state := OS_STATE_STARTED\<rparr>"

lemma os_start_eq:
  assumes b: "booting s rs" and i: "idle s = Some i" and d: "is_device (target s)"
  shows "os_start enter s =
      bind (enter (t_handler (task s i)) (t_params (task s i))) (\<lambda>_. fail (Assertion ''0'')) (entered_idle i s)"
proof -
  note bd = bootingD [OF b]
  have "rs \<noteq> []" using bd(8) i by (auto simp: has_idle_def)
  then have "runqueue s \<noteq> None" using queues_okD(13) [OF bd(2)] by simp
  moreover have "os_state s = OS_STATE_TASKS_INITIALIZED" using bd(1) i by simp
  ultimately show ?thesis
    using i d by (simp add: os_start_def osi_platform_setup_def running_task_def entered_idle_def exec)
      (simp add: exec split: option.split sum.split prod.split)
qed

lemma entered_idle_ready:
  assumes b: "booting s rs" and i: "idle s = Some i"
  shows "ready (entered_idle i s) i rs []" "rooms_ok (entered_idle i s) (\<lambda>_. [])"
    "x \<in> set rs \<Longrightarrow> waits_for (task (entered_idle i s) x) None" "i \<in> set rs"
proof -
  note bd = bootingD [OF b]
  show ir: "i \<in> set rs" using bd(8) i by (auto simp: has_idle_def)
  have st: "status_of s i = OS_TASK_STATUS_IDLE" using bd(5) [OF ir] .
  have "queues_ok (entered_idle i s) rs [] = queues_ok s rs []"
    by (rule queues_ok_cong) (simp_all add: entered_idle_def st)
  moreover have "has_idle (entered_idle i s) rs []"
    by (rule has_idle_mono [of s rs "[]"]) (use bd(8) i in \<open>simp_all add: entered_idle_def\<close>)
  ultimately show "ready (entered_idle i s) i rs []"
    using bd(2,3) ir by (simp add: ready_def) (simp add: entered_idle_def)
  have g: "get_blocked b (entered_idle i s) = get_blocked b s" for b
    by (cases b) (simp_all add: entered_idle_def)
  show "rooms_ok (entered_idle i s) (\<lambda>_. [])" using bd(4) by (simp add: rooms_empty g) (simp add: entered_idle_def)
  show "waits_for (task (entered_idle i s) x) None" if "x \<in> set rs"
    using bd(6) [OF that] by (auto simp: entered_idle_def)
qed

text \<open>
  C6: starting the system.  From the state after reset, initialising the kernel, creating the tasks - the
  first one the idle task, all with stacks of their own and, behind the first, a priority above
  the idle one - and \<open>os_start\<close> lead to the handler of the idle task, entered with its
  parameter on the process stack; the run queue then holds exactly the tasks created running,
  in order, and the first tick establishes the invariant, whichever task it makes the next.
  The handler must not return: an assertion fails if it does.
\<close>

theorem system_start:
  assumes p: "powered s" and d: "is_device (target s)"
    and first: "options_ok opts" "o_status opts = OS_TASK_START_RUNNING"
    and tasks: "distinct (map fst ((i, opts) # ts))" "\<forall>(t, opts)\<in>set ts. options_ok opts \<and> o_priority opts \<noteq> 0"
  shows "\<exists>s' rs. bind os_initialize (\<lambda>_. bind (create_tasks ((i, opts) # ts)) (\<lambda>_. os_start enter)) s =
      bind (enter (o_handler opts) (o_params opts)) (\<lambda>_. fail (Assertion ''0'')) s' \<and>
    running s' = Some i \<and> control s' = 2 \<and> queues_ok s' rs [] \<and>
    set rs = insert i {t. \<exists>opts. (t, opts) \<in> set ts \<and> o_status opts = OS_TASK_START_RUNNING} \<and>
    (\<exists>s''. osi_irs_systick s' = Some (Inr (OSS_SUCCESS, s'')) \<and> settled i (\<lambda>_. []) s'')"
proof -
  let ?s = "s\<lparr>os_state := OS_STATE_INITIALIZED, status_hook := 0, logging_hook := 0\<rparr>"
  have gb: "get_blocked b ?s = get_blocked b s" for b by (cases b) simp_all
  have "queues_ok ?s [] []"
    using p by (auto simp: powered_def queues_ok_def rq_ok_def wq_ok_def links_ok_def is_list_def)
  moreover have "rooms_ok ?s (\<lambda>_. [])" using p by (simp add: rooms_empty powered_def gb)
  ultimately have b0: "booting ?s []" "idle ?s = None" using p by (simp_all add: booting_def powered_def)
  have init: "os_initialize s = Some (Inr (OSS_SUCCESS, ?s))"
    using p by (simp add: os_initialize_def powered_def exec)
  obtain s1 rs1 where run1: "os_task_initialize_options i opts ?s = Some (Inr (OSS_SUCCESS, s1))"
    and s1: "booting s1 rs1" "set rs1 = {i}" "idle s1 = Some i" "target s1 = target s"
      "t_handler (task s1 i) = o_handler opts" "t_params (task s1 i) = o_params opts"
    by (rule create_one [of ?s "[]" i opts, OF b0(1) _ first(1)]) (use b0(2) first(2) in auto)
  have "set rs1 \<inter> fst ` set ts = {}" using s1(2) tasks(1) by auto
  then obtain s2 rs where run2: "create_tasks ts s1 = Some (Inr ((), s2))" and b2: "booting s2 rs"
    and s2: "idle s2 = Some i" "target s2 = target s"
      "set rs = {i} \<union> {t. \<exists>opts. (t, opts) \<in> set ts \<and> o_status opts = OS_TASK_START_RUNNING}"
      "t_handler (task s2 i) = o_handler opts" "t_params (task s2 i) = o_params opts"
    using create_rest [OF s1(1,3), of ts] tasks s1(2,4,5,6) by auto
  let ?s' = "entered_idle i s2"
  note ok = entered_idle_ready [OF b2 s2(1)]
  have start: "os_start enter s2 =
      bind (enter (o_handler opts) (o_params opts)) (\<lambda>_. fail (Assertion ''0'')) ?s'"
    using os_start_eq [OF b2 s2(1)] d s2(2,4,5) by simp
  have "bind os_initialize (\<lambda>_. bind (create_tasks ((i, opts) # ts)) (\<lambda>_. os_start enter)) s = os_start enter s2"
    using init run1 run2 by (simp add: bind_def)
  moreover have w: "\<exists>w. waits_for (task ?s' t) w" if "t \<in> set rs \<union> set []" for t
    using ok(3) [of t] that by (intro exI [of _ None]) simp
  obtain s'' where s'': "osi_schedule ?s' = Some (Inr (OSS_SUCCESS, s''))" "settled i (\<lambda>_. []) s''"
    by (rule schedule_ready [OF ok(1,2) ok(3) [OF ok(4)] w]) simp_all
  moreover have "osi_irs_systick ?s' = osi_schedule ?s'"
    using readyD(3) [OF ok(1)] by (simp add: osi_irs_systick_def) (simp add: entered_idle_def)
  ultimately show ?thesis
    using start readyD(1,2) [OF ok(1)] s2(3)
    by (intro exI [of _ ?s'] exI [of _ rs]) (simp add: entered_idle_def)
qed

definition example_options :: "u32 \<Rightarrow> os_priority_t \<Rightarrow> os_task_options_t" where
  "example_options stack p =
     \<lparr>o_name = ''task'', o_status = OS_TASK_START_RUNNING, o_handler = 0x4001, o_params = 7, o_stack = stack,
      o_stack_size = 1024, o_priority = p\<rparr>"

theorem system_start_witness:
  "\<exists>s' rs. bind os_initialize (\<lambda>_. bind (create_tasks [(0, example_options 0x2000 0), (1, example_options 0x3000 0x10)])
       (\<lambda>_. os_start (\<lambda>h p. emit (Handler_entered h p)))) blank_kernel =
      bind (emit (Handler_entered 0x4001 7)) (\<lambda>_. fail (Assertion ''0'')) s' \<and>
    running s' = Some 0 \<and> control s' = 2 \<and> queues_ok s' rs [] \<and> set rs = {0, 1} \<and>
    (\<exists>s''. osi_irs_systick s' = Some (Inr (OSS_SUCCESS, s'')) \<and> settled 0 (\<lambda>_. []) s'')"
proof -
  have "get_blocked b blank_kernel = None" for b by (cases b) (simp_all add: blank_defs)
  then have p: "powered blank_kernel" by (simp add: powered_def) (simp add: blank_defs)
  have d: "is_device (target blank_kernel)" by (simp add: blank_defs)
  have "insert (0 :: u32) {t. \<exists>opts. (t, opts) \<in> set [(1, example_options 0x3000 0x10)] \<and>
      o_status opts = OS_TASK_START_RUNNING} = {0, 1}"
    by (auto simp: example_options_def)
  with system_start [OF p d, of "example_options 0x2000 0" 0 "[(1, example_options 0x3000 0x10)]"
      "\<lambda>h p. emit (Handler_entered h p)"]
  show ?thesis by (simp add: options_ok_def example_options_def)
qed

section \<open>The end of a task\<close>

text \<open>
  The scheduler replaces a running task that is not queued any more; \<open>L\<close> are the lists of
  blocked tasks.
\<close>

lemma schedule_gone:
  assumes q: "queues_ok s rs ws" and r: "running s = Some r" "scheduled s = None"
    and st: "\<not> task_is_running s r" and rq: "r \<notin> set ws" and p: "\<forall>x\<in>set ws. prio_of s x \<le> 0xff"
    and i: "has_idle s rs ws" and pr: "prio_of s r \<noteq> 0" and ok: "rooms_ok s L"
    and tk: "\<And>x. x \<in> set rs \<union> set ws \<Longrightarrow> \<exists>w. waits_for (task s x) w"
    and mem: "\<And>b. set (L b) \<subseteq> set rs \<union> set ws"
  obtains t s' rs' ws' w where "osi_schedule s = Some (Inr (OSS_SUCCESS, s'))" "t \<noteq> r" "scheduled s' = Some t"
    "running s' = Some r" "set rs' \<union> set ws' = set rs \<union> set ws" "status_of s' r = status_of s r"
    "same_objects s s'" "\<And>sp kind. kernel_ok (switched sp kind r s') t rs' ws' (leave_rooms w t L)"
proof -
  let ?rs = "wake_run s rs ws" and ?ws = "wake_wait s ws" and ?s1 = "wake_state s rs ws"
  have nw: "woken s ws \<noteq> Some r" using rq by (auto simp: woken_iff)
  have wt: "waiters_ok s rs ws" unfolding waiters_ok_def using tk waits_in_rooms [OF ok] by blast
  obtain t w xs where t: "first ?rs = Some t" "t \<noteq> r" "waits_in s t w xs"
    and sched: "osi_schedule s = Some (Inr (OSS_SUCCESS, dispatched r t ?rs ?ws (left w t xs ?s1)))"
    and q0: "queues_ok (dispatched r t ?rs ?ws (left w t xs ?s1)) ?rs ?ws"
    by (rule osi_schedule_replaces [OF q r st nw p i pr wt])
  let ?s' = "dispatched r t ?rs ?ws (left w t xs ?s1)"
  have w: "waits_for (task s t) w" using t(3) by (simp add: waits_in_def)
  have xs: "xs = room_list w L"
    using t(3) rooms_okD(1) [OF ok] is_blocked_unique
    by (auto simp: waits_in_def room_list_def split: option.splits)
  have all: "set ?rs \<union> set ?ws = set rs \<union> set ws"
    using queues_okD(16) [OF q]
    by (auto simp: wake_run_def wake_wait_def woken_def split: option.splits list.splits if_splits)
  have q1: "queues_ok ?s1 ?rs ?ws" using wake_loop_eq(2) [OF q p] .
  have tr: "t \<in> set ?rs" using t(1) by (cases ?rs) auto
  have wf: "waits_for (task ?s1 x) v = waits_for (task s x) v" for x v
    by (rule waits_for_cong) (simp_all add: wake_state_def split: option.split)
  have nb: "nblocked_of ?s1 x = nblocked_of s x" for x
    by (simp add: wake_state_def split: option.split)
  have "rooms_ok ?s1 L = rooms_ok s L" by (rule rooms_ok_cong) (simp_all add: wf nb)
  then have r1: "rooms_ok ?s1 L" using ok by simp
  have top: "\<forall>x\<in>set ?rs. \<not> higher ?s1 x t"
  proof -
    obtain ys where ys: "?rs = t # ys" using t(1) by (auto simp: first_Some)
    have "\<forall>x\<in>set ys. \<not> higher ?s1 x t" using queues_okD(5) [OF q1] unfolding ys by simp
    then show ?thesis unfolding ys by (simp add: higher_def)
  qed
  have hi: "has_idle ?s1 ?rs ?ws"
    by (rule has_idle_mono [OF i]) (use wake_run_superset all in auto)
  have ko: "kernel_ok (switched sp kind r ?s') t ?rs ?ws (leave_rooms w t L)" for sp kind
    unfolding xs
  proof (rule kernel_ok_dispatched [OF _ tr top _ hi r1])
    show "queues_ok (dispatched r t ?rs ?ws (left w t (room_list w L) ?s1)) ?rs ?ws" using q0 xs by simp
    show "\<forall>x\<in>set ?ws. prio_of ?s1 x \<le> 0xff" using p queues_okD(8) [OF q] all by auto
    show "waits_for (task ?s1 t) w" using w wf by simp
    show "\<exists>w. waits_for (task ?s1 x) w" if "x \<in> set ?rs \<union> set ?ws" for x using tk [of x] that all wf by auto
    show "set (L b) \<subseteq> set ?rs \<union> set ?ws" for b using mem all by simp
  qed
  have st0: "status_of ?s' r = status_of s r"
    using t(2) nw st by (auto simp: dispatched_status wake_state_status task_is_running_def)
  show thesis
    by (rule that [OF sched t(2) _ _ all st0 same_objects_scheduled ko]) (use r in simp_all)
qed

text \<open>The running task gets a status in which it is neither runnable nor waiting.\<close>

lemma retire:
  assumes k: "kernel_ok s r rs ws L" and i: "idle s \<noteq> Some r"
    and st: "st = OS_TASK_STATUS_FINISHED \<or> st = OS_TASK_STATUS_ABORTED \<or> st = OS_TASK_STATUS_PANIC"
  obtains s1 t s' rs' ws' w where
    "osi_task_status_set r st s = Some (Inr (os_task_status_num st, s1))" "status_of s1 r = st"
    "running s1 = Some r" "scheduled s1 = None" "os_state s1 = os_state s"
    "osi_schedule s1 = Some (Inr (OSS_SUCCESS, s'))" "t \<noteq> r" "scheduled s' = Some t" "running s' = Some r"
    "set rs' \<union> set ws' = set rs \<union> set ws - {r}" "status_of s' r = st" "same_objects s s'"
    "\<And>sp kind. kernel_ok (switched sp kind r s') t rs' ws' (leave_rooms w t L)"
proof -
  note kd = kernel_okD [OF k] and fl = kernel_ok_flags [OF k]
  note sd = steadyD [OF kd(1)]
  let ?s = "after_status s rs ws r st" and ?rs = "remove1 r rs"
  have rw: "r \<notin> set ws" using queues_okD(10) [OF sd(1,4)] .
  have c: "can_become s rs ws r st" using st rw by (auto simp: can_become_def)
  have set: "osi_task_status_set r st s = Some (Inr (os_task_status_num st, ?s))"
    by (rule osi_task_status_set_eq [OF sd(1) c])
  have "next_run s r st rs = ?rs" "next_wait s r st ws = ws" using st by (auto simp: next_run_def next_wait_def)
  then have q: "queues_ok ?s ?rs ws" using after_status_ok [OF sd(1) c] by simp
  have all: "set ?rs \<union> set ws = set rs \<union> set ws - {r}" using rw queues_okD(15) [OF sd(1)] by auto
  have wf: "waits_for (task ?s x) v = waits_for (task s x) v" for x v
    by (rule waits_for_cong) simp_all
  have "rooms_ok ?s L = rooms_ok s L" by (rule rooms_ok_cong) (simp_all add: wf)
  then have ok: "rooms_ok ?s L" using kd(2) by simp
  have nir: "prio_of s r \<noteq> 0" using sd(4,8) i by (auto simp: has_idle_def)
  have hi: "has_idle ?s ?rs ws"
    by (rule has_idle_cong [OF sd(8), of _ r]) (use i all queues_okD(15) [OF sd(1)] in auto)
  have same: "same_objects s ?s" by (rule same_objects_eqI) (simp_all add: task_rest_def)
  obtain t s' rs' ws' w where s': "osi_schedule ?s = Some (Inr (OSS_SUCCESS, s'))" "t \<noteq> r" "scheduled s' = Some t"
    "running s' = Some r" "set rs' \<union> set ws' = set ?rs \<union> set ws" "status_of s' r = status_of ?s r"
    "same_objects ?s s'" "\<And>sp kind. kernel_ok (switched sp kind r s') t rs' ws' (leave_rooms w t L)"
  proof (rule schedule_gone [OF q _ _ _ rw _ hi _ ok])
    show "running ?s = Some r" "scheduled ?s = None" using sd(2,3) by simp_all
    show "\<not> task_is_running ?s r" using st by (auto simp: task_is_running_def)
    show "\<forall>x\<in>set ws. prio_of ?s x \<le> 0xff" "prio_of ?s r \<noteq> 0" using sd(7) nir by simp_all
    show "\<exists>w. waits_for (task ?s x) w" if "x \<in> set ?rs \<union> set ws" for x
      using kd(4) [of x] that all wf by auto
    show "set (L b) \<subseteq> set ?rs \<union> set ws" for b
      using kd(5) [of b] not_in_rooms(1) [OF kd(2,3), of b] all by auto
  qed (rule that)
  have os: "os_state ?s = os_state s" by (simp add: after_status_def hooked_def set_status_def)
  show thesis
    by (rule that [OF set _ _ _ os s'(1-4) _ _ same_objects_trans [OF same s'(7)] s'(8)])
      (use sd(2,3) s'(5,6) all in simp_all)
qed


text \<open>The switch away from it, at the stack pointer \<open>sp\<close>.\<close>

lemma retired_leaves:
  assumes k: "kernel_ok (switched sp kind r s') t rs ws L" and "t \<noteq> r" "scheduled s' = Some t" "running s' = Some r"
    and "same_objects s s'" "stack_ok s r sp"
  shows "PendSV_Handler sp kind s' = Some (Inr ((), switched sp kind r s'))"
proof (rule PendSV_Handler_eq [OF _ assms(4,3,2)])
  note sd = steadyD [OF kernel_okD(1) [OF k]]
  show "queues_ok s' rs ws" using sd(1) by simp
  show "t \<in> set rs" "\<forall>x\<in>set rs. \<not> higher s' x t" using sd(4,6) by (simp_all add: higher_def)
  show "stack_ok s' r sp" using assms(6) same_objectsD(1,4) [OF assms(5)] by (simp add: stack_ok_def)
qed

lemma infinite_loop_diverges: "infinite_loop i s = None"
proof -
  have "infinite_loop i s = Some y \<Longrightarrow> False" for y
    by (rule infinite_loop.raw_induct [where P = "\<lambda>_ _ _. False"]) blast+
  then show ?thesis by (cases "infinite_loop i s") auto
qed

text \<open>
  C7: the end of a task.  When the handler of a running task other than the idle one returns,
  \<open>task_finished\<close> takes the task out of the run queue for good and never returns; the next tick
  nevertheless finds another task, and \<open>PendSV_Handler\<close> leaves the processor to it with the
  invariant of the kernel and exactly the other tasks in the queues.
\<close>

theorem task_finish_gives_way:
  assumes k: "kernel_ok s r rs ws L" and i: "idle s \<noteq> Some r" and st: "os_state s = OS_STATE_STARTED"
    and act: "status_of s r = OS_TASK_STATUS_ACTIVE" and sp: "stack_ok s r sp"
  shows "task_finished s = None \<and>
    (\<exists>s1 s' s'' t rs' ws' w. task_finish s = Some (Inr ((), s1)) \<and>
      osi_irs_systick s1 = Some (Inr (OSS_SUCCESS, s')) \<and> PendSV_Handler sp kind s' = Some (Inr ((), s'')) \<and>
      t \<noteq> r \<and> kernel_ok s'' t rs' ws' (leave_rooms w t L) \<and> set rs' \<union> set ws' = set rs \<union> set ws - {r} \<and>
      status_of s'' r = OS_TASK_STATUS_FINISHED)"
proof -
  obtain s1 t s' rs' ws' w where s1:
    "osi_task_status_set r OS_TASK_STATUS_FINISHED s = Some (Inr (os_task_status_num OS_TASK_STATUS_FINISHED, s1))"
    "status_of s1 r = OS_TASK_STATUS_FINISHED" "running s1 = Some r" "scheduled s1 = None" "os_state s1 = os_state s"
    "osi_schedule s1 = Some (Inr (OSS_SUCCESS, s'))" "t \<noteq> r" "scheduled s' = Some t" "running s' = Some r"
    "set rs' \<union> set ws' = set rs \<union> set ws - {r}" "status_of s' r = OS_TASK_STATUS_FINISHED" "same_objects s s'"
    "\<And>sp kind. kernel_ok (switched sp kind r s') t rs' ws' (leave_rooms w t L)"
    by (rule retire [OF k i disjI1 [OF refl]]) (rule that)
  have fin: "task_finish s = Some (Inr ((), s1))"
    using i act kernel_ok_flags(7) [OF k] s1(1) by (auto simp: task_finish_def running_task_def exec)
  have none: "task_finished s = None"
    using fin by (simp add: task_finished_def bind_def infinite_loop_diverges)
  have tick: "osi_irs_systick s1 = Some (Inr (OSS_SUCCESS, s'))"
    using s1(4-6) st by (simp add: osi_irs_systick_def)
  have "status_of (switched sp kind r s') r = OS_TASK_STATUS_FINISHED" using s1(11) by (simp add: switched_def)
  with none fin tick retired_leaves [OF s1(13,7,8,9,12) sp] s1(7,10,13) show ?thesis by blast
qed

theorem task_finish_gives_way_witness:
  "task_finished example_base = None \<and>
   (\<exists>s1 s'. task_finish example_base = Some (Inr ((), s1)) \<and> osi_irs_systick s1 = Some (Inr (OSS_SUCCESS, s')))"
proof -
  have "idle example_base \<noteq> Some 1" "os_state example_base = OS_STATE_STARTED"
    "status_of example_base 1 = OS_TASK_STATUS_ACTIVE" "stack_ok example_base 1 0"
    by (simp_all add: stack_ok_def)
  from task_finish_gives_way [OF example_base_ok this] show ?thesis by blast
qed

text \<open>A task that aborts is gone in the same way, and another one is scheduled at once.\<close>

lemma abort_gives_way:
  assumes k: "kernel_ok s r rs ws L" and i: "idle s \<noteq> Some r" and sp: "stack_ok s r sp"
  obtains s' t rs' ws' w where "svc_abort code s = Some (Inr (OSS_SUCCESS, s'))"
    "PendSV_Handler sp kind s' = Some (Inr ((), switched sp kind r s'))" "t \<noteq> r"
    "kernel_ok (switched sp kind r s') t rs' ws' (leave_rooms w t L)"
    "set rs' \<union> set ws' = set rs \<union> set ws - {r}" "status_of s' r = OS_TASK_STATUS_ABORTED"
proof -
  obtain s1 t s' rs' ws' w where s1:
    "osi_task_status_set r OS_TASK_STATUS_ABORTED s = Some (Inr (os_task_status_num OS_TASK_STATUS_ABORTED, s1))"
    "status_of s1 r = OS_TASK_STATUS_ABORTED" "running s1 = Some r" "scheduled s1 = None" "os_state s1 = os_state s"
    "osi_schedule s1 = Some (Inr (OSS_SUCCESS, s'))" "t \<noteq> r" "scheduled s' = Some t" "running s' = Some r"
    "set rs' \<union> set ws' = set rs \<union> set ws - {r}" "status_of s' r = OS_TASK_STATUS_ABORTED" "same_objects s s'"
    "\<And>sp kind. kernel_ok (switched sp kind r s') t rs' ws' (leave_rooms w t L)"
    by (rule retire [OF k i, of OS_TASK_STATUS_ABORTED]) (simp, rule that)
  have "svc_abort code s = Some (Inr (OSS_SUCCESS, s'))"
    using kernel_ok_flags(7) [OF k] s1(1,4,6-9)
    by (auto simp: svc_abort_def running_task_def schedule_if_needed_def assert_switching_def exec)
  from that [OF this retired_leaves [OF s1(13,7,8,9,12) sp] s1(7,13,10,11)] show thesis .
qed

end
