(* ===== verification/KernelCalls.thy ===== *)
theory KernelCalls
  imports TaskLife Mutex MsgQueue Semaphore Rwlock Signals
begin

unbundle bit_operations_syntax

text \<open>
  The contract that the calls into the kernel share: made by the running task, while no switch
  is pending, a permitted call returns and leaves the kernel orderly.  Every call of the
  kernel's interface is an instance, proved with the lemmas of its component.
\<close>

section \<open>Orderly states\<close>

text \<open>
  Either the invariant holds for the running task, or a switch is pending and the invariant
  will hold for the next task.
\<close>

definition orderly :: "kernel \<Rightarrow> bool" where
  "orderly s \<longleftrightarrow> (\<exists>r L. settled r L s)"

text \<open>
  What every call does to the objects: message queues with valid storage keep it, locks stay
  exclusive, and a mutex changes only when it is free or held by the task \<open>r\<close> that makes the call.
\<close>

definition objects_kept :: "kernel \<Rightarrow> kernel \<Rightarrow> bool" where
  "objects_kept s s' \<longleftrightarrow> (\<forall>q. queue_ok (queue_at s q) \<longrightarrow> queue_ok (queue_at s' q)) \<and>
     (\<forall>l. rw_ok (rwlock_at s l) \<longrightarrow> rw_ok (rwlock_at s' l))"

definition mutex_step :: "task_ptr \<Rightarrow> os_mutex_t \<Rightarrow> os_mutex_t \<Rightarrow> bool" where
  "mutex_step r x y \<longleftrightarrow>
     m_owner y = m_owner x \<and> m_level y = m_level x \<or>
     m_level x = 0 \<and> m_owner y = Some r \<and> m_level y = 1 \<or>
     m_owner x = Some r \<and> m_level x = 1 \<or>
     m_owner x = Some r \<and> m_owner y = Some r \<and> (m_level y = m_level x + 1 \<or> m_level y = m_level x - 1)"

definition well_done :: "task_ptr \<Rightarrow> kernel \<Rightarrow> kernel \<Rightarrow> bool" where
  "well_done r s s' \<longleftrightarrow> objects_kept s s' \<and> (\<forall>m. mutex_step r (mutex_at s m) (mutex_at s' m))"

fun own_object :: "task_ptr \<Rightarrow> blocked_ref \<Rightarrow> kernel \<Rightarrow> kernel \<Rightarrow> bool" where
  "own_object r (Mutex_blocked m) s s' = mutex_step r (mutex_at s m) (mutex_at s' m)"
| "own_object r (Queue_blocked q) s s' = (queue_ok (queue_at s q) \<longrightarrow> queue_ok (queue_at s' q))"
| "own_object r (Semaphore_blocked p) s s' = True"
| "own_object r (Rwlock_blocked l) s s' = (rw_ok (rwlock_at s l) \<longrightarrow> rw_ok (rwlock_at s' l))"

lemma objects_kept_refl [simp]: "objects_kept s s"
  by (simp add: objects_kept_def)

lemma objects_kept_trans: "objects_kept s s' \<Longrightarrow> objects_kept s' s'' \<Longrightarrow> objects_kept s s''"
  by (simp add: objects_kept_def)

lemma own_object_rest:
  "mutex_rest (mutex_at s' m) = mutex_rest (mutex_at s m) \<Longrightarrow> own_object r (Mutex_blocked m) s s'"
  "queue_rest (queue_at s' q) = queue_rest (queue_at s q) \<Longrightarrow> own_object r (Queue_blocked q) s s'"
  "rwlock_rest (rwlock_at s' l) = rwlock_rest (rwlock_at s l) \<Longrightarrow> own_object r (Rwlock_blocked l) s s'"
proof -
  show "mutex_rest (mutex_at s' m) = mutex_rest (mutex_at s m) \<Longrightarrow> own_object r (Mutex_blocked m) s s'"
    by (simp add: mutex_rest_def mutex_step_def)
  show "queue_rest (queue_at s' q) = queue_rest (queue_at s q) \<Longrightarrow> own_object r (Queue_blocked q) s s'"
    by (drule queue_rest_eq(1)) simp
  show "rwlock_rest (rwlock_at s' l) = rwlock_rest (rwlock_at s l) \<Longrightarrow> own_object r (Rwlock_blocked l) s s'"
    by (simp add: rwlock_rest_def rw_ok_def)
qed

lemma well_doneI:
  assumes "others_kept b s s'" and "own_object r b s s'"
  shows "well_done r s s'"
proof -
  have "own_object r (Mutex_blocked m) s s'" "own_object r (Queue_blocked q) s s'"
    "own_object r (Rwlock_blocked l) s s'" for m q l
    using own_object_rest assms unfolding others_kept_def by metis+
  then show ?thesis by (simp add: well_done_def objects_kept_def)
qed

lemma well_done_objects: "same_objects s s' \<Longrightarrow> well_done r s s'"
  by (rule well_doneI [of "Semaphore_blocked 0"]) (simp_all add: others_kept_objects)

lemma well_done_refl [simp]: "well_done r s s"
  by (rule well_done_objects) simp

lemma well_done_inert:
  "mutex_at s' = mutex_at s \<Longrightarrow> queue_at s' = queue_at s \<Longrightarrow> rwlock_at s' = rwlock_at s \<Longrightarrow> well_done r s s'"
  by (simp add: well_done_def objects_kept_def mutex_step_def)

lemma settled_running: "settled r L s \<Longrightarrow> running s = Some r"
  using kernel_ok_flags(7) by (auto simp: settled_def)

lemma settled_idle: "settled r L s \<Longrightarrow> scheduled s = None \<Longrightarrow> \<exists>rs ws. kernel_ok s r rs ws L"
  by (auto simp: settled_def)

lemma settled_same: "kernel_ok s r rs ws L \<Longrightarrow> same_kernel s s' \<Longrightarrow> settled r L s'"
  unfolding settled_def using same_kernel_steady(4) by blast

lemma settled_gave_way: "gave_way s r ms L s' \<Longrightarrow> settled r L s'"
  unfolding settled_def gave_way_def by blast

text \<open>Memory, clock, trace and the request of the switch exception do not matter.\<close>

definition with_inputs :: "(u32 \<Rightarrow> u32) \<Rightarrow> u32 \<Rightarrow> u32 \<Rightarrow> bool \<Rightarrow> kernel \<Rightarrow> kernel" where
  "with_inputs m u mc p s = s\<lparr>mem := m, uptime := u, micros := mc, pendsv := p\<rparr>"

lemma with_inputs_simps [simp]:
  "task (with_inputs m u mc p s) = task s" "running (with_inputs m u mc p s) = running s"
  "scheduled (with_inputs m u mc p s) = scheduled s" "queue_at (with_inputs m u mc p s) = queue_at s"
  "get_blocked b (with_inputs m u mc p s) = get_blocked b s"
  "switched sp kind r (with_inputs m u mc p s) = with_inputs m u mc p (switched sp kind r s)"
  "with_inputs m' u' mc' p' (with_inputs m u mc p s) = with_inputs m' u' mc' p' s"
  by (cases b; simp add: with_inputs_def switched_def)+

lemma kernel_ok_inputs: "kernel_ok (with_inputs m u mc p s) r rs ws L = kernel_ok s r rs ws L"
proof -
  let ?s = "with_inputs m u mc p s"
  have q: "queues_ok ?s rs ws = queues_ok s rs ws"
    by (rule queues_ok_cong) (simp_all add: with_inputs_def)
  have "steady ?s r rs ws = steady s r rs ws"
    using q by (simp add: steady_def higher_exists_def higher_def has_idle_def) (simp add: with_inputs_def)
  moreover have "rooms_ok ?s L = rooms_ok s L" by (rule rooms_ok_cong) simp_all
  ultimately show ?thesis by (simp add: kernel_ok_def del: waits_for.simps)
qed

lemma settled_inputs: "settled r L (with_inputs m u mc p s) = settled r L s"
  by (simp add: settled_def kernel_ok_inputs)

section \<open>The contract\<close>

text \<open>\<open>permitted s r\<close>: the call may be made by \<open>r\<close> in \<open>s\<close>.\<close>

locale kernel_call =
  fixes call :: "'v os" and permitted :: "kernel \<Rightarrow> task_ptr \<Rightarrow> bool"
  assumes settles: "kernel_ok s r rs ws L \<Longrightarrow> permitted s r \<Longrightarrow>
    \<exists>v s' L'. call s = Some (Inr (v, s')) \<and> settled r L' s' \<and> well_done r s s'"
begin

lemma returns_orderly:
  assumes "orderly s" and "scheduled s = None" and "running s = Some r" and "permitted s r"
  obtains v s' where "call s = Some (Inr (v, s'))" "orderly s'" "well_done r s s'" "running s' = Some r"
proof -
  obtain rs ws L where "kernel_ok s r rs ws L"
    using assms(1-3) settled_idle settled_running unfolding orderly_def by (metis option.inject)
  from settles [OF this assms(4)] show thesis using that settled_running unfolding orderly_def by blast
qed

text \<open>A caller that does not look at the result.\<close>

lemma ignored: "kernel_call (ignore call) permitted"
proof
  fix s r rs ws L assume "kernel_ok s r rs ws L" "permitted s r"
  from settles [OF this] show "\<exists>v s' L'. ignore call s = Some (Inr (v, s')) \<and> settled r L' s' \<and> well_done r s s'"
    by (auto simp: exec)
qed

end

text \<open>A task may wait when it has no time to wait, or is not the idle task and waits for a later time.\<close>

definition may_ask :: "u32 \<Rightarrow> kernel \<Rightarrow> task_ptr \<Rightarrow> bool" where
  "may_ask to s r \<longleftrightarrow> to = 0 \<or> may_wait s r to"

section \<open>Waiting\<close>

interpretation delay_call: kernel_call "svc_delay ms" "\<lambda>s r. may_wait s r ms" for ms
proof
  fix s r rs ws L assume k: "kernel_ok s r rs ws L" and ms: "may_wait s r ms"
  note kd = kernel_okD [OF k]
  obtain s' where "svc_delay ms s = Some (Inr (OSS_ERROR_TO, s'))" "gave_way s r ms L s'" "same_objects s s'"
    by (rule delay_gives_way [OF kd(1,2) kd(4,5) ms])
  then show "\<exists>v s' L'. svc_delay ms s = Some (Inr (v, s')) \<and> settled r L' s' \<and> well_done r s s'"
    using settled_gave_way well_done_objects by blast
qed

interpretation abort_call: kernel_call "svc_abort code" "\<lambda>s r. idle s \<noteq> Some r" for code
proof
  fix s r rs ws L assume k: "kernel_ok s r rs ws L" and i: "idle s \<noteq> Some r"
  obtain s1 t s' rs' ws' w where s1:
    "osi_task_status_set r OS_TASK_STATUS_ABORTED s = Some (Inr (os_task_status_num OS_TASK_STATUS_ABORTED, s1))"
    "status_of s1 r = OS_TASK_STATUS_ABORTED" "running s1 = Some r" "scheduled s1 = None" "os_state s1 = os_state s"
    "osi_schedule s1 = Some (Inr (OSS_SUCCESS, s'))" "t \<noteq> r" "scheduled s' = Some t" "running s' = Some r"
    "set rs' \<union> set ws' = set rs \<union> set ws - {r}" "status_of s' r = OS_TASK_STATUS_ABORTED" "same_objects s s'"
    "\<And>sp kind. kernel_ok (switched sp kind r s') t rs' ws' (leave_rooms w t L)"
    by (rule retire [OF k i, of OS_TASK_STATUS_ABORTED]) (simp, rule that)
  have "svc_abort code s = Some (Inr (OSS_SUCCESS, s'))"
    using kernel_ok_flags(7) [OF k] s1(1,4,6-9)
    by (auto simp: svc_abort_def running_task_def schedule_if_needed_def assert_switching_def exec)
  then show "\<exists>v s' L'. svc_abort code s = Some (Inr (v, s')) \<and> settled r L' s' \<and> well_done r s s'"
    using settledI [OF s1(9,7,8,13)] well_done_objects [OF s1(12)] by blast
qed

text \<open>A handler that returns, and the tick that ends the endless loop behind it.\<close>

interpretation finish_call: kernel_call "seq [task_finish] osi_irs_systick"
  "\<lambda>s r. idle s \<noteq> Some r \<and> os_state s = OS_STATE_STARTED"
proof
  fix s r rs ws L assume k: "kernel_ok s r rs ws L" and p: "idle s \<noteq> Some r \<and> os_state s = OS_STATE_STARTED"
  have i: "idle s \<noteq> Some r" using p by simp
  obtain s1 t s' rs' ws' w where s1:
    "osi_task_status_set r OS_TASK_STATUS_FINISHED s = Some (Inr (os_task_status_num OS_TASK_STATUS_FINISHED, s1))"
    "status_of s1 r = OS_TASK_STATUS_FINISHED" "running s1 = Some r" "scheduled s1 = None" "os_state s1 = os_state s"
    "osi_schedule s1 = Some (Inr (OSS_SUCCESS, s'))" "t \<noteq> r" "scheduled s' = Some t" "running s' = Some r"
    "set rs' \<union> set ws' = set rs \<union> set ws - {r}" "status_of s' r = OS_TASK_STATUS_FINISHED" "same_objects s s'"
    "\<And>sp kind. kernel_ok (switched sp kind r s') t rs' ws' (leave_rooms w t L)"
    by (rule retire [OF k i disjI1 [OF refl]]) (rule that)
  have "status_of s r = OS_TASK_STATUS_ACTIVE" using steadyD(5) [OF kernel_okD(1) [OF k]] .
  then have "task_finish s = Some (Inr ((), s1))"
    using i kernel_ok_flags(7) [OF k] s1(1) by (auto simp: task_finish_def running_task_def exec)
  then have "seq [task_finish] osi_irs_systick s = Some (Inr (OSS_SUCCESS, s'))"
    using s1(4-6) p by (simp add: exec osi_irs_systick_def)
  then show "\<exists>v s' L'. seq [task_finish] osi_irs_systick s = Some (Inr (v, s')) \<and> settled r L' s' \<and> well_done r s s'"
    using settledI [OF s1(9,7,8,13)] well_done_objects [OF s1(12)] by blast
qed

interpretation tick_call: kernel_call osi_irs_systick "\<lambda>_ _. True"
proof
  fix s r rs ws L assume k: "kernel_ok s r rs ws L"
  note kd = kernel_okD [OF k] and fl = kernel_ok_flags [OF k]
  obtain s' where s': "osi_schedule s = Some (Inr (OSS_SUCCESS, s'))" "settled r L s'" "same_objects s s'"
    by (rule schedule_steady [OF kd(1,2,3) kd(4,5)])
  have "settled r L s" using k unfolding settled_def by blast
  with s' fl(8) show "\<exists>v s' L'. osi_irs_systick s = Some (Inr (v, s')) \<and> settled r L' s' \<and> well_done r s s'"
    using well_done_objects by (cases "os_state s = OS_STATE_STARTED") (auto simp: osi_irs_systick_def exec)
qed

section \<open>Mutexes\<close>

lemma settled_mutex: "kernel_ok s r rs ws L \<Longrightarrow> settled r L (with_mutex m ow lv s)"
  using settled_same [OF _ with_mutex_simps(2)] .

lemma well_done_mutex:
  "mutex_step r (mutex_at s m) ((mutex_at s m)\<lparr>m_owner := ow, m_level := lv\<rparr>) \<Longrightarrow> well_done r s (with_mutex m ow lv s)"
  "m_level (mutex_at s m) = 0 \<Longrightarrow> well_done r s (with_mutex m (Some r) 1 s)"
  "m_owner (mutex_at s m) = Some r \<Longrightarrow> well_done r s (with_mutex m (Some r) (m_level (mutex_at s m) + 1) s)"
  "m_owner (mutex_at s m) = Some r \<Longrightarrow> well_done r s (with_mutex m (Some r) (m_level (mutex_at s m) - 1) s)"
  by (rule well_doneI [OF others_kept_mutex]; simp add: with_mutex_def mutex_step_def)+

interpretation acquire_call: kernel_call "osi_mutex_acquire m to" "may_ask to" for m to
proof
  fix s r rs ws L assume k: "kernel_ok s r rs ws L" and p: "may_ask to s r"
  note fl = kernel_ok_flags [OF k]
  let ?b = "Mutex_blocked m"
  show "\<exists>v s' L'. osi_mutex_acquire m to s = Some (Inr (v, s')) \<and> settled r L' s' \<and> well_done r s s'"
  proof (cases "m_level (mutex_at s m) \<noteq> 0 \<and> m_owner (mutex_at s m) \<noteq> Some r \<and> to \<noteq> 0")
    case True
    then have ms: "may_wait s r to" using p by (simp add: may_ask_def)
    obtain s' where s': "block [mutex_blocked_enq m r, ignore (svc_block to (room_flag ?b))] s = Some (Inr ((), s'))"
      "gave_way s r to (L(?b := L ?b @ [r])) s'" "same_objects s s'"
      by (rule mutex_room.block_behind [OF k ms, of m]) simp
    then have "osi_mutex_acquire m to s = Some (Inr (OSS_ERROR_TO, s'))"
      using True fl by (simp add: osi_mutex_acquire_def running_task_def exec)
    then show ?thesis using s'(2,3) settled_gave_way well_done_objects by blast
  next
    case False
    then obtain v s' where s': "osi_mutex_acquire m to s = Some (Inr (v, s'))" "s' = s \<or>
        (\<exists>lv. s' = with_mutex m (Some r) lv s \<and> (m_level (mutex_at s m) = 0 \<and> lv = 1 \<or>
           m_owner (mutex_at s m) = Some r \<and> lv = m_level (mutex_at s m) + 1))"
      using mutex_acquire_free [OF fl(7), of m to] fl(2) by (auto split: if_splits)
    have "settled r L s" using k unfolding settled_def by blast
    then show ?thesis using s' settled_mutex [OF k] well_done_mutex(2,3) [of s m r] by auto
  qed
qed

interpretation release_call: kernel_call "osi_mutex_release m"
  "\<lambda>s r. m_owner (mutex_at s m) = Some r \<and> m_level (mutex_at s m) > 0" for m
proof
  fix s r rs ws L
  assume k: "kernel_ok s r rs ws L" and p: "m_owner (mutex_at s m) = Some r \<and> m_level (mutex_at s m) > 0"
  note fl = kernel_ok_flags [OF k]
  have free: "get_blocked (Mutex_blocked m) s = None" if "L (Mutex_blocked m) = []"
    using is_blocked_first [OF rooms_okD(1) [OF kernel_okD(2) [OF k], of "Mutex_blocked m"]] that by simp
  show "\<exists>v s' L'. osi_mutex_release m s = Some (Inr (v, s')) \<and> settled r L' s' \<and> well_done r s s'"
  proof (cases "m_level (mutex_at s m) = 1")
    case True
    show ?thesis
    proof (cases "L (Mutex_blocked m)")
      case Nil
      have "osi_mutex_release m s = Some (Inr (OSS_SUCCESS, with_mutex m None 0 s))"
        using mutex_release_eq(2) [of s m r] p fl(2,7) True free [OF Nil] by blast
      moreover have "well_done r s (with_mutex m None 0 s)"
        using p True by (intro well_done_mutex(1)) (simp add: mutex_step_def)
      ultimately show ?thesis using settled_mutex [OF k] by blast
    next
      case (Cons t ys)
      then obtain s' where s': "osi_mutex_release m s = Some (Inr (OSS_SUCCESS, s'))"
        "settled r (L(Mutex_blocked m := ys)) s'" "others_kept (Mutex_blocked m) s s'"
        using mutex_to_waiter [OF k _ True Cons] p by blast
      moreover have "well_done r s s'" by (rule well_doneI [OF s'(3)]) (use p True in \<open>simp add: mutex_step_def\<close>)
      ultimately show ?thesis by blast
    qed
  qed (use mutex_release_eq(1) [of s m r] p fl(7) settled_mutex [OF k] well_done_mutex(4) in blast)
qed

section \<open>Message queues\<close>

text \<open>A queue whose list of blocked tasks, found in the kernel, is empty or has a first task.\<close>

lemma room_cases:
  assumes "kernel_ok s r rs ws L"
  obtains "get_blocked b s = None" "L b = []" | t ys where "get_blocked b s = Some t" "L b = t # ys"
  using is_blocked_first [OF rooms_okD(1) [OF kernel_okD(2) [OF assms], of b]] by (cases "L b") auto

lemma settled_queue:
  assumes "kernel_ok s r rs ws L" and "b_tasks (q_blocked x) = b_tasks (q_blocked (queue_at s q))" and "queue_ok x"
  shows "settled r L (with_queue q x s)" "well_done r s (with_queue q x s)"
  using settled_same [OF assms(1) same_kernel_queue [OF assms(2)]]
    well_doneI [OF others_kept_queue, of r q s x] assms(3) by simp_all

lemma own_object_status:
  "queue_rest (queue_at s' q) = queue_rest ((queue_at s q)\<lparr>q_status := st\<rparr>) \<Longrightarrow> own_object r (Queue_blocked q) s s'"
  by (drule queue_rest_eq(1)) (simp add: queue_ok_def)

interpretation enqueue_call: kernel_call "osi_queue_enqueue q msg to"
  "\<lambda>s r. queue_ok (queue_at s q) \<and> may_ask to s r" for q msg to
proof
  fix s r rs ws L
  assume k: "kernel_ok s r rs ws L" and p: "queue_ok (queue_at s q) \<and> may_ask to s r"
  note fl = kernel_ok_flags [OF k]
  have ok: "queue_ok (queue_at s q)" using p by simp
  show "\<exists>v s' L'. osi_queue_enqueue q msg to s = Some (Inr (v, s')) \<and> settled r L' s' \<and> well_done r s s'"
  proof (cases "receiver_waits q s")
    case True
    then have c: "get_blocked (Queue_blocked q) s \<noteq> None" "q_status (queue_at s q) = OS_QUEUE_BLOCKED_RECEIVE"
      "qd_flags (q_def (queue_at s q)) AND OS_QUEUE_FLAGS_QUEUE_ONLY = 0"
      by (simp_all add: receiver_waits_def)
    then obtain t ys where "L (Queue_blocked q) = t # ys" using room_cases [OF k, of "Queue_blocked q"] by metis
    from message_to_receiver [OF k this c(2,3), of msg to] show ?thesis
      using well_doneI own_object_rest(2) by metis
  next
    case nr: False
    show ?thesis
    proof (cases "q_number (queue_at s q) = q_size (queue_at s q)")
      case full: True
      show ?thesis
      proof (cases "to = 0")
        case True
        have "osi_queue_enqueue q msg to s = Some (Inr (OSS_ERROR_MEM, s))"
          using True full nr fl by (simp add: osi_queue_enqueue_def running_task_def exec)
        then show ?thesis using settled_same [OF k] by (auto simp: same_kernel_def)
      next
        case False
        then have "may_wait s r to" using p by (simp add: may_ask_def)
        from sender_waits [OF k this False full nr, of msg] show ?thesis
          using settled_gave_way well_doneI own_object_status by metis
      qed
    next
      case False
      let ?y = "(put_message msg (queue_at s q))\<lparr>q_status := OS_QUEUE_FINE\<rparr>"
      have room: "length (queue_contents (queue_at s q)) < unat (q_size (queue_at s q))"
        using False queue_full [OF ok] by simp
      have "osi_queue_enqueue q msg to s = Some (Inr (OSS_SUCCESS, with_queue q ?y s))"
        using False nr fl queue_append_eq [OF ok, of msg] by (simp add: osi_queue_enqueue_def running_task_def exec)
      moreover have "queue_ok ?y" using msg_fifo.put_ok [OF ok room, of msg] by simp
      ultimately show ?thesis using settled_queue [OF k, of ?y q] by auto
    qed
  qed
qed

interpretation dequeue_call: kernel_call "osi_queue_dequeue q m0 to"
  "\<lambda>s r. queue_ok (queue_at s q) \<and> may_ask to s r" for q m0 to
proof
  fix s r rs ws L
  assume k: "kernel_ok s r rs ws L" and p: "queue_ok (queue_at s q) \<and> may_ask to s r"
  note fl = kernel_ok_flags [OF k]
  have ok: "queue_ok (queue_at s q)" using p by simp
  show "\<exists>v s' L'. osi_queue_dequeue q m0 to s = Some (Inr (v, s')) \<and> settled r L' s' \<and> well_done r s s'"
  proof (cases "queue_contents (queue_at s q)")
    case Nil
    show ?thesis
    proof (cases "to = 0")
      case True
      then show ?thesis using dequeue_nothing [OF fl(7,6) Nil] settled_same [OF k] by (auto simp: same_kernel_def)
    next
      case False
      then have "may_wait s r to" using p by (simp add: may_ask_def)
      from receiver_joins [OF k this False Nil] show ?thesis
        using settled_gave_way well_doneI own_object_status by metis
    qed
  next
    case (Cons v vs)
    show ?thesis
    proof (cases "get_blocked (Queue_blocked q) s \<noteq> None \<and> q_status (queue_at s q) = OS_QUEUE_BLOCKED_SEND")
      case True
      then obtain t ys where "L (Queue_blocked q) = t # ys" using room_cases [OF k, of "Queue_blocked q"] by metis
      from message_from_sender [OF k this _ ok Cons] True show ?thesis
        using well_doneI own_object.simps(2) by metis
    next
      case False
      let ?y = "snd (get_message (queue_at s q))"
      have "osi_queue_dequeue q m0 to s = Some (Inr ((OSS_SUCCESS, v), with_queue q ?y s))"
        using dequeue_taken [OF fl(7,6) ok, of m0 to] Cons False by (auto simp: exec)
      moreover have "queue_ok ?y" using msg_fifo.get_ok [OF ok Cons] by simp
      ultimately show ?thesis using settled_queue [OF k, of ?y q] by auto
    qed
  qed
qed

section \<open>Read-write locks\<close>

lemma settled_rwlock:
  assumes "kernel_ok s r rs ws L" and "b_tasks (r_blocked x) = b_tasks (r_blocked (rwlock_at s l))"
    and "rw_ok (rwlock_at s l) \<Longrightarrow> rw_ok x"
  shows "settled r L (with_rwlock l x s)" "well_done r s (with_rwlock l x s)"
  using settled_same [OF assms(1) same_kernel_rwlock [OF assms(2)]]
    well_doneI [OF others_kept_rwlock, of r l s x] assms(3) by simp_all

interpretation read_call: kernel_call "osi_rwlock_acquire_read l to" "may_ask to" for l to
proof
  fix s r rs ws L assume k: "kernel_ok s r rs ws L" and p: "may_ask to s r"
  note fl = kernel_ok_flags [OF k]
  have here: "settled r L s" using settled_same [OF k] by (simp add: same_kernel_def)
  show "\<exists>v s' L'. osi_rwlock_acquire_read l to s = Some (Inr (v, s')) \<and> settled r L' s' \<and> well_done r s s'"
  proof (cases "r_writers (rwlock_at s l) = 0 \<or> to = 0")
    case True
    let ?x = "(rwlock_at s l)\<lparr>r_readers := r_readers (rwlock_at s l) + 1\<rparr>"
    have "osi_rwlock_acquire_read l to s =
        (if r_writers (rwlock_at s l) = 0 then Some (Inr (OSS_SUCCESS, with_rwlock l ?x s))
         else Some (Inr (OSS_ERROR_TO, s)))"
      using True fl by (auto simp: osi_rwlock_acquire_read_def running_task_def exec with_rwlock_def)
    moreover have "rw_ok ?x" if "r_writers (rwlock_at s l) = 0"
      using that by (simp add: rw_ok_def)
    ultimately show ?thesis using settled_rwlock [OF k, of ?x l] here by (auto split: if_splits)
  next
    case False
    then have "may_wait s r to" using p by (simp add: may_ask_def)
    from rwlock_waits(1) [OF k this False] show ?thesis using settled_gave_way well_doneI own_object_rest(3) by metis
  qed
qed

interpretation write_call: kernel_call "osi_rwlock_acquire_write l to" "may_ask to" for l to
proof
  fix s r rs ws L assume k: "kernel_ok s r rs ws L" and p: "may_ask to s r"
  note fl = kernel_ok_flags [OF k]
  have here: "settled r L s" using settled_same [OF k] by (simp add: same_kernel_def)
  let ?free = "r_readers (rwlock_at s l) = 0 \<and> r_writers (rwlock_at s l) = 0"
  show "\<exists>v s' L'. osi_rwlock_acquire_write l to s = Some (Inr (v, s')) \<and> settled r L' s' \<and> well_done r s s'"
  proof (cases "?free \<or> to = 0")
    case True
    let ?x = "(rwlock_at s l)\<lparr>r_writers := r_writers (rwlock_at s l) + 1, r_writer := Some r\<rparr>"
    have "osi_rwlock_acquire_write l to s =
        (if ?free then Some (Inr (OSS_SUCCESS, with_rwlock l ?x s)) else Some (Inr (OSS_ERROR_TO, s)))"
      using True fl by (auto simp: osi_rwlock_acquire_write_def running_task_def exec with_rwlock_def)
    moreover have "rw_ok ?x" if ?free
      using that by (simp add: rw_ok_def)
    ultimately show ?thesis using settled_rwlock [OF k, of ?x l] here by (auto split: if_splits)
  next
    case False
    then have "may_wait s r to" using p by (simp add: may_ask_def)
    moreover from False have "\<not> (r_readers (rwlock_at s l) = 0 \<and> r_writers (rwlock_at s l) = 0 \<or> to = 0)" .
    ultimately show ?thesis using rwlock_waits(2) [OF k] settled_gave_way well_doneI own_object_rest(3) by metis
  qed
qed

text \<open>
  Releasing is permitted to a holder when nobody waits, and to the last holder when the task that
  has waited longest wants to write.  Waking readers is not: it leaves a runnable task above
  the running one without requesting a switch.
\<close>

definition may_release :: "rwlock_ptr \<Rightarrow> kernel \<Rightarrow> task_ptr \<Rightarrow> bool" where
  "may_release l s r \<longleftrightarrow>
     (let x = rwlock_at s l; write = (r_readers x = 0 \<and> r_writers x = 1 \<and> r_writer x = Some r)
      in case get_blocked (Rwlock_blocked l) s of
           None \<Rightarrow> r_readers x > 0 \<and> r_writers x = 0 \<or> write
         | Some t \<Rightarrow> (r_readers x = 1 \<and> r_writers x = 0 \<or> write) \<and> t_c (task s t) = OS_RWLOCK_DESIRED_WRITE)"

interpretation unlock_call: kernel_call "osi_rwlock_release l" "may_release l" for l
proof
  fix s r rs ws L assume k: "kernel_ok s r rs ws L" and p: "may_release l s r"
  note fl = kernel_ok_flags [OF k]
  let ?x = "rwlock_at s l" and ?s0 = "with_rwlock l (released (rwlock_at s l)) s"
  show "\<exists>v s' L'. osi_rwlock_release l s = Some (Inr (v, s')) \<and> settled r L' s' \<and> well_done r s s'"
  proof (rule room_cases [OF k, of "Rwlock_blocked l"])
    assume nb: "get_blocked (Rwlock_blocked l) s = None"
    then have held: "r_readers ?x > 0 \<and> r_writers ?x = 0 \<or>
        r_readers ?x = 0 \<and> r_writers ?x = 1 \<and> r_writer ?x = Some r"
      using p by (simp add: may_release_def Let_def)
    have rel: "osi_rwlock_release l s = bind (rwlock_wake l) (\<lambda>_. ret OSS_SUCCESS) ?s0"
      by (rule rwlock_release_eq) (use held fl in auto)
    have "get_blocked (Rwlock_blocked l) ?s0 = None" using nb by (simp add: get_blocked_with_rwlock)
    then have "osi_rwlock_release l s = Some (Inr (OSS_SUCCESS, ?s0))"
      unfolding rel by (simp add: rwlock_wake_def exec)
    moreover have "rw_ok (released ?x)" using held by (auto simp: rw_ok_def released_def)
    ultimately show ?thesis using settled_rwlock [OF k, of "released ?x" l] by auto
  next
    fix t ys assume t: "get_blocked (Rwlock_blocked l) s = Some t" "L (Rwlock_blocked l) = t # ys"
    then have "t_c (task s t) = OS_RWLOCK_DESIRED_WRITE" and
      "r_readers ?x = 1 \<and> r_writers ?x = 0 \<or> r_readers ?x = 0 \<and> r_writers ?x = 1 \<and> r_writer ?x = Some r"
      using p by (simp_all add: may_release_def Let_def)
    then obtain s' where s': "osi_rwlock_release l s = Some (Inr (OSS_SUCCESS, s'))"
      "settled r (L(Rwlock_blocked l := ys)) s'" "others_kept (Rwlock_blocked l) s s'"
      "r_writers (rwlock_at s' l) = 1" "r_readers (rwlock_at s' l) = 0"
      using rwlock_to_writer [OF k t(2)] by blast
    moreover have "well_done r s s'" by (rule well_doneI [OF s'(3)]) (use s'(4,5) in \<open>simp add: rw_ok_def\<close>)
    ultimately show ?thesis by blast
  qed
qed

section \<open>Semaphores and signals\<close>

text \<open>Semaphores only where nobody waits: a release to a waiting task fails.\<close>

lemma settled_tokens:
  assumes "kernel_ok s r rs ws L"
  shows "settled r L (with_tokens p n s)" "well_done r s (with_tokens p n s)"
proof -
  have "get_blocked b (with_tokens p n s) = get_blocked b s" for b by (cases b) (simp_all add: with_tokens_def)
  then have "same_kernel s (with_tokens p n s)"
    unfolding same_kernel_def by (simp add: task_core_def) (simp add: with_tokens_def)
  then show "settled r L (with_tokens p n s)" by (rule settled_same [OF assms])
qed (simp add: well_done_inert with_tokens_def)

interpretation take_call: kernel_call "osi_semaphore_acquire p to"
  "\<lambda>s r. s_tokens (semaphore_at s p) > 0 \<or> to = 0" for p to
proof
  fix s r rs ws L assume k: "kernel_ok s r rs ws L" and p: "s_tokens (semaphore_at s p) > 0 \<or> to = 0"
  note fl = kernel_ok_flags [OF k]
  have "settled r L s" using settled_same [OF k] by (simp add: same_kernel_def)
  moreover have "osi_semaphore_acquire p to s =
      (if s_tokens (semaphore_at s p) > 0
       then Some (Inr (OSS_SUCCESS, with_tokens p (s_tokens (semaphore_at s p) - 1) s))
       else Some (Inr (OSS_ERROR_TO, s)))"
    using p fl by (auto simp: osi_semaphore_acquire_def running_task_def exec with_tokens_def)
  ultimately show "\<exists>v s' L'. osi_semaphore_acquire p to s = Some (Inr (v, s')) \<and> settled r L' s' \<and> well_done r s s'"
    using settled_tokens [OF k] by (auto split: if_splits)
qed

interpretation give_call: kernel_call "osi_semaphore_release p"
  "\<lambda>s r. get_blocked (Semaphore_blocked p) s = None" for p
proof
  fix s r rs ws L assume k: "kernel_ok s r rs ws L" and p: "get_blocked (Semaphore_blocked p) s = None"
  have "osi_semaphore_release p s =
      Some (Inr (OSS_SUCCESS, with_tokens p (s_tokens (semaphore_at s p) + 1) s))"
    using p by (simp add: osi_semaphore_release_def exec with_tokens_def)
  then show "\<exists>v s' L'. osi_semaphore_release p s = Some (Inr (v, s')) \<and> settled r L' s' \<and> well_done r s s'"
    using settled_tokens [OF k] by auto
qed

interpretation signal_call: kernel_call "osi_signal t sig" "\<lambda>_ _. sig \<noteq> 0" for t sig
proof
  fix s r rs ws L assume k: "kernel_ok s r rs ws L" and p: "sig \<noteq> 0"
  have gb: "get_blocked b (with_signal t sig s) = get_blocked b s" for b by (cases b) (simp_all add: with_signal_def)
  have sk: "same_kernel s (with_signal t sig s)" "same_kernel s s"
    unfolding same_kernel_def gb by (simp_all add: with_signal_def task_core_def)
  have "osi_signal t sig s = Some (Inr (OSS_SUCCESS, s)) \<or> osi_signal t sig s = Some (Inr (OSS_ERROR_INVALID, s)) \<or>
      osi_signal t sig s = Some (Inr (OSS_SUCCESS, with_signal t sig s))"
    using p by (auto simp: osi_signal_def exec with_signal_def word_gt_0)
  moreover have "well_done r s (with_signal t sig s)" by (simp add: well_done_inert with_signal_def)
  ultimately show "\<exists>v s' L'. osi_signal t sig s = Some (Inr (v, s')) \<and> settled r L' s' \<and> well_done r s s'"
    using settled_same [OF k] sk well_done_refl by metis
qed

interpretation check_call: kernel_call osi_signal_check "\<lambda>_ _. True"
proof
  fix s r rs ws L assume k: "kernel_ok s r rs ws L"
  then have "osi_signal_check s = Some (Inr ((OSS_SUCCESS, t_signal (task s r)), s))"
    using kernel_ok_flags(7) by (simp add: osi_signal_check_def running_task_def exec)
  then show "\<exists>v s' L'. osi_signal_check s = Some (Inr (v, s')) \<and> settled r L' s' \<and> well_done r s s'"
    using settled_same [OF k, of s] by (auto simp: same_kernel_def)
qed

end
