(* ===== verification/TaskCalls.thy ===== *)
theory TaskCalls
  imports KernelCalls
begin

text \<open>
  The calls that change other tasks: suspending, resuming and starting them
  (\<open>os_task_suspend\<close>, \<open>os_task_resume\<close>, \<open>os_task_start_options\<close> of \<open>src/src/os.c\<close>), as instances
  of the contract of the kernel's calls.
\<close>

section \<open>A task enters or leaves the run queue\<close>

lemma kernel_ok_other:
  assumes k: "kernel_ok s r rs ws L" and t: "t \<noteq> r" "idle s \<noteq> Some t" "\<And>b. t \<notin> set (L b)" "t \<notin> set ws"
    and q: "queues_ok s' rs' ws"
    and rs': "set rs - {t} \<subseteq> set rs'" "set rs' \<subseteq> insert t (set rs)"
    and same: "running s' = running s" "scheduled s' = scheduled s" "idle s' = idle s"
      "\<And>b. get_blocked b s' = get_blocked b s"
    and others: "\<And>x. x \<noteq> t \<Longrightarrow> status_of s' x = status_of s x" "\<And>x. x \<noteq> t \<Longrightarrow> prio_of s' x = prio_of s x"
      "\<And>x. x \<noteq> t \<Longrightarrow> nblocked_of s' x = nblocked_of s x"
      "\<And>x w. x \<noteq> t \<Longrightarrow> waits_for (task s' x) w = waits_for (task s x) w"
    and tt: "nblocked_of s' t = None" "t \<in> set rs' \<Longrightarrow> 0 < prio_of s' t \<and> prio_of s' t \<le> prio_of s r"
      "waits_for (task s' t) None"
  shows "kernel_ok s' r rs' ws L"
proof -
  note kd = kernel_okD [OF k]
  note sd = steadyD [OF kd(1)]
  have "nblocked_of s t = None" using rooms_okD(3) [OF kd(2) t(3)] .
  then have nb: "nblocked_of s' x = nblocked_of s x" for x using others(3) [of x] tt(1) by (cases "x = t") auto
  have bl: "is_blocked b s' xs = is_blocked b s xs" for b xs by (simp add: is_blocked_def nb same(4))
  have wf: "x \<in> set (L b) \<Longrightarrow> waits_for (task s' x) w = waits_for (task s x) w" for x b w
    using others(4) [of x] t(3) [of b] by (cases "x = t") auto
  have "rooms_ok s' L"
    using rooms_okD [OF kd(2)] wf unfolding rooms_ok_def bl nb by blast
  moreover have "steady s' r rs' ws"
  proof -
    have "\<not> higher s' x r" if "x \<in> set rs'" for x
      using that sd(6) [of x] rs'(2) others(2) [of x] others(2) [of r] t(1) tt(2)
      by (cases "x = t") (auto simp: higher_def not_less)
    moreover have "has_idle s' rs' ws"
    proof -
      obtain i where i: "i \<in> set rs" "idle s = Some i" "prio_of s i = 0"
        and only: "\<And>x. x \<in> set rs \<union> set ws \<Longrightarrow> prio_of s x = 0 \<Longrightarrow> x = i"
        using sd(8) by (auto simp: has_idle_def)
      have it: "i \<noteq> t" using i(2) t(2) by auto
      have "x = i" if "x \<in> set rs' \<union> set ws" "prio_of s' x = 0" for x
        using that only [of x] others(2) [of x] rs'(2) tt(2) t(4) by (cases "x = t") auto
      moreover have "i \<in> set rs'" "prio_of s' i = 0" using it i rs'(1) others(2) [OF it] by auto
      ultimately show ?thesis using i(2) same(3) unfolding has_idle_def by metis
    qed
    moreover have "prio_of s' w \<le> 0xff" if "w \<in> set ws" for w
      using that sd(7) others(2) [of w] t(4) by (cases "w = t") auto
    ultimately show ?thesis
      using q sd(2-5) same others(1) [of r] t(1) rs'(1) unfolding steady_def higher_exists_def by auto
  qed
  moreover have "waits_for (task s' r) None" using kd(3) others(4) [of r None] t(1) by simp
  moreover have "\<exists>w. waits_for (task s' x) w" if "x \<in> set rs' \<union> set ws" for x
    using that kd(4) [of x] others(4) [of x] tt(3) rs'(2) by (cases "x = t") (auto simp del: waits_for.simps)
  moreover have "set (L b) \<subseteq> set rs' \<union> set ws" for b using kd(5) [of b] rs'(1) t(3) [of b] by auto
  ultimately show ?thesis unfolding kernel_ok_def by blast
qed

text \<open>A task in neither queue is in no blocked list.\<close>

lemma outside:
  assumes k: "kernel_ok s r rs ws L" and st: "\<not> os_task_status_is_alive (status_of s t)"
  shows "t \<notin> set rs" "t \<notin> set ws" "t \<notin> set (L b)" "t \<noteq> r" "idle s \<noteq> Some t" "nblocked_of s t = None"
proof -
  note kd = kernel_okD [OF k]
  note q = queues_okD [OF steadyD(1) [OF kd(1)]]
  show rs: "t \<notin> set rs" and ws: "t \<notin> set ws"
    using q(7) [of t] q(9) [of t] st
    by (auto simp: os_task_status_is_alive_def os_task_status_is_running_def)
  show l: "t \<notin> set (L b)" for b using kd(5) [of b] rs ws by auto
  show "t \<noteq> r" using rs steadyD(4) [OF kd(1)] by blast
  show "idle s \<noteq> Some t" using rs steadyD(8) [OF kd(1)] by (auto simp: has_idle_def)
  show "nblocked_of s t = None" using rooms_okD(3) [OF kd(2) l] .
qed

section \<open>Suspending and resuming\<close>

text \<open>
  Another task may be suspended when it is runnable and waits for nothing.  A task whose time
  limit has passed is runnable too but stays in the blocked list until it runs; suspending it
  would leave it there.
\<close>

definition may_suspend :: "task_ptr \<Rightarrow> kernel \<Rightarrow> task_ptr \<Rightarrow> bool" where
  "may_suspend t s r \<longleftrightarrow> t \<noteq> r \<and> status_of s t = OS_TASK_STATUS_IDLE \<and> idle s \<noteq> Some t \<and>
     waits_for (task s t) None"

definition may_resume :: "task_ptr \<Rightarrow> kernel \<Rightarrow> task_ptr \<Rightarrow> bool" where
  "may_resume t s r \<longleftrightarrow> status_of s t = OS_TASK_STATUS_SUSPENDED \<and> waits_for (task s t) None \<and>
     0 < prio_of s t \<and> prio_of s t \<le> prio_of s r"

interpretation suspend_call: kernel_call "os_task_suspend (Some t)" "may_suspend t" for t
proof
  fix s r rs ws L assume k: "kernel_ok s r rs ws L" and p: "may_suspend t s r"
  note kd = kernel_okD [OF k]
  note sd = steadyD [OF kd(1)]
  let ?st = OS_TASK_STATUS_SUSPENDED
  let ?s = "after_status s rs ws t ?st"
  have t: "t \<noteq> r" "idle s \<noteq> Some t" "waits_for (task s t) None" "status_of s t = OS_TASK_STATUS_IDLE"
    using p by (simp_all add: may_suspend_def del: waits_for.simps)
  have w: "t \<notin> set ws" using queues_okD(9) [OF sd(1), of t] t(4) by auto
  have c: "can_become s rs ws t ?st" by (simp add: can_become_def)
  have set: "os_task_suspend (Some t) s = Some (Inr (OSS_SUCCESS, ?s))"
    using osi_task_status_set_eq [OF sd(1) c] t(4) by (simp add: os_task_suspend_def exec)
  have q: "queues_ok ?s (remove1 t rs) ws"
    using after_status_ok [OF sd(1) c] w by (simp add: next_run_def next_wait_def remove1_idem)
  have wf: "waits_for (task ?s x) v = waits_for (task s x) v" for x v by (rule waits_for_cong) simp_all
  have "kernel_ok ?s r (remove1 t rs) ws L"
    by (rule kernel_ok_other [OF k t(1,2) not_in_rooms(1) [OF kd(2) t(3)] w q])
      (use queues_okD(15) [OF sd(1)] t not_in_rooms(2) [OF kd(2) t(3)] wf in \<open>auto simp del: waits_for.simps\<close>)
  moreover have "same_objects s ?s" by (rule same_objects_eqI) (simp_all add: task_rest_def)
  ultimately show "\<exists>v s' L'. os_task_suspend (Some t) s = Some (Inr (v, s')) \<and> settled r L' s' \<and> well_done r s s'"
    using set well_done_objects unfolding settled_def by blast
qed

text \<open>
  Resuming a task, like starting one, requests no switch, so a task of higher priority is not
  permitted: it would not run before the next tick.
\<close>

interpretation resume_call: kernel_call "os_task_resume (Some t)" "may_resume t" for t
proof
  fix s r rs ws L assume k: "kernel_ok s r rs ws L" and p: "may_resume t s r"
  note kd = kernel_okD [OF k]
  note sd = steadyD [OF kd(1)]
  let ?st = OS_TASK_STATUS_IDLE
  let ?s = "after_status s rs ws t ?st" and ?rs = "insert_before (higher s) t rs"
  have t: "status_of s t = OS_TASK_STATUS_SUSPENDED" "waits_for (task s t) None"
    "0 < prio_of s t" "prio_of s t \<le> prio_of s r"
    using p by (simp_all add: may_resume_def del: waits_for.simps)
  have "\<not> os_task_status_is_alive (status_of s t)" using t(1) by (simp add: os_task_status_is_alive_def)
  note o = outside [OF k this]
  have "prio_of s t \<le> 0xff" using t(4) queues_okD(8) [OF sd(1,4)] by (rule order_trans)
  with o(1) have c: "can_become s rs ws t ?st" by (simp add: can_become_def)
  have set: "os_task_resume (Some t) s = Some (Inr (OSS_SUCCESS, ?s))"
    using osi_task_status_set_eq [OF sd(1) c] t(1) by (simp add: os_task_resume_def exec)
  have q: "queues_ok ?s ?rs ws"
    using after_status_ok [OF sd(1) c] o(2) by (simp add: next_run_def next_wait_def remove1_idem)
  have wf: "waits_for (task ?s x) v = waits_for (task s x) v" for x v by (rule waits_for_cong) simp_all
  have "kernel_ok ?s r ?rs ws L"
    by (rule kernel_ok_other [OF k o(4,5,3,2) q]) (use t o wf in \<open>auto simp del: waits_for.simps\<close>)
  moreover have "same_objects s ?s" by (rule same_objects_eqI) (simp_all add: task_rest_def)
  ultimately show "\<exists>v s' L'. os_task_resume (Some t) s = Some (Inr (v, s')) \<and> settled r L' s' \<and> well_done r s s'"
    using set well_done_objects unfolding settled_def by blast
qed

section \<open>Starting a task again\<close>

text \<open>
  A task that has ended may be started again with a priority no higher than the caller's,
  unless it still points to a semaphore: that pointer is not cleared.
\<close>

definition may_start :: "task_ptr \<Rightarrow> u8 \<Rightarrow> kernel \<Rightarrow> task_ptr \<Rightarrow> bool" where
  "may_start t priority s r \<longleftrightarrow> \<not> os_task_status_is_alive (status_of s t) \<and> t_semaphore (task s t) = None \<and>
     t_stack_size (task s t) mod 4 = 0 \<and> OS_STACK_MINIMUM_SIZE \<le> t_stack_size (task s t) \<and>
     unat (t_stack (task s t)) + unat (t_stack_size (task s t)) \<le> 2 ^ 32 \<and>
     priority \<noteq> 0 \<and> ucast priority \<le> prio_of s r"

text \<open>The task and the memory before it is queued.\<close>

definition restarted :: "(u32 \<Rightarrow> u32) \<Rightarrow> task_ptr \<Rightarrow> u8 \<Rightarrow> u32 \<Rightarrow> kernel \<Rightarrow> kernel" where
  "restarted m t priority params s = s\<lparr>mem := m, task := (task s)(t := (task s t)
     \<lparr>t_stack_kind := 0, t_delay := 0, t_flags := 0, t_queue := None, t_mutex := None, t_rwlock := None,
      t_c := 0, t_nblocked := None, t_params := params, t_started := uptime s, t_runtime := 0, t_scheduled := 0,
      t_priority := ucast priority, t_signal := 0,
      t_sp := stack_top (t_stack (task s t)) (t_stack_size (task s t)), t_status := OS_TASK_STATUS_IDLE\<rparr>)\<rparr>"

lemma restarted_simps [simp]:
  "running (restarted m t p a s) = running s" "scheduled (restarted m t p a s) = scheduled s"
  "idle (restarted m t p a s) = idle s" "get_blocked b (restarted m t p a s) = get_blocked b s"
  "runqueue (restarted m t p a s) = runqueue s" "waitqueue (restarted m t p a s) = waitqueue s"
  "queue_at (restarted m t p a s) = queue_at s"
  "x \<noteq> t \<Longrightarrow> task (restarted m t p a s) x = task s x"
  "nrp_of (restarted m t p a s) x = nrp_of s x"
  "status_of (restarted m t p a s) t = OS_TASK_STATUS_IDLE" "prio_of (restarted m t p a s) t = ucast p"
  "nblocked_of (restarted m t p a s) t = None"
  by (cases b; simp add: restarted_def)+

lemma start_restarted:
  assumes "may_start t p s r"
  obtains m where "os_task_start_options (Some t) p a s =
    seq [waitqueue_remove Waitqueue t, runqueue_remove Runqueue t, runqueue_add Runqueue t,
         call_status_hook t OS_TASK_STATUS_FINISHED] (ret OSS_SUCCESS) (restarted m t p a s)"
proof -
  have sz: "t_stack_size (task s t) mod 4 = 0" "OS_STACK_MINIMUM_SIZE \<le> t_stack_size (task s t)"
    "unat (t_stack (task s t)) + unat (t_stack_size (task s t)) \<le> 2 ^ 32"
    and st: "status_of s t \<noteq> OS_TASK_STATUS_IDLE \<and> status_of s t \<noteq> OS_TASK_STATUS_ACTIVE"
    using assms by (simp_all add: may_start_def os_task_status_is_alive_def)
  let ?s = "s\<lparr>task := (task s)(t := (task s t)\<lparr>t_stack_kind := 0, t_delay := 0, t_flags := 0, t_queue := None,
    t_mutex := None, t_rwlock := None, t_c := 0, t_nblocked := None, t_params := a,
    t_started := uptime s, t_runtime := 0, t_scheduled := 0, t_priority := ucast p, t_signal := 0\<rparr>)\<rparr>"
  let ?m = "initial_stack ?s t (t_stack (task s t)) (t_stack_size (task s t))"
  have stk: "initialize_stack t (t_stack (task s t)) (t_stack_size (task s t)) ?s =
      Some (Inr (stack_top (t_stack (task s t)) (t_stack_size (task s t)), ?s\<lparr>mem := ?m\<rparr>))"
    by (rule initialize_stack_eq [OF sz])
  have "os_task_start_options (Some t) p a s =
    seq [waitqueue_remove Waitqueue t, runqueue_remove Runqueue t, runqueue_add Runqueue t,
         call_status_hook t OS_TASK_STATUS_FINISHED] (ret OSS_SUCCESS) (restarted ?m t p a s)"
    using st stk by (simp add: os_task_start_options_def exec restarted_def)
  then show thesis by (rule that)
qed

lemma queues_ok_restarted:
  assumes q: "queues_ok s rs ws" and t: "t \<notin> set rs" "t \<notin> set ws"
  shows "queues_ok (restarted m t p a s) rs ws"
proof -
  let ?s = "restarted m t p a s"
  have "links_ok ?s rs ws = links_ok s rs ws" by (rule links_ok_cong) simp_all
  then have l: "links_ok ?s rs ws" using queues_okD(1) [OF q] by simp
  have eq: "task ?s x = task s x" if "x \<in> set rs \<union> set ws" for x using that t by (cases "x = t") auto
  have "\<not> higher ?s y x" if "x \<in> set rs" "y \<in> set rs" "\<not> higher s y x" for x y
    using that eq [of x] eq [of y] by (simp add: higher_def)
  then have r: "sorted_wrt (\<lambda>x y. \<not> higher ?s y x) rs"
    by (rule sorted_wrt_mono_rel [OF _ queues_okD(5) [OF q]])
  have "\<not> earlier ?s y x" if "x \<in> set ws" "y \<in> set ws" "\<not> earlier s y x" for x y
    using that eq [of x] eq [of y] by (simp add: earlier_def)
  then have w: "sorted_wrt (\<lambda>x y. \<not> earlier ?s y x) ws"
    by (rule sorted_wrt_mono_rel [OF _ queues_okD(6) [OF q]])
  have "os_task_status_is_running (status_of ?s x) \<and> prio_of ?s x \<le> 0xff" if "x \<in> set rs" for x
    using eq [of x] that queues_okD(7,8) [OF q that] by simp
  moreover have "status_of ?s x = OS_TASK_STATUS_WAIT" if "x \<in> set ws" for x
    using that eq [of x] queues_okD(9) [OF q that] by simp
  ultimately show ?thesis
    using l r w links_ok_run [OF l] links_ok_wait [OF l] unfolding queues_ok_def rq_ok_def wq_ok_def by blast
qed

interpretation start_call: kernel_call "os_task_start_options (Some t) p a" "may_start t p" for t p a
proof
  fix s r rs ws L assume k: "kernel_ok s r rs ws L" and p: "may_start t p s r"
  note kd = kernel_okD [OF k]
  note sd = steadyD [OF kd(1)]
  have "\<not> os_task_status_is_alive (status_of s t)" using p by (simp add: may_start_def)
  note o = outside [OF k this]
  obtain m where start: "os_task_start_options (Some t) p a s =
    seq [waitqueue_remove Waitqueue t, runqueue_remove Runqueue t, runqueue_add Runqueue t,
         call_status_hook t OS_TASK_STATUS_FINISHED] (ret OSS_SUCCESS) (restarted m t p a s)"
    by (rule start_restarted [OF p])
  let ?s = "restarted m t p a s"
  let ?rs = "insert_before (higher ?s) t rs"
  let ?s' = "hooked t OS_TASK_STATUS_FINISHED (queued ?rs ws ?s)"
  have q: "queues_ok ?s rs ws" by (rule queues_ok_restarted [OF sd(1) o(1,2)])
  note qd = queues_okD [OF q]
  have "(ucast p :: u32) = 0 \<longleftrightarrow> p = 0" by transfer simp
  then have pr: "prio_of ?s t \<le> prio_of s r" "0 < prio_of ?s t" "t_semaphore (task s t) = None"
    using p by (simp_all add: may_start_def word_gt_0)
  have ff: "prio_of ?s t \<le> 0xff" using pr(1) queues_okD(8) [OF sd(1,4)] by (rule order_trans)
  have add: "runqueue_add Runqueue t ?s = Some (Inr ((), queued ?rs ws ?s))"
    by (rule runqueue_add_queued_eq [OF qd(1,4) o(1,2) _ ff]) simp
  have call: "os_task_start_options (Some t) p a s = Some (Inr (OSS_SUCCESS, ?s'))"
    using add waitqueue_remove_queued [OF qd(1), of t] runqueue_remove_queued [OF qd(1), of t] queued_id [OF qd(1)] o(1,2)
    unfolding start by (simp add: exec remove1_idem)
  have q': "queues_ok ?s' ?rs ws"
  proof -
    have "queues_ok (queued ?rs ws (hooked t OS_TASK_STATUS_FINISHED ?s)) ?rs ws"
    proof (rule queued_ok)
      show "sorted_wrt (\<lambda>x y. \<not> higher (hooked t OS_TASK_STATUS_FINISHED ?s) y x) ?rs"
        using qd(5) by (simp add: prio.sorted_insert_before)
    qed (use qd o(1,2) ff in auto)
    then show ?thesis by (simp add: hooked_queued)
  qed
  have wf: "x \<noteq> t \<Longrightarrow> waits_for (task ?s' x) v = waits_for (task s x) v" for x v by (rule waits_for_cong) simp_all
  have wt: "waits_for (task ?s' t) None" using pr(3) by (simp add: restarted_def)
  have "kernel_ok ?s' r ?rs ws L"
    by (rule kernel_ok_other [OF k o(4,5,3,2) q']) (use wf wt pr in \<open>auto simp: hooked_def simp del: waits_for.simps\<close>)
  moreover have "well_done r s ?s'" by (rule well_done_inert) (simp_all add: hooked_def restarted_def)
  ultimately show "\<exists>v s' L'. os_task_start_options (Some t) p a s = Some (Inr (v, s')) \<and> settled r L' s' \<and> well_done r s s'"
    using call unfolding settled_def by blast
qed

end
