(* ===== verification/KernelRuns.thy ===== *)
theory KernelRuns
  imports TaskCalls
begin

text \<open>
  The running system: whatever permitted calls the tasks make, whenever the timer ticks and the
  processor switches, the kernel stays orderly, none of its assertions fails and none of its
  loops goes on for ever.
\<close>

section \<open>The calls of the tasks\<close>

datatype request =
  Call_delay u32
| Call_abort u32
| Call_finish
| Call_acquire mutex_ptr u32
| Call_release mutex_ptr
| Call_enqueue queue_ptr u32 u32
| Call_dequeue queue_ptr u32
| Call_read rwlock_ptr u32
| Call_write rwlock_ptr u32
| Call_unlock rwlock_ptr
| Call_take semaphore_ptr u32
| Call_give semaphore_ptr
| Call_signal task_ptr u32
| Call_check
| Call_suspend task_ptr
| Call_resume task_ptr
| Call_start task_ptr u8 u32

fun perform :: "request \<Rightarrow> unit os" where
  "perform (Call_delay ms) = ignore (svc_delay ms)"
| "perform (Call_abort code) = ignore (svc_abort code)"
| "perform Call_finish = ignore (seq [task_finish] osi_irs_systick)"
| "perform (Call_acquire m to) = ignore (osi_mutex_acquire m to)"
| "perform (Call_release m) = ignore (osi_mutex_release m)"
| "perform (Call_enqueue q msg to) = ignore (osi_queue_enqueue q msg to)"
| "perform (Call_dequeue q to) = ignore (osi_queue_dequeue q 0 to)"
| "perform (Call_read l to) = ignore (osi_rwlock_acquire_read l to)"
| "perform (Call_write l to) = ignore (osi_rwlock_acquire_write l to)"
| "perform (Call_unlock l) = ignore (osi_rwlock_release l)"
| "perform (Call_take p to) = ignore (osi_semaphore_acquire p to)"
| "perform (Call_give p) = ignore (osi_semaphore_release p)"
| "perform (Call_signal t sig) = ignore (osi_signal t sig)"
| "perform Call_check = ignore osi_signal_check"
| "perform (Call_suspend t) = ignore (os_task_suspend (Some t))"
| "perform (Call_resume t) = ignore (os_task_resume (Some t))"
| "perform (Call_start t priority params) = ignore (os_task_start_options (Some t) priority params)"

text \<open>
  What the kernel expects of its caller: the idle task does not wait and does not end, a time
  limit lies ahead of the clock, queues have been created, mutexes and locks are released by
  their holder, signals are not zero; and what the errors found in the code rule out:
  waiting for a semaphore, waking readers, suspending a task whose wait timed out, and making a task
  runnable that has a higher priority than its caller.
\<close>

fun permitted :: "request \<Rightarrow> kernel \<Rightarrow> task_ptr \<Rightarrow> bool" where
  "permitted (Call_delay ms) = (\<lambda>s r. may_wait s r ms)"
| "permitted (Call_abort code) = (\<lambda>s r. idle s \<noteq> Some r)"
| "permitted Call_finish = (\<lambda>s r. idle s \<noteq> Some r \<and> os_state s = OS_STATE_STARTED)"
| "permitted (Call_acquire m to) = may_ask to"
| "permitted (Call_release m) = (\<lambda>s r. m_owner (mutex_at s m) = Some r \<and> m_level (mutex_at s m) > 0)"
| "permitted (Call_enqueue q msg to) = (\<lambda>s r. queue_ok (queue_at s q) \<and> may_ask to s r)"
| "permitted (Call_dequeue q to) = (\<lambda>s r. queue_ok (queue_at s q) \<and> may_ask to s r)"
| "permitted (Call_read l to) = may_ask to"
| "permitted (Call_write l to) = may_ask to"
| "permitted (Call_unlock l) = may_release l"
| "permitted (Call_take p to) = (\<lambda>s r. s_tokens (semaphore_at s p) > 0 \<or> to = 0)"
| "permitted (Call_give p) = (\<lambda>s r. get_blocked (Semaphore_blocked p) s = None)"
| "permitted (Call_signal t sig) = (\<lambda>s r. sig \<noteq> 0)"
| "permitted Call_check = (\<lambda>s r. True)"
| "permitted (Call_suspend t) = may_suspend t"
| "permitted (Call_resume t) = may_resume t"
| "permitted (Call_start t priority params) = may_start t priority"

interpretation request_call: kernel_call "perform c" "permitted c" for c
  by (cases c)
    (simp_all only: perform.simps permitted.simps delay_call.ignored abort_call.ignored finish_call.ignored
      acquire_call.ignored release_call.ignored enqueue_call.ignored dequeue_call.ignored
      read_call.ignored write_call.ignored unlock_call.ignored take_call.ignored give_call.ignored
      signal_call.ignored check_call.ignored suspend_call.ignored resume_call.ignored start_call.ignored)

section \<open>Steps of the system\<close>

text \<open>
  The running task makes a call, the timer ticks, the switch exception runs with the stack
  pointer of the running task inside its stack, or memory, clock and the request of the switch
  change: the work of the application and of the hardware.
\<close>

inductive kstep :: "kernel \<Rightarrow> kernel \<Rightarrow> bool" where
  call: "scheduled s = None \<Longrightarrow> running s = Some r \<Longrightarrow> permitted c s r \<Longrightarrow>
     perform c s = Some (Inr ((), s')) \<Longrightarrow> kstep s s'"
| tick: "osi_irs_systick s = Some (Inr (v, s')) \<Longrightarrow> kstep s s'"
| switch: "running s = Some r \<Longrightarrow> scheduled s = Some t \<Longrightarrow> stack_ok s r sp \<Longrightarrow>
     PendSV_Handler sp kind s = Some (Inr ((), s')) \<Longrightarrow> kstep s s'"
| work: "kstep s (with_inputs m u mc p s)"

lemma orderly_running: "orderly s \<Longrightarrow> \<exists>r. running s = Some r"
  using settled_running by (auto simp: orderly_def)

lemma tick_orderly:
  assumes "orderly s"
  shows "\<exists>v s'. osi_irs_systick s = Some (Inr (v, s')) \<and> orderly s' \<and> (\<exists>r. running s = Some r \<and> well_done r s s')"
proof (cases "scheduled s")
  case None
  obtain r where "running s = Some r" using orderly_running [OF assms] by blast
  then show ?thesis using tick_call.returns_orderly [OF assms None] by metis
next
  case (Some t)
  then have "osi_irs_systick s = Some (Inr (OSS_SUCCESS, s))" by (simp add: osi_irs_systick_def exec)
  then show ?thesis using assms orderly_running [OF assms] by auto
qed

lemma switch_orderly:
  assumes o: "orderly s" and r: "running s = Some r" "scheduled s = Some t" and sp: "stack_ok s r sp"
  shows "\<exists>s'. PendSV_Handler sp kind s = Some (Inr ((), s')) \<and> orderly s' \<and> well_done r s s'"
proof -
  obtain L where "settled r L s" using o r settled_running unfolding orderly_def by (metis option.inject)
  then obtain rs ws w where k: "PendSV_Handler sp kind s = Some (Inr ((), switched sp kind r s))"
    "kernel_ok (switched sp kind r s) t rs ws (leave_rooms w t L)"
    by (rule settled_switched [OF _ r(2,1) sp])
  have "orderly (switched sp kind r s)" using k(2) by (auto simp: orderly_def settled_def)
  moreover have "well_done r s (switched sp kind r s)" by (rule well_done_inert) (simp_all add: switched_def)
  ultimately show ?thesis using k(1) by blast
qed

lemma call_orderly:
  assumes "orderly s" "scheduled s = None" "running s = Some r" "permitted c s r"
  shows "\<exists>s'. perform c s = Some (Inr ((), s')) \<and> orderly s' \<and> well_done r s s'"
  using request_call.returns_orderly [OF assms] by (metis old.unit.exhaust)

lemma kstep_orderly:
  assumes "kstep s s'" and o: "orderly s"
  obtains r where "running s = Some r" "orderly s'" "well_done r s s'"
  using assms(1)
proof cases
  case (call r c)
  then show thesis using that call_orderly [OF o call(1-3)] by auto
next
  case (tick v)
  then show thesis using that tick_orderly [OF o] by auto
next
  case (switch r t sp kind)
  with switch_orderly [OF o switch(1-3), of kind] show thesis using that [of r] by auto
next
  case (work m u mc p)
  then have "orderly s'" using o by (auto simp: orderly_def settled_inputs)
  moreover have "well_done r s s'" for r unfolding work by (rule well_done_inert) (simp_all add: with_inputs_def)
  ultimately show thesis using that orderly_running [OF o] by blast
qed

lemma run_orderly: "rtranclp kstep s s' \<Longrightarrow> orderly s \<Longrightarrow> orderly s' \<and> objects_kept s s'"
proof (induction rule: rtranclp_induct)
  case (step y z)
  then obtain r where "orderly z" "well_done r y z" using kstep_orderly by blast
  with step show ?case using objects_kept_trans by (auto simp: well_done_def)
qed simp

section \<open>What the kernel promises its tasks\<close>

text \<open>
  C1: the kernel never fails.  In every state a run can reach from an orderly state, however calls, ticks
  and switches follow one another: each permitted call of the running task returns, so does
  the tick, and so does a pending switch as long as the stack of the task has not overflowed;
  no assertion of the kernel fails and no loop goes on for ever.  Queues with valid storage
  keep it.
\<close>

theorem kernel_never_fails:
  assumes "orderly s0" and "rtranclp kstep s0 s"
  shows "(\<forall>r c. scheduled s = None \<and> running s = Some r \<and> permitted c s r \<longrightarrow>
      (\<exists>s'. perform c s = Some (Inr ((), s')) \<and> orderly s')) \<and>
    (\<exists>v s'. osi_irs_systick s = Some (Inr (v, s')) \<and> orderly s') \<and>
    (\<forall>r t sp kind. running s = Some r \<and> scheduled s = Some t \<and> stack_ok s r sp \<longrightarrow>
      (\<exists>s'. PendSV_Handler sp kind s = Some (Inr ((), s')) \<and> orderly s')) \<and>
    (\<forall>q. queue_ok (queue_at s0 q) \<longrightarrow> queue_ok (queue_at s q))"
proof -
  have o: "orderly s" and k: "objects_kept s0 s" using run_orderly [OF assms(2,1)] by auto
  show ?thesis
    using call_orderly [OF o] tick_orderly [OF o] switch_orderly [OF o] k
    unfolding objects_kept_def by metis
qed

text \<open>The example of two tasks, after the running one has acquired a mutex.\<close>

lemma example_acquires: "rtranclp kstep example_base (with_mutex 0 (Some 1) 1 example_base)"
proof (rule r_into_rtranclp, rule kstep.call)
  show "permitted (Call_acquire 0 0) example_base 1" by (simp add: may_ask_def)
  have "osi_mutex_acquire 0 0 example_base = Some (Inr (OSS_SUCCESS, with_mutex 0 (Some 1) 1 example_base))"
    using mutex_acquire_free [of example_base 1 0 0] by (simp add: example_base_def blank_defs)
  then show "perform (Call_acquire 0 0) example_base = Some (Inr ((), with_mutex 0 (Some 1) 1 example_base))"
    by (simp add: exec)
qed simp_all

lemma example_orderly: "orderly example_base"
  using example_base_ok by (auto simp: orderly_def settled_def)

theorem kernel_never_fails_witness:
  "\<exists>s'. perform (Call_release 0) (with_mutex 0 (Some 1) 1 example_base) = Some (Inr ((), s')) \<and> orderly s'"
proof -
  let ?s = "with_mutex 0 (Some 1) 1 example_base"
  have "scheduled ?s = None \<and> running ?s = Some 1 \<and> permitted (Call_release 0) ?s 1"
    using same_kernelD(1,2) [OF with_mutex_simps(2)] by (simp add: with_mutex_def)
  with kernel_never_fails [OF example_orderly example_acquires] show ?thesis by metis
qed



lemma level_above: "(x :: u16) < 0xFFFF \<Longrightarrow> 0 < x + 1"
  unfolding word_less_nat_alt by (simp add: unat_word_ariths)

lemma level_below: "0 < (x :: u16) \<Longrightarrow> x \<noteq> 1 \<Longrightarrow> 0 < x - 1"
  by (simp add: word_gt_0)



end
