(* ===== verification/Spec2Isabelle.thy ===== *)
theory Spec2Isabelle
  imports QueueSpec PrintfSpec RttSafe LegacyPrintf Faults ServiceSpec KernelRuns
begin

text \<open>
  A model of a small preemptive real-time kernel for Cortex-M processors (Arduino boards with a
  SAMD21 or SAMD51, and a hosted build for its tests), with the theorems that make it correct.

  \<^bold>\<open>The program.\<close>  Tasks with an 8-bit priority share one processor.  The runnable ones are threaded
  through their control blocks in the run queue, ordered by priority; those that wait for a
  time, with or without an object, in the wait queue, ordered by time.  Mutexes, semaphores,
  message queues and read-write locks each have a list of blocked tasks, threaded through a
  second field.  A task calls the kernel by a supervisor call (\<open>src/src/service.c\<close>,
  \<open>src/src/syscall_plumbing.h\<close>); the kernel (\<open>src/src/os.c\<close>, \<open>mutex.c\<close>, \<open>queue.c\<close>,
  \<open>semaphore.c\<close>, \<open>rwlock.c\<close>, \<open>signals.c\<close>, \<open>utilities.h\<close>) changes the status of tasks, chooses
  the next one and requests a switch, which an exception of lowest priority carries out
  (\<open>src/src/arch/m4.s\<close>).  The timer ticks into the same scheduler.  A failed assertion or a hard
  fault ends in a report and a reset (\<open>src/src/hooks.c\<close>, \<open>src/src/faults.h\<close>).  Text is formatted by
  \<open>src/src/printf.cpp\<close> and goes through \<open>src/src/arduino.cpp\<close> to the ring buffers in memory that a debug
  probe reads (\<open>src/src/segger/SEGGER_RTT.c\<close>); \<open>SEGGER_RTT_printf.c\<close> writes to these buffers too, with a copy of
  that formatter (\<open>tiny_printf.c\<close>) or with an older one of its own.

  \<^bold>\<open>Computations.\<close>  Every C function is a function from the state to \<open>None\<close> (a loop that
  never ends), a fault (a failed \<open>OS_ASSERT\<close>, a reset, a dereferenced \<open>NULL\<close>, an access out of
  bounds, a wrong variable argument, a division by zero), or a result with the new state
  (theory \<open>Prelude\<close>).  A loop is a \<open>partial_function (option)\<close>, so not returning is a value and
  a theorem that a call returns says so; a loop bounded by its data is structurally
  recursive or has a termination proof.  No fuel is used.  Integers are words of the width the
  code declares, and wrap around as there.
  Errors the code returns (\<open>os_status_t\<close>) are ordinary results.

  \<^bold>\<open>State.\<close>  The record \<open>kernel\<close> (theory \<open>OshTypes\<close>) is the global \<open>osg\<close> of \<open>os.c\<close> with the
  objects its pointers lead to: a pointer is the number of its object, \<open>NULL\<close> is the \<open>None\<close> of
  an option, and the fields of the records are those of the structs in \<open>src/src/types.h\<close>.  The stacks are
  words in a byte-addressed memory.  Clock, interrupt number and stack selection are inputs; the pending
  bit of the switch exception is part of the state.  The hooks of the application, delays of
  the platform, what the kernel prints about itself and the entry of a task's handler are recorded in a
  \<open>trace\<close>; the code relies on hooks that leave its state alone.  The record \<open>rtt\<close> (theory \<open>Rtt\<close>) is
  the control block of the debug channel with its buffers, and the schedule of the host: how
  much it reads (\<open>polls\<close>) and types (\<open>typed\<close>) each time the target looks at a shared
  index, since the host works while the target does.

  \<^bold>\<open>Theories, from the bottom.\<close>
  \<^item> \<open>Prelude\<close>, \<open>OshTypes\<close>: computations and their symbolic execution (the collection \<open>exec\<close>);
    chains of pointers as lists, the locales \<open>link_field\<close> (a field of the control block that threads a list;
    interpreted for \<open>nrp\<close> and \<open>nblocked\<close>) and \<open>ordered_queue\<close> (sorted insertion; interpreted
    for priorities and for wake-up times); the data of \<open>types.h\<close>.
  \<^item> \<open>RunQueue\<close>, \<open>Blocked\<close>, \<open>QueueSpec\<close>: the loops over the three kinds of lists and what
    they are on well-formed ones: sorted insertion, removal, membership, appending at the end,
    the checks of order and cycles.
  \<^item> \<open>Stack\<close>, \<open>TaskStatus\<close>: painting and measuring stacks, the first frame of a task, the
    registers a sleeping task finds its result in; \<open>osi_task_status_set\<close>, which moves a task
    between the queues and keeps them in order (\<open>queues_ok\<close>).
  \<^item> \<open>Scheduler\<close>, \<open>Choice\<close>, \<open>Dispatch\<close>, \<open>Schedule\<close>, \<open>SchedulerSpec\<close>: \<open>find_new_task\<close>,
    \<open>osi_dispatch\<close>, \<open>osi_schedule\<close>, the tick, the panic and the switch; which task is chosen, what a dispatch
    leaves, who wakes up.  \<open>steady\<close> is the state of the two queues between calls.
  \<^item> \<open>Blocking\<close>, \<open>Rooms\<close>, \<open>Invariant\<close>, \<open>HandOver\<close>, \<open>Examples\<close>: the calls that give up the
    processor; the invariant \<open>kernel_ok\<close> of queues and blocked lists together; the locale \<open>waiting_room\<close>,
    which states what the blocked list of a kind of object promises and proves once what
    waiting in it does (interpreted for the four kinds); handing an object over to a task that waits.
  \<^item> \<open>Fifo\<close>, \<open>Mutex\<close>, \<open>MsgQueue\<close>, \<open>Semaphore\<close>, \<open>Rwlock\<close>, \<open>Signals\<close>: the
    objects, with their behaviour on each branch.  The locale \<open>fifo\<close> is the contract of a bounded
    buffer, kept by the message queues and by the rings of the debug channel.
  \<^item> \<open>Tasks\<close>, \<open>TaskLife\<close>: initialising, starting and tearing down the system, creating,
    starting, suspending, resuming and finishing tasks; starting the system establishes the invariant, and a
    task that ends gives way.
  \<^item> \<open>KernelCalls\<close>, \<open>TaskCalls\<close>, \<open>KernelRuns\<close>: the locale \<open>kernel_call\<close> is the contract of a
    call: made by the running task when it is permitted, it returns and leaves the kernel orderly.
    Each call is an interpretation; \<open>TaskCalls\<close> has those that suspend, resume and start other tasks.
    The step relation \<open>kstep\<close> composes them with ticks, switches and the work of the tasks:
    in every reachable state permitted calls return, the task with the highest priority runs,
    mutexes stay with their owners and locks exclusive (\<open>well_done\<close> is what each call keeps of the objects).
  \<^item> \<open>Service\<close>, \<open>ServiceSpec\<close>: the functions \<open>svc_*\<close> and \<open>os_*\<close>, the exception that
    leads from one to the other, and where a task finds its result.
  \<^item> \<open>Printf\<close>, \<open>PrintfSpec\<close>: the formatter.  Buffers and their ends, decimal numbers that can be read back,
    and the ways rounding fails.  Doubles are rational numbers; infinities and NaN are left out.
  \<^item> \<open>TinyPrintf\<close>: the copy of the formatter for the debug channel, with the switch that builds it without
    \<open>long long\<close> and floating point (the first argument of its functions), and what that leaves unchanged.
  \<^item> \<open>Rtt\<close>, \<open>RttSpec\<close>, \<open>RttRead\<close>, \<open>RttPrintf\<close>: the debug channel, refinement of its rings
    to byte streams under any schedule of the host, and printing through it.
  \<^item> \<open>RttSafe\<close>: well-formed control blocks (\<open>rtt_ok\<close>), with a calculus of weakest preconditions that lets the host
    work in between; every sequence of sound calls stays inside the buffers.
  \<^item> \<open>LegacyPrintf\<close>: the older formatter of \<open>SEGGER_RTT_printf.c\<close>; its numbers against those of \<open>Printf\<close>,
    and the precisions for which it fails.
  \<^item> \<open>Faults\<close>: the hooks of a failed assertion, the hard fault handler from its vector to the report, the bit
    fields of the fault registers, and the free memory; the frame of a new task read as an exception frame.

  \<^bold>\<open>What is permitted.\<close>  The theorems about runs of the system are about calls the kernel can
  answer: the idle task neither waits nor ends; a time limit lies ahead of the clock, which does not
  wrap around in between; queues have storage; holders release.  The code does
  not check these.  Two further exclusions are errors of the code, shown by theorems of
  their own: a task that has waited for a semaphore cannot be woken (\<open>Semaphore\<close>), and a
  lock released to readers wakes one of them and requests no switch (\<open>Rwlock\<close>).  A task is
  resumed or started by one of no lower priority, since that requests no switch either, and
  suspended by another task while it waits for nothing.  A call is one step of \<open>kstep\<close>: no tick comes in
  between, although \<open>os_task_start_options\<close>, \<open>os_task_suspend\<close> and \<open>os_task_resume\<close> are
  not supervisor calls and only part of what they do is inside \<open>OS_LOCK\<close>.

  \<^bold>\<open>Choices of the model.\<close>  \<open>OS_LOCK\<close> and \<open>SEGGER_RTT_LOCK\<close> keep interrupts out and have no
  effect of their own.  Builds with \<open>__pic__\<close> and the dumps of \<open>OS_CONFIG_DEBUG\<close> are left
  out; the three targets differ where the sources say so.  \<open>SEGGER_RTT_WriteSkipNoLock\<close> is the C
  version, not the assembler one.

  \<^bold>\<open>Not modelled.\<close>  The handlers for the Cortex-M0 (\<open>src/src/arch/m0.s\<close>), which repeat those for the M4,
  and the vectors of \<open>src/src/gcc.s\<close>; the console of the hosted build, which is the C library's;
  the assembler version of the skip write; examples and tests.  Of a hard fault only the words and registers
  the handler reads are there, not what the processor did before.  A service call is one step of \<open>kstep\<close>: its way
  through the exception is in \<open>ServiceSpec\<close> and is not interleaved with other calls there.  The
  runs of the system leave out a task that suspends itself, and nothing is shown of the order of messages over a whole run.
\<close>

end
